(* ===== verification/Prelude.thy ===== *)
theory Prelude
  imports
    Main
    "HOL-Library.Word"
    "HOL-Library.AList"
    "HOL-Library.Multiset"
    "HOL-Library.Signed_Division"
    "HOL-Library.Char_ord"
    "HOL-Library.List_Lexorder"
begin

text \<open>
  What every component shares: the outcome of a Go call (a value, a returned error or a panic),
  the loops of the code as folds over outcomes, the machine integers of Go, Go maps and ordered
  key-value stores as association lists, and the lemmas about them that carry the component
  proofs. The collections \<open>outcome_simps\<close> and \<open>map_simps\<close> are the rewrite sets of the library.
\<close>

named_theorems outcome_simps \<open>how a sequence of calls returns\<close>
named_theorems map_simps \<open>look-up after an update\<close>

type_synonym denom = string
type_synonym addr = string
type_synonym u64 = "64 word"


section \<open>Outcomes of Go calls\<close>

text \<open>
  The errors the modelled packages register or build (\<open>x/market/types/errors.go\<close>,
  \<open>x/oracle/types/errors.go\<close>, \<open>x/wasm/types/errors.go\<close>, \<open>sdkerrors\<close>); the text a source error is wrapped in is kept only
  where it names the denom. \<open>ErrMsg\<close> is an error made with \<open>fmt.Errorf\<close> or \<open>errors.New\<close>,
  \<open>ErrExternal\<close> an error that a package outside the repository returned.
\<close>

datatype err =
    ErrRecursiveSwap denom
  | ErrNoEffectivePrice denom
  | ErrZeroSwapCoin
  | ErrInvalidExchangeRate
  | ErrNoVotingPermission
  | ErrInvalidHash
  | ErrInvalidHashLength
  | ErrVerificationFailed
  | ErrRevealPeriodMissMatch
  | ErrInvalidSaltLength
  | ErrNoAggregatePrevote
  | ErrNoAggregateVote
  | ErrNoTobinTax denom
  | ErrUnknownDenom denom
  | ErrNoValidatorFound
  | ErrInvalidCoins
  | ErrInvalidAddress
  | ErrInvalidRequest
  | ErrUnknownRequest
  | ErrInsufficientFee
  | ErrTxDecode
  | ErrPanic
  | ErrUnauthorized
  | ErrOutOfGas
  | ErrJSONUnmarshal
  | ErrJSONMarshal
  | ErrAccountExists
  | ErrInstantiateFailed
  | ErrExecuteFailed
  | ErrInvalidGenesis
  | ErrNotFound
  | ErrInvalidMsg
  | ErrNoRegisteredQuerier
  | ErrNoRegisteredParser
  | ErrMigrationFailed
  | ErrNotMigratable
  | ErrStoreCodeFailed
  | ErrContractQueryFailed
  | ErrExceedMaxContractSize
  | ErrExceedMaxContractMsgSize
  | ErrReplyFailed
  | ErrExceedMaxQueryDepth
  | ErrInvalidPubKey
  | ErrUnknownAddress
  | ErrWrongSequence
  | ErrTooManySignatures
  | ErrInvalidType
  | ErrLogic
  | ErrMsg string
  | ErrExternal string

text \<open>
  A Go function with an \<open>error\<close> result returns \<open>Ok\<close> or \<open>Err\<close>; a run-time panic is \<open>Panic\<close>. State
  is returned inside \<open>Ok\<close>: the store a failed message wrote to is the cached one that the
  application drops, and a panic at the end of a block stops the node.
\<close>

datatype 'a outcome = Ok 'a | Err err | Panic

fun andThen :: "'a outcome \<Rightarrow> ('a \<Rightarrow> 'b outcome) \<Rightarrow> 'b outcome" where
  "andThen (Ok a) f = f a"
| "andThen (Err e) f = Err e"
| "andThen Panic f = Panic"

text \<open>\<open>if err != nil { panic(err) }\<close> after a call.\<close>

fun mustOk :: "'a outcome \<Rightarrow> 'a outcome" where
  "mustOk (Err e) = Panic"
| "mustOk r = r"

definition require :: "bool \<Rightarrow> err \<Rightarrow> unit outcome" where
  "require b e = (if b then Ok () else Err e)"

text \<open>\<open>sdkerrors.Wrap\<close> of whatever error a call returned.\<close>

fun wrapErr :: "err \<Rightarrow> 'a outcome \<Rightarrow> 'a outcome" where
  "wrapErr e (Err _) = Err e"
| "wrapErr e r = r"

lemma wrapErr_Ok_iff [simp]: "wrapErr e r = Ok a \<longleftrightarrow> r = Ok a"
  by (cases r) auto

text \<open>A \<open>for ... range\<close> loop over a slice that threads a state and stops at the first failure.\<close>

fun forEach :: "('a \<Rightarrow> 's \<Rightarrow> 's outcome) \<Rightarrow> 'a list \<Rightarrow> 's \<Rightarrow> 's outcome" where
  "forEach f [] s = Ok s"
| "forEach f (x # xs) s = andThen (f x s) (forEach f xs)"

lemma andThen_Ok_iff [simp, outcome_simps]:
  "andThen r f = Ok b \<longleftrightarrow> (\<exists>a. r = Ok a \<and> f a = Ok b)"
  by (cases r) auto

lemma guard_Ok_iff [simp, outcome_simps]:
  "(if b then Panic else r) = Ok x \<longleftrightarrow> \<not> b \<and> r = Ok x"
  "(if b then Err e else r) = Ok x \<longleftrightarrow> \<not> b \<and> r = Ok x"
  "(if b then r else Panic) = Ok x \<longleftrightarrow> b \<and> r = Ok x"
  "(if b then r else Err e) = Ok x \<longleftrightarrow> b \<and> r = Ok x"
  by auto

lemma andThen_Panic_iff [outcome_simps]:
  "andThen r f = Panic \<longleftrightarrow> r = Panic \<or> (\<exists>a. r = Ok a \<and> f a = Panic)"
  by (cases r) auto

lemma andThen_Err_iff [outcome_simps]:
  "andThen r f = Err e \<longleftrightarrow> r = Err e \<or> (\<exists>a. r = Ok a \<and> f a = Err e)"
  by (cases r) auto

lemma andThen_assoc: "andThen (andThen r f) g = andThen r (\<lambda>x. andThen (f x) g)"
  by (cases r) auto

lemma andThen_cong [fundef_cong]:
  "r = r' \<Longrightarrow> (\<And>a. r' = Ok a \<Longrightarrow> f a = g a) \<Longrightarrow> andThen r f = andThen r' g"
  by (cases r') auto

lemma mustOk_Ok_iff [simp, outcome_simps]: "mustOk r = Ok a \<longleftrightarrow> r = Ok a"
  by (cases r) auto

lemma mustOk_not_Err [simp]: "mustOk r \<noteq> Err e"
  by (cases r) auto

lemma require_Ok_iff [simp, outcome_simps]: "require b e = Ok u \<longleftrightarrow> b"
  by (simp add: require_def)

lemma require_not_Panic [simp]: "require b e \<noteq> Panic"
  by (simp add: require_def)

lemma forEach_append:
  "forEach f (xs @ ys) s = andThen (forEach f xs s) (forEach f ys)"
  by (induction xs arbitrary: s) (auto simp: andThen_assoc intro!: andThen_cong)

text \<open>The loop rules: what each round keeps, the loop keeps; rounds that succeed make it succeed.\<close>

lemma forEach_invariant:
  assumes "forEach f xs s = Ok t" and "P s"
    and "\<And>x u v. x \<in> set xs \<Longrightarrow> P u \<Longrightarrow> f x u = Ok v \<Longrightarrow> P v"
  shows "P t"
  using assms
proof (induction xs arbitrary: s)
  case Nil
  then show ?case by simp
next
  case (Cons x xs)
  from Cons.prems(1) obtain u where u: "f x s = Ok u" "forEach f xs u = Ok t" by auto
  with Cons.prems have "P u" by (meson list.set_intros(1))
  with u(2) show ?case
    using Cons.prems(3) by (intro Cons.IH [of u]) (auto intro: list.set_intros)
qed

lemma forEach_total:
  assumes "P s" and "\<And>x u. x \<in> set xs \<Longrightarrow> P u \<Longrightarrow> \<exists>v. f x u = Ok v \<and> P v"
  shows "\<exists>t. forEach f xs s = Ok t \<and> P t"
  using assms
proof (induction xs arbitrary: s)
  case Nil
  then show ?case by simp
next
  case (Cons x xs)
  then obtain v where "f x s = Ok v" "P v" by (meson list.set_intros(1))
  with Cons show ?case by auto
qed

lemma forEach_pure:
  "(\<And>x u. x \<in> set xs \<Longrightarrow> f x u = Ok (g x u)) \<Longrightarrow> forEach f xs s = Ok (fold g xs s)"
  by (induction xs arbitrary: s) auto

lemma forEach_require:
  "forEach (\<lambda>x _. require (P x) (e x)) xs u = Ok v \<longleftrightarrow> (\<forall>x\<in>set xs. P x)"
  by (induction xs arbitrary: u) auto

lemma forEach_no_Err:
  assumes "\<And>x u e. x \<in> set xs \<Longrightarrow> f x u \<noteq> Err e"
  shows "forEach f xs s \<noteq> Err e"
  using assms by (induction xs arbitrary: s) (auto simp: andThen_Err_iff)

text \<open>
  What a loop adds to an observed quantity is the sum of what its rounds add; and a loop whose
  rounds succeed while a weight stays below a limit succeeds when the weights of all its rounds do.
\<close>

lemma forEach_additive:
  fixes \<Phi> :: "'s \<Rightarrow> int"
  assumes "forEach f xs s = Ok t" and "P s"
    and "\<And>x u v. x \<in> set xs \<Longrightarrow> P u \<Longrightarrow> f x u = Ok v \<Longrightarrow> P v \<and> \<Phi> v = \<Phi> u + g x"
  shows "P t \<and> \<Phi> t = \<Phi> s + (\<Sum>x\<leftarrow>xs. g x)"
  using assms
proof (induction xs arbitrary: s)
  case Nil
  then show ?case by simp
next
  case (Cons x xs)
  from Cons.prems(1) obtain u where u: "f x s = Ok u" "forEach f xs u = Ok t" by auto
  with Cons.prems(2) Cons.prems(3) [of x s u] have "P u \<and> \<Phi> u = \<Phi> s + g x" by simp
  moreover have "P t \<and> \<Phi> t = \<Phi> u + (\<Sum>x\<leftarrow>xs. g x)"
    using u(2) calculation Cons.prems(3) by (intro Cons.IH) auto
  ultimately show ?case by simp
qed

lemma forEach_weight:
  fixes \<Phi> :: "'s \<Rightarrow> int"
  assumes "\<Phi> s + (\<Sum>x\<leftarrow>xs. g x) \<le> W" and "P s" and "\<And>x. x \<in> set xs \<Longrightarrow> 0 \<le> g x"
    and "\<And>x u. x \<in> set xs \<Longrightarrow> P u \<Longrightarrow> \<Phi> u + g x \<le> W \<Longrightarrow> \<exists>v. f x u = Ok v \<and> P v \<and> \<Phi> v \<le> \<Phi> u + g x"
  shows "\<exists>t. forEach f xs s = Ok t \<and> P t \<and> \<Phi> t \<le> \<Phi> s + (\<Sum>x\<leftarrow>xs. g x)"
  using assms
proof (induction xs arbitrary: s)
  case Nil
  then show ?case by simp
next
  case (Cons x xs)
  have "0 \<le> (\<Sum>x\<leftarrow>xs. g x)" using Cons.prems(3) by (intro sum_list_nonneg) auto
  with Cons.prems(1) have "\<Phi> s + g x \<le> W" by simp
  with Cons.prems obtain u where u: "f x s = Ok u" "P u" "\<Phi> u \<le> \<Phi> s + g x"
    by (meson list.set_intros(1))
  with Cons.prems have "\<exists>t. forEach f xs u = Ok t \<and> P t \<and> \<Phi> t \<le> \<Phi> u + (\<Sum>x\<leftarrow>xs. g x)"
    by (intro Cons.IH) auto
  with u show ?case by force
qed


text \<open>A loop that overwrites each element of a slice by what a call returns for it.\<close>

fun mapOutcome :: "('a \<Rightarrow> 'b outcome) \<Rightarrow> 'a list \<Rightarrow> 'b list outcome" where
  "mapOutcome f [] = Ok []"
| "mapOutcome f (x # xs) = andThen (f x) (\<lambda>y. andThen (mapOutcome f xs) (\<lambda>ys. Ok (y # ys)))"

lemma mapOutcome_Ok: "mapOutcome f xs = Ok ys \<longleftrightarrow> list_all2 (\<lambda>x y. f x = Ok y) xs ys"
  by (induction xs arbitrary: ys) (auto simp: list_all2_Cons1)

lemma mapOutcome_total: "(\<And>x. x \<in> set xs \<Longrightarrow> \<exists>y. f x = Ok y) \<Longrightarrow> \<exists>ys. mapOutcome f xs = Ok ys"
  by (induction xs) fastforce+


section \<open>Go integers\<close>

text \<open>
  \<open>int64\<close> values are \<open>int\<close>s in range with the wrap-around written out, \<open>uint64\<close> values are 64-bit
  words. \<open>bit_len\<close> is \<open>big.Int.BitLen\<close>: the bits of the absolute value. Integer division of Go
  truncates towards zero (\<open>sdiv\<close>).
\<close>

definition i64 :: "int \<Rightarrow> int" where
  "i64 x = (x + 2 ^ 63) mod 2 ^ 64 - 2 ^ 63"

definition in_i64 :: "int \<Rightarrow> bool" where
  "in_i64 x \<longleftrightarrow> - (2 ^ 63) \<le> x \<and> x < 2 ^ 63"

lemma i64_id [simp]: "in_i64 x \<Longrightarrow> i64 x = x"
  by (simp add: i64_def in_i64_def)

lemma in_i64_i64 [simp]: "in_i64 (i64 x)"
  by (simp add: i64_def in_i64_def)

fun nat_bits :: "nat \<Rightarrow> nat" where
  "nat_bits n = (if n = 0 then 0 else Suc (nat_bits (n div 2)))"

definition bit_len :: "int \<Rightarrow> nat" where
  "bit_len x = nat_bits (nat \<bar>x\<bar>)"

declare nat_bits.simps [simp del]

lemma nat_bits_le_iff: "nat_bits n \<le> k \<longleftrightarrow> n < 2 ^ k"
proof (induction n arbitrary: k rule: nat_bits.induct)
  case (1 n)
  show ?case
  proof (cases "n = 0")
    case True
    then show ?thesis by (simp add: nat_bits.simps)
  next
    case False
    then have eq: "nat_bits n = Suc (nat_bits (n div 2))" by (subst nat_bits.simps) simp
    show ?thesis
    proof (cases k)
      case 0
      with eq False show ?thesis by simp
    next
      case (Suc j)
      have "n div 2 < 2 ^ j \<longleftrightarrow> n < 2 ^ Suc j" by auto
      with Suc eq 1 [OF False, of j] show ?thesis by simp
    qed
  qed
qed

lemma bit_len_le_iff: "bit_len x \<le> n \<longleftrightarrow> \<bar>x\<bar> < 2 ^ n"
  by (simp add: bit_len_def nat_bits_le_iff nat_less_iff)

lemma less_bit_len_iff: "n < bit_len x \<longleftrightarrow> 2 ^ n \<le> \<bar>x\<bar>"
  using bit_len_le_iff [of x n] by linarith

text \<open>Truncated division of integers, by a positive divisor.\<close>

lemma sdiv_nonneg: "0 \<le> (a::int) \<Longrightarrow> 0 < n \<Longrightarrow> a sdiv n = a div n"
  by (cases "a = 0") (auto simp: signed_divide_int_def sgn_if)

lemma sdiv_neg: "(a::int) < 0 \<Longrightarrow> 0 < n \<Longrightarrow> a sdiv n = - ((- a) div n)"
  by (auto simp: signed_divide_int_def sgn_if)

lemma sdiv_mono:
  assumes "(a::int) \<le> b" "0 < n" shows "a sdiv n \<le> b sdiv n"
proof (cases "0 \<le> a")
  case True
  with assms show ?thesis by (simp add: sdiv_nonneg zdiv_mono1)
next
  case a: False
  show ?thesis
  proof (cases "0 \<le> b")
    case True
    with a assms have "a sdiv n \<le> 0" by (simp add: sdiv_neg pos_imp_zdiv_nonneg_iff)
    also have "0 \<le> b sdiv n" using True assms by (simp add: sdiv_nonneg pos_imp_zdiv_nonneg_iff)
    finally show ?thesis .
  next
    case False
    with a assms show ?thesis by (simp add: sdiv_neg zdiv_mono1)
  qed
qed

lemma abs_sdiv: "0 < n \<Longrightarrow> \<bar>(a::int) sdiv n\<bar> = \<bar>a\<bar> div n"
  by (auto simp: signed_divide_int_def abs_mult sgn_if pos_imp_zdiv_nonneg_iff)

lemma abs_sdiv_le: "0 < n \<Longrightarrow> \<bar>(a::int) sdiv n\<bar> \<le> \<bar>a\<bar>"
  using zdiv_mono2 [of "\<bar>a\<bar>" 1 n] by (simp add: abs_sdiv)


text \<open>What \<open>fmt\<close> prints for \<open>%d\<close>.\<close>

fun dec_text :: "nat \<Rightarrow> string" where
  "dec_text n = (if n < 10 then [char_of (48 + n)] else dec_text (n div 10) @ [char_of (48 + n mod 10)])"

declare dec_text.simps [simp del]


section \<open>Go maps\<close>

text \<open>
  A Go map is an association list with distinct keys; a \<open>range\<close> loop visits it in list order. Go
  leaves that order open, so theorems about such loops speak of the map's content, which no
  reordering changes. Indexing a missing key gives the zero value of the value type.
\<close>

type_synonym ('k, 'v) gomap = "('k \<times> 'v) list"

definition go_get :: "'v \<Rightarrow> ('k, 'v) gomap \<Rightarrow> 'k \<Rightarrow> 'v" where
  "go_get z m k = (case map_of m k of Some v \<Rightarrow> v | None \<Rightarrow> z)"

abbreviation go_put :: "'k \<Rightarrow> 'v \<Rightarrow> ('k, 'v) gomap \<Rightarrow> ('k, 'v) gomap" where
  "go_put \<equiv> AList.update"

abbreviation go_del :: "'k \<Rightarrow> ('k, 'v) gomap \<Rightarrow> ('k, 'v) gomap" where
  "go_del \<equiv> AList.delete"

abbreviation keys :: "('k, 'v) gomap \<Rightarrow> 'k set" where
  "keys m \<equiv> fst ` set m"

abbreviation go_map :: "('k, 'v) gomap \<Rightarrow> bool" where
  "go_map m \<equiv> distinct (map fst m)"

lemma map_of_put [simp, map_simps]: "map_of (go_put k v m) = (map_of m)(k \<mapsto> v)"
  by (rule update_conv')

lemma map_of_del [simp, map_simps]: "map_of (go_del k m) = (map_of m)(k := None)"
  by (rule delete_conv')

lemma go_get_put [simp, map_simps]:
  "go_get z (go_put k v m) k' = (if k' = k then v else go_get z m k')"
  by (simp add: go_get_def)

lemma go_get_del [simp, map_simps]:
  "go_get z (go_del k m) k' = (if k' = k then z else go_get z m k')"
  by (simp add: go_get_def)

lemma go_get_Nil [simp]: "go_get z [] k = z"
  by (simp add: go_get_def)

lemma go_get_notin: "k \<notin> keys m \<Longrightarrow> go_get z m k = z"
  by (simp add: go_get_def map_of_eq_None_iff [THEN iffD2])

lemma go_get_Cons: "go_get z ((k, v) # m) k' = (if k' = k then v else go_get z m k')"
  by (simp add: go_get_def)

lemma go_put_new: "k \<notin> keys m \<Longrightarrow> go_put k v m = m @ [(k, v)]"
  by (induction m) auto

lemma set_put_subset: "set (go_put k v m) \<subseteq> insert (k, v) (set m)"
  by (induction m) auto

text \<open>Copying a map entry by entry.\<close>

lemma copy_map:
  "go_map m \<Longrightarrow> keys m \<inter> keys acc = {} \<Longrightarrow> fold (\<lambda>(k, v) m. go_put k v m) m acc = acc @ m"
proof (induction m arbitrary: acc)
  case (Cons p m)
  obtain k v where p: "p = (k, v)" by (cases p)
  with Cons.prems have "go_put k v acc = acc @ [(k, v)]" by (intro go_put_new) auto
  with Cons p show ?case by auto
qed simp

lemma go_map_put [simp]: "go_map m \<Longrightarrow> go_map (go_put k v m)"
  by (rule distinct_update)

lemma go_map_del [simp]: "go_map m \<Longrightarrow> go_map (go_del k m)"
  by (rule distinct_delete)

lemma keys_put [simp]: "keys (go_put k v m) = insert k (keys m)"
  using dom_update [of k v m] by simp

lemma keys_del [simp]: "keys (go_del k m) = keys m - {k}"
  by (auto simp: AList.delete_eq)

text \<open>A property of all entries of a map.\<close>

definition go_all :: "('k \<Rightarrow> 'v \<Rightarrow> bool) \<Rightarrow> ('k, 'v) gomap \<Rightarrow> bool" where
  "go_all P m \<longleftrightarrow> (\<forall>p\<in>set m. P (fst p) (snd p))"

lemma go_all_Nil [simp]: "go_all P []"
  by (simp add: go_all_def)

lemma go_all_Cons [simp]: "go_all P (p # m) \<longleftrightarrow> P (fst p) (snd p) \<and> go_all P m"
  by (simp add: go_all_def)

lemma go_all_put [intro, simp]: "go_all P m \<Longrightarrow> P k v \<Longrightarrow> go_all P (go_put k v m)"
  using set_put_subset [of k v m] by (auto simp: go_all_def)

lemma go_all_del [intro, simp]: "go_all P m \<Longrightarrow> go_all P (go_del k m)"
  by (auto simp: go_all_def AList.delete_eq)

lemma go_all_get: "go_all P m \<Longrightarrow> map_of m k = Some v \<Longrightarrow> P k v"
  unfolding go_all_def using map_of_SomeD [of m k v] by fastforce

text \<open>A sum over all entries of a map after one entry changed.\<close>

definition sum_map :: "('v \<Rightarrow> int) \<Rightarrow> ('k, 'v) gomap \<Rightarrow> int" where
  "sum_map f m = (\<Sum>(k, v)\<leftarrow>m. f v)"

lemma sum_map_Nil [simp]: "sum_map f [] = 0"
  by (simp add: sum_map_def)

lemma sum_map_Cons [simp]: "sum_map f ((k, v) # m) = f v + sum_map f m"
  by (simp add: sum_map_def)

lemma sum_map_append [simp]: "sum_map f (m @ m') = sum_map f m + sum_map f m'"
  by (simp add: sum_map_def)

lemma sum_map_put:
  "go_map m \<Longrightarrow> f z = 0 \<Longrightarrow> sum_map f (go_put k v m) = sum_map f m - f (go_get z m k) + f v"
proof (induction m)
  case (Cons p m)
  obtain k' v' where p: "p = (k', v')" by (cases p)
  with Cons show ?case
    by (auto simp: go_get_Cons)
qed (simp add: sum_map_def)

lemma sum_map_del:
  "go_map m \<Longrightarrow> f z = 0 \<Longrightarrow> sum_map f (go_del k m) = sum_map f m - f (go_get z m k)"
proof (induction m)
  case (Cons p m)
  obtain k' v' where p: "p = (k', v')" by (cases p)
  have "go_get z m k' = z" if "k' \<notin> keys m" using that by (rule go_get_notin)
  with p Cons show ?case
    by (auto simp: go_get_Cons)
qed simp

lemma sum_map_perm: "mset m = mset m' \<Longrightarrow> sum_map f m = sum_map f m'"
  unfolding sum_map_def by (simp flip: sum_mset_sum_list)

lemma go_get_mem: "go_map m \<Longrightarrow> (k, v) \<in> set m \<Longrightarrow> go_get z m k = v"
  by (simp add: go_get_def)

lemma map_of_perm:
  assumes "go_map m" "mset m = mset m'" shows "map_of m = map_of m'"
proof -
  have "mset (map fst m) = mset (map fst m')" using assms(2) by simp
  then have "go_map m'" using assms(1) mset_eq_imp_distinct_iff by blast
  then show ?thesis
    using map_of_inject_set [OF assms(1)] mset_eq_setD [OF assms(2)] by blast
qed


text \<open>
  A module store is a map from keys to values whose prefix iterators visit the keys in ascending
  byte order. Handlers that delete while they iterate work on the entries the iterator saw.
\<close>

definition kv_iter :: "('k :: linorder, 'v) gomap \<Rightarrow> ('k \<times> 'v) list" where
  "kv_iter m = sort_key fst m"

lemma mset_kv_iter [simp]: "mset (kv_iter m) = mset m"
  by (simp add: kv_iter_def)

lemma set_kv_iter [simp]: "set (kv_iter m) = set m"
  by (simp add: kv_iter_def)

lemma go_map_kv_iter [simp]: "go_map (kv_iter m) \<longleftrightarrow> go_map m"
  by (metis mset_kv_iter mset_map mset_eq_imp_distinct_iff)

lemma map_of_kv_iter: "go_map m \<Longrightarrow> map_of (kv_iter m) = map_of m"
  using map_of_perm [of m "kv_iter m"] by simp

text \<open>Deleting every key that an iterator saw empties the map.\<close>

lemma map_of_fold_del: "map_of (fold go_del ks m) k = (if k \<in> set ks then None else map_of m k)"
  by (induction ks arbitrary: m) auto

lemma fold_del_all: "keys m \<subseteq> set ks \<Longrightarrow> fold go_del ks m = []"
proof -
  assume "keys m \<subseteq> set ks"
  then have "map_of (fold go_del ks m) = Map.empty"
    by (auto simp: map_of_fold_del fun_eq_iff map_of_eq_None_iff)
  then show ?thesis by simp
qed

lemma div_less_iff_int:
  fixes a W n :: int
  assumes "0 < W" shows "a div W < n \<longleftrightarrow> a < n * W"
proof -
  have "a = a div W * W + a mod W" by simp
  then have m: "a div W * W \<le> a" "a < (a div W + 1) * W"
    unfolding distrib_right mult_1 using pos_mod_bound [OF assms, of a] pos_mod_sign [OF assms, of a]
    by linarith+
  have "a < n * W" if "a div W + 1 \<le> n" using m(2) mult_right_mono [OF that, of W] assms by linarith
  moreover have "n * W \<le> a" if "n \<le> a div W" using m(1) mult_right_mono [OF that, of W] assms by linarith
  ultimately show ?thesis by (meson add1_zle_eq not_le)
qed

lemma div_mult_le_int: "0 < (b::int) \<Longrightarrow> a div b * b \<le> a"
  using pos_mod_sign [of b a] div_mult_mod_eq [of a b] by linarith

text \<open>A 64-bit word below 2^63 reads the same signed and unsigned.\<close>

lemma sint_small:
  fixes w :: u64
  assumes "uint w < 2 ^ 63" shows "sint w = uint w"
proof -
  have "signed_take_bit 63 (uint w) = uint w"
    by (rule signed_take_bit_int_eq_self) (use assms uint_ge_0 [of w] in linarith)+
  then show ?thesis by (simp add: sint_uint)
qed

end
