(* ===== verification/Sdk.thy ===== *)
theory Sdk
  imports Prelude
begin

text \<open>
  The value library of the Cosmos SDK (\<open>sdk.Dec\<close>, \<open>sdk.Int\<close>, \<open>sdk.Coin(s)\<close>, bech32 addresses) is not
  part of the repository, so it is a parameter of the model: a record \<open>sdk\<close> of the functions the
  code calls, which every definition that computes with them takes as its first argument. What the
  code relies on is stated as three law predicates, \<open>dec_laws\<close>, \<open>coin_laws\<close> and \<open>addr_laws\<close>, each of
  which gives documented behaviour: 18 decimal places, results rounded to the nearest unit, a panic
  when a result does not fit the documented bit length or when the divisor is zero, and the
  pointwise arithmetic of sorted coin sets. \<open>sdk_ref\<close> is an instance that satisfies them and on
  which the witnesses compute.

  A \<open>dec\<close> is the number of units of 10^-18 it stands for, so comparisons of decimals are
  comparisons of integers.
\<close>

type_synonym dec = int

definition one_dec :: dec where
  "one_dec = 10 ^ 18"

lemma one_dec_pos [simp]: "0 < one_dec" "0 \<le> one_dec" "one_dec \<noteq> 0"
  by (simp_all add: one_dec_def)

definition dec_of_int :: "int \<Rightarrow> dec" where
  "dec_of_int n = n * one_dec"

record coin =
  coin_denom :: denom
  coin_amount :: int

record dec_coin =
  dc_denom :: denom
  dc_amount :: dec

type_synonym coins = "coin list"
type_synonym dec_coins = "dec_coin list"

record sdk =
  dec_bits :: nat
  int_bits :: nat
  dec_add :: "dec \<Rightarrow> dec \<Rightarrow> dec outcome"
  dec_sub :: "dec \<Rightarrow> dec \<Rightarrow> dec outcome"
  dec_mul :: "dec \<Rightarrow> dec \<Rightarrow> dec outcome"
  dec_quo :: "dec \<Rightarrow> dec \<Rightarrow> dec outcome"
  dec_mul_int :: "dec \<Rightarrow> int \<Rightarrow> dec outcome"
  dec_quo_int :: "dec \<Rightarrow> int \<Rightarrow> dec outcome"
  dec_trunc :: "dec \<Rightarrow> int outcome"
  dec_round :: "dec \<Rightarrow> int outcome"
  dec_ceil :: "dec \<Rightarrow> dec outcome"
  int_add :: "int \<Rightarrow> int \<Rightarrow> int outcome"
  int_sub :: "int \<Rightarrow> int \<Rightarrow> int outcome"
  denom_valid :: "denom \<Rightarrow> bool"
  new_coin :: "denom \<Rightarrow> int \<Rightarrow> coin outcome"
  new_dec_coin :: "denom \<Rightarrow> dec \<Rightarrow> dec_coin outcome"
  coins_add :: "coins \<Rightarrow> coins \<Rightarrow> coins outcome"
  coins_sub :: "coins \<Rightarrow> coins \<Rightarrow> coins outcome"
  dec_coins_add :: "dec_coins \<Rightarrow> dec_coins \<Rightarrow> dec_coins outcome"
  dec_coins_mul :: "dec_coins \<Rightarrow> dec \<Rightarrow> dec_coins outcome"
  dec_coins_trunc :: "dec_coins \<Rightarrow> coins outcome"
  dec_coins_of_coins :: "coins \<Rightarrow> dec_coins"
  coins_is_zero :: "coins \<Rightarrow> bool"
  coins_amount_of :: "coins \<Rightarrow> denom \<Rightarrow> int"
  dec_coins_is_zero :: "dec_coins \<Rightarrow> bool"
  new_coins :: "coins \<Rightarrow> coins outcome"
  coins_sort :: "coins \<Rightarrow> coins"
  coins_is_valid :: "coins \<Rightarrow> bool"
  coins_safe_sub :: "coins \<Rightarrow> coins \<Rightarrow> (coins \<times> bool) outcome"
  coins_any_gte :: "coins \<Rightarrow> coins \<Rightarrow> bool"
  coin_add :: "coin \<Rightarrow> coin \<Rightarrow> coin outcome"
  dec_coin_add :: "dec_coin \<Rightarrow> dec_coin \<Rightarrow> dec_coin outcome"
  dec_coin_sub :: "dec_coin \<Rightarrow> dec_coin \<Rightarrow> dec_coin outcome"
  dec_coin_trunc :: "dec_coin \<Rightarrow> (coin \<times> dec_coin) outcome"
  parse_coin :: "string \<Rightarrow> coin outcome"
  acc_of_bech32 :: "string \<Rightarrow> addr outcome"
  acc_bech32 :: "addr \<Rightarrow> string"
  val_of_bech32 :: "string \<Rightarrow> addr outcome"
  val_bech32 :: "addr \<Rightarrow> string"
  parse_dec_coin :: "string \<Rightarrow> dec_coin outcome"
  float_sqrt :: "dec \<Rightarrow> dec"

section \<open>Coin sets\<close>

text \<open>
  What a coin set holds of a denom, and the documented validity of \<open>sdk.Coins\<close>: strictly sorted by
  denom, every amount positive.
\<close>

definition amt :: "coins \<Rightarrow> denom \<Rightarrow> int" where
  "amt cs d = (\<Sum>c\<leftarrow>cs. if coin_denom c = d then coin_amount c else 0)"

definition coins_wf :: "coins \<Rightarrow> bool" where
  "coins_wf cs \<longleftrightarrow> sorted_wrt (<) (map coin_denom cs) \<and> (\<forall>c\<in>set cs. 0 < coin_amount c)"

lemma amt_Nil [simp]: "amt [] d = 0"
  by (simp add: amt_def)

lemma amt_Cons: "amt (c # cs) d = (if coin_denom c = d then coin_amount c else 0) + amt cs d"
  by (simp add: amt_def)

lemma amt_append [simp]: "amt (xs @ ys) d = amt xs d + amt ys d"
  by (simp add: amt_def)

lemma amt_nonneg: "(\<And>c. c \<in> set cs \<Longrightarrow> 0 \<le> coin_amount c) \<Longrightarrow> 0 \<le> amt cs d"
  unfolding amt_def by (rule sum_list_nonneg) auto

lemma amt_notin: "d \<notin> coin_denom ` set cs \<Longrightarrow> amt cs d = 0"
  by (induction cs) (auto simp: amt_Cons)

lemma coins_wf_Nil [simp]: "coins_wf []"
  by (simp add: coins_wf_def)

lemma coins_wf_single [simp]: "coins_wf [c] \<longleftrightarrow> 0 < coin_amount c"
  by (simp add: coins_wf_def)

lemma coins_wf_Cons:
  "coins_wf (c # cs) \<longleftrightarrow>
    0 < coin_amount c \<and> (\<forall>c'\<in>set cs. coin_denom c < coin_denom c') \<and> coins_wf cs"
  by (auto simp: coins_wf_def)

lemma coins_wf_amt_nonneg: "coins_wf cs \<Longrightarrow> 0 \<le> amt cs d"
  by (intro amt_nonneg) (auto simp: coins_wf_def order_less_imp_le)

lemma coins_wf_amt_mem: "coins_wf cs \<Longrightarrow> c \<in> set cs \<Longrightarrow> amt cs (coin_denom c) = coin_amount c"
proof (induction cs)
  case (Cons b cs)
  from Cons.prems have "amt cs (coin_denom b) = 0"
    by (intro amt_notin) (auto simp: coins_wf_Cons)
  with Cons show ?case
    by (cases "c = b") (auto simp: amt_Cons coins_wf_Cons)
qed simp


text \<open>The same for sets of decimal coins.\<close>

definition damt :: "dec_coins \<Rightarrow> denom \<Rightarrow> dec" where
  "damt cs d = (\<Sum>c\<leftarrow>cs. if dc_denom c = d then dc_amount c else 0)"

definition dec_coins_wf :: "dec_coins \<Rightarrow> bool" where
  "dec_coins_wf cs \<longleftrightarrow> sorted_wrt (<) (map dc_denom cs) \<and> (\<forall>c\<in>set cs. 0 < dc_amount c)"

lemma damt_Nil [simp]: "damt [] d = 0"
  by (simp add: damt_def)

lemma damt_Cons: "damt (c # cs) d = (if dc_denom c = d then dc_amount c else 0) + damt cs d"
  by (simp add: damt_def)

lemma dec_coins_wf_Nil [simp]: "dec_coins_wf []"
  by (simp add: dec_coins_wf_def)

lemma dec_coins_wf_single [simp]: "dec_coins_wf [c] \<longleftrightarrow> 0 < dc_amount c"
  by (simp add: dec_coins_wf_def)

lemma dec_coins_wf_damt_nonneg: "dec_coins_wf cs \<Longrightarrow> 0 \<le> damt cs d"
  unfolding damt_def by (rule sum_list_nonneg) (auto simp: dec_coins_wf_def order_less_imp_le)


section \<open>The laws\<close>

definition chk :: "nat \<Rightarrow> int \<Rightarrow> int outcome" where
  "chk n x = (if bit_len x \<le> n then Ok x else Panic)"

definition nearest :: "int \<Rightarrow> int \<Rightarrow> int \<Rightarrow> bool" where
  "nearest q n d \<longleftrightarrow> 2 * \<bar>q * d - n\<bar> \<le> \<bar>d\<bar>"

definition within_unit :: "int \<Rightarrow> int \<Rightarrow> int \<Rightarrow> bool" where
  "within_unit q n d \<longleftrightarrow> \<bar>q * d - n\<bar> < \<bar>d\<bar>"

definition dec_laws :: "sdk \<Rightarrow> bool" where
  "dec_laws S \<longleftrightarrow> 255 \<le> dec_bits S \<and> 255 \<le> int_bits S
    \<and> (\<forall>a b. dec_add S a b = chk (dec_bits S) (a + b))
    \<and> (\<forall>a b. dec_sub S a b = chk (dec_bits S) (a - b))
    \<and> (\<forall>a b. \<exists>q. nearest q (a * b) one_dec \<and> dec_mul S a b = chk (dec_bits S) q)
    \<and> (\<forall>a. dec_quo S a 0 = Panic)
    \<and> (\<forall>a b. b \<noteq> 0 \<longrightarrow>
         (\<exists>q. within_unit q (a * one_dec) b \<and> dec_quo S a b = chk (dec_bits S) q))
    \<and> (\<forall>a n. dec_mul_int S a n = chk (dec_bits S) (a * n))
    \<and> (\<forall>a n. dec_quo_int S a n = (if n = 0 then Panic else Ok (a sdiv n)))
    \<and> (\<forall>a. dec_trunc S a = chk (int_bits S) (a sdiv one_dec))
    \<and> (\<forall>a. \<exists>q. nearest q a one_dec \<and> dec_round S a = chk (int_bits S) q)
    \<and> (\<forall>a. bit_len (- ((- a) div one_dec) * one_dec) \<le> dec_bits S \<longrightarrow> dec_ceil S a = Ok (- ((- a) div one_dec) * one_dec))
    \<and> (\<forall>a b. int_add S a b = chk (int_bits S) (a + b))
    \<and> (\<forall>a b. int_sub S a b = chk (int_bits S) (a - b))"

text \<open>
  \<open>NewCoin\<close> and \<open>NewDecCoinFromDec\<close> panic on an invalid denom or a negative amount.
  \<open>Coins.Add\<close> and \<open>Coins.Sub\<close> on valid coin sets: pointwise, with a valid result; \<open>Sub\<close> panics
  exactly when an amount would become negative, \<open>Add\<close> only when an amount does not fit.
\<close>

definition coin_laws :: "sdk \<Rightarrow> bool" where
  "coin_laws S \<longleftrightarrow>
    (\<forall>d a. new_coin S d a =
      (if denom_valid S d \<and> 0 \<le> a then Ok \<lparr>coin_denom = d, coin_amount = a\<rparr> else Panic))
    \<and> (\<forall>d a. new_dec_coin S d a =
      (if denom_valid S d \<and> 0 \<le> a then Ok \<lparr>dc_denom = d, dc_amount = a\<rparr> else Panic))
    \<and> (\<forall>a b. coins_wf a \<longrightarrow> coins_wf b \<longrightarrow>
      (if \<forall>d. bit_len (amt a d + amt b d) \<le> int_bits S
       then \<exists>c. coins_add S a b = Ok c \<and> coins_wf c \<and> (\<forall>d. amt c d = amt a d + amt b d)
       else coins_add S a b = Panic))
    \<and> (\<forall>a b. coins_wf a \<longrightarrow> coins_wf b \<longrightarrow>
      (if \<forall>d. amt b d \<le> amt a d
       then \<exists>c. coins_sub S a b = Ok c \<and> coins_wf c \<and> (\<forall>d. amt c d = amt a d - amt b d)
       else coins_sub S a b = Panic))"

text \<open>
  Decimal coin sets: \<open>Add\<close> of one more coin is pointwise and drops zeros, \<open>MulDec\<close> rounds each amount to the nearest unit,
  \<open>TruncateDecimal\<close> keeps the integer parts; each returns a valid set, or panics when an amount does
  not fit.
\<close>

definition dec_coin_laws :: "sdk \<Rightarrow> bool" where
  "dec_coin_laws S \<longleftrightarrow>
    (\<forall>a b. dec_coins_wf a \<longrightarrow> 0 \<le> dc_amount b \<longrightarrow> dec_coins_add S a [b] = Panic
      \<or> (\<exists>c. dec_coins_add S a [b] = Ok c \<and> dec_coins_wf c \<and> (\<forall>d. damt c d = damt a d + damt [b] d)))
    \<and> (\<forall>a x. dec_coins_wf a \<longrightarrow> 0 \<le> x \<longrightarrow> dec_coins_mul S a x = Panic
      \<or> (\<exists>c. dec_coins_mul S a x = Ok c \<and> dec_coins_wf c
           \<and> (\<forall>d. nearest (damt c d) (damt a d * x) one_dec)))
    \<and> (\<forall>a. dec_coins_wf a \<longrightarrow> dec_coins_trunc S a = Panic
      \<or> (\<exists>c. dec_coins_trunc S a = Ok c \<and> coins_wf c \<and> (\<forall>d. amt c d = damt a d div one_dec)))
    \<and> (\<forall>c. coins_is_zero S c \<longleftrightarrow> (\<forall>x\<in>set c. coin_amount x = 0))"

text \<open>
  Operations on single coins, as documented: \<open>NewCoins\<close> of one coin drops a zero coin and panics on
  an invalid one; adding and subtracting coins needs the same denom and panics on overflow or on a
  negative result; \<open>TruncateDecimal\<close> splits a valid decimal coin into its integer part and the
  rest, and panics on an invalid one. \<open>Sort\<close> permutes, \<open>IsValid\<close> decides validity, \<open>SafeSub\<close> subtracts pointwise and tells
  whether an amount became negative, \<open>IsAnyGTE\<close> looks for a denom of the second set that the first
  holds in at least that amount.
\<close>

definition coin_op_laws :: "sdk \<Rightarrow> bool" where
  "coin_op_laws S \<longleftrightarrow>
    (\<forall>c. new_coins S [c] = (if coin_amount c = 0 then Ok []
       else if denom_valid S (coin_denom c) \<and> 0 < coin_amount c then Ok [c] else Panic))
    \<and> (\<forall>cs. mset (coins_sort S cs) = mset cs \<and> sorted (map coin_denom (coins_sort S cs)))
    \<and> (\<forall>cs. coins_is_valid S cs \<longleftrightarrow> coins_wf cs \<and> (\<forall>c\<in>set cs. denom_valid S (coin_denom c)))
    \<and> (\<forall>a b. coins_wf a \<longrightarrow> coins_wf b \<longrightarrow>
         (\<exists>c. coins_safe_sub S a b = Ok (c, \<exists>d. amt a d < amt b d)
            \<and> (\<forall>d. amt c d = amt a d - amt b d)
            \<and> ((\<forall>d. amt b d \<le> amt a d) \<longrightarrow> coins_wf c)))
    \<and> (\<forall>a b. coins_wf a \<longrightarrow> coins_wf b \<longrightarrow>
         (coins_any_gte S a b \<longleftrightarrow> (\<exists>d. 0 < amt b d \<and> amt b d \<le> amt a d)))
    \<and> (\<forall>a b. coin_add S a b = (if coin_denom a = coin_denom b
         then andThen (int_add S (coin_amount a) (coin_amount b)) (\<lambda>s. Ok \<lparr>coin_denom = coin_denom a, coin_amount = s\<rparr>)
         else Panic))
    \<and> (\<forall>a b. dec_coin_add S a b = (if dc_denom a = dc_denom b
         then andThen (dec_add S (dc_amount a) (dc_amount b)) (\<lambda>s. Ok \<lparr>dc_denom = dc_denom a, dc_amount = s\<rparr>)
         else Panic))
    \<and> (\<forall>a b. dec_coin_sub S a b = (if dc_denom a = dc_denom b
         then andThen (dec_sub S (dc_amount a) (dc_amount b)) (\<lambda>s.
           if s < 0 then Panic else Ok \<lparr>dc_denom = dc_denom a, dc_amount = s\<rparr>)
         else Panic))
    \<and> (\<forall>a. dec_coin_trunc S a = (if denom_valid S (dc_denom a) \<and> 0 \<le> dc_amount a
         then andThen (dec_trunc S (dc_amount a)) (\<lambda>t.
           Ok (\<lparr>coin_denom = dc_denom a, coin_amount = t\<rparr>,
               \<lparr>dc_denom = dc_denom a, dc_amount = dc_amount a - t * one_dec\<rparr>))
         else Panic))"

text \<open>
  Look-up in a strictly sorted coin set, conversion of a valid coin set to decimals, adding
  nothing to a set of decimal coins, and the test for a set of zero decimal coins.
\<close>

definition coin_set_laws :: "sdk \<Rightarrow> bool" where
  "coin_set_laws S \<longleftrightarrow>
    (\<forall>cs d. sorted_wrt (<) (map coin_denom cs) \<longrightarrow> coins_amount_of S cs d = amt cs d)
    \<and> (\<forall>cs. coins_wf cs \<longrightarrow> dec_coins_of_coins S cs
         = map (\<lambda>c. \<lparr>dc_denom = coin_denom c, dc_amount = dec_of_int (coin_amount c)\<rparr>) cs)
    \<and> (\<forall>a. dec_coins_wf a \<longrightarrow> dec_coins_add S a [] = Ok a)
    \<and> (\<forall>a. dec_coins_is_zero S a \<longleftrightarrow> (\<forall>c\<in>set a. dc_amount c = 0))"

text \<open>
  Printing an address of the 20 bytes the application accepts and reading it back; reading fails
  with an error and accepts no other length.
\<close>

definition addr_laws :: "sdk \<Rightarrow> bool" where
  "addr_laws S \<longleftrightarrow>
    (\<forall>a. length a = 20 \<longrightarrow> acc_of_bech32 S (acc_bech32 S a) = Ok a)
    \<and> (\<forall>a. length a = 20 \<longrightarrow> val_of_bech32 S (val_bech32 S a) = Ok a)
    \<and> (\<forall>s. acc_of_bech32 S s \<noteq> Panic) \<and> (\<forall>s. val_of_bech32 S s \<noteq> Panic)
    \<and> (\<forall>s a. acc_of_bech32 S s = Ok a \<longrightarrow> length a = 20)
    \<and> (\<forall>s a. val_of_bech32 S s = Ok a \<longrightarrow> length a = 20)"

text \<open>
  \<open>float_sqrt\<close> stands for printing a decimal, taking the \<open>float64\<close> square root and reading it back
  with six decimals; all that is known of it is that it is not negative.
\<close>

definition sqrt_law :: "sdk \<Rightarrow> bool" where
  "sqrt_law S \<longleftrightarrow> (\<forall>a. 0 \<le> float_sqrt S a)"

text \<open>The laws one at a time, in the form in which proofs use them.\<close>

lemma chk_Ok_iff [simp]: "chk n x = Ok y \<longleftrightarrow> y = x \<and> \<bar>x\<bar> < 2 ^ n"
  by (auto simp: chk_def bit_len_le_iff)

lemma chk_eval [code]: "chk n x = (if \<bar>x\<bar> < 2 ^ n then Ok x else Panic)"
  by (simp add: chk_def bit_len_le_iff)

lemma chk_not_Err [simp]: "chk n x \<noteq> Err e"
  by (simp add: chk_def)

lemma chk_fits: "\<bar>x\<bar> < 2 ^ 255 \<Longrightarrow> 255 \<le> n \<Longrightarrow> chk n x = Ok x"
proof -
  assume "\<bar>x\<bar> < 2 ^ 255" "255 \<le> n"
  moreover from this have "(2::int) ^ 255 \<le> 2 ^ n" by (intro power_increasing) auto
  ultimately show ?thesis by simp
qed

lemma dec_bitsD: "dec_laws S \<Longrightarrow> 255 \<le> dec_bits S \<and> 255 \<le> int_bits S"
  by (simp add: dec_laws_def)

lemma dec_addI: "dec_laws S \<Longrightarrow> dec_add S a b = chk (dec_bits S) (a + b)"
  by (simp add: dec_laws_def)

lemma dec_subI: "dec_laws S \<Longrightarrow> dec_sub S a b = chk (dec_bits S) (a - b)"
  by (simp add: dec_laws_def)

lemma dec_mul_intI: "dec_laws S \<Longrightarrow> dec_mul_int S a n = chk (dec_bits S) (a * n)"
  by (simp add: dec_laws_def)

lemma dec_quo_intI: "dec_laws S \<Longrightarrow> dec_quo_int S a n = (if n = 0 then Panic else Ok (a sdiv n))"
  by (simp add: dec_laws_def)

lemma dec_truncI: "dec_laws S \<Longrightarrow> dec_trunc S a = chk (int_bits S) (a sdiv one_dec)"
  by (simp add: dec_laws_def)

lemma int_addI: "dec_laws S \<Longrightarrow> int_add S a b = chk (int_bits S) (a + b)"
  by (simp add: dec_laws_def)

lemma int_subI: "dec_laws S \<Longrightarrow> int_sub S a b = chk (int_bits S) (a - b)"
  by (simp add: dec_laws_def)

lemmas dec_exact = dec_addI dec_subI dec_mul_intI dec_quo_intI dec_truncI int_addI int_subI

lemma dec_mul_law:
  "dec_laws S \<Longrightarrow> \<forall>a b. \<exists>q. nearest q (a * b) one_dec \<and> dec_mul S a b = chk (dec_bits S) q"
  unfolding dec_laws_def by (elim conjE)

lemma dec_round_law:
  "dec_laws S \<Longrightarrow> \<forall>a. \<exists>q. nearest q a one_dec \<and> dec_round S a = chk (int_bits S) q"
  unfolding dec_laws_def by (elim conjE)

lemma dec_quo_law:
  "dec_laws S \<Longrightarrow> \<forall>a b. b \<noteq> 0 \<longrightarrow>
    (\<exists>q. within_unit q (a * one_dec) b \<and> dec_quo S a b = chk (dec_bits S) q)"
  unfolding dec_laws_def by (elim conjE)

lemma dec_mulE:
  assumes "dec_laws S" obtains q where "nearest q (a * b) one_dec" "dec_mul S a b = chk (dec_bits S) q"
  using dec_mul_law [OF assms] by blast

lemma dec_roundE:
  assumes "dec_laws S" obtains q where "nearest q a one_dec" "dec_round S a = chk (int_bits S) q"
  using dec_round_law [OF assms] by blast

lemma dec_quoE:
  assumes "dec_laws S" "b \<noteq> 0"
  obtains q where "within_unit q (a * one_dec) b" "dec_quo S a b = chk (dec_bits S) q"
  using dec_quo_law [OF assms(1)] assms(2) by blast

lemma dec_quo_zero: "dec_laws S \<Longrightarrow> dec_quo S a 0 = Panic"
  by (simp add: dec_laws_def)

lemma dec_mulD: "dec_laws S \<Longrightarrow> dec_mul S a b = Ok q \<Longrightarrow> nearest q (a * b) one_dec"
  by (erule dec_mulE [of S a b]) auto

lemma dec_roundD: "dec_laws S \<Longrightarrow> dec_round S a = Ok q \<Longrightarrow> nearest q a one_dec"
  by (erule dec_roundE [of S a]) auto

lemma dec_quoD:
  assumes "dec_laws S" "dec_quo S a b = Ok q"
  shows "b \<noteq> 0 \<and> within_unit q (a * one_dec) b"
proof (cases "b = 0")
  case True
  with assms show ?thesis by (simp add: dec_quo_zero)
next
  case False
  obtain r where "within_unit r (a * one_dec) b" "dec_quo S a b = chk (dec_bits S) r"
    by (rule dec_quoE [OF assms(1) False])
  with assms False show ?thesis by simp
qed

lemma dec_quo_no_Err: "dec_laws S \<Longrightarrow> dec_quo S a b \<noteq> Err e"
  by (cases "b = 0") (auto simp: dec_quo_zero elim!: dec_quoE [of S b a])

lemma dec_mul_no_Err: "dec_laws S \<Longrightarrow> dec_mul S a b \<noteq> Err e"
  by (erule dec_mulE [of S a b]) simp

lemma dec_round_no_Err: "dec_laws S \<Longrightarrow> dec_round S a \<noteq> Err e"
  by (erule dec_roundE [of S a]) simp

lemmas dec_no_Err = dec_quo_no_Err dec_mul_no_Err dec_round_no_Err

text \<open>Rounding to the nearest unit keeps signs and order.\<close>

lemma nearest_nonneg: "nearest q n d \<Longrightarrow> 0 < d \<Longrightarrow> 0 \<le> n \<Longrightarrow> 0 \<le> q"
proof (rule ccontr)
  assume n: "nearest q n d" "0 < d" "0 \<le> n" and "\<not> 0 \<le> q"
  then have "q * d \<le> - 1 * d" by (intro mult_right_mono) auto
  with n show False by (simp add: nearest_def abs_if split: if_splits)
qed

lemma nearest_uminus: "nearest (- q) (- n) d = nearest q n d"
  by (simp add: nearest_def abs_if)

lemma nearest_le: "nearest q n d \<Longrightarrow> 0 < d \<Longrightarrow> n \<le> m * d \<Longrightarrow> q \<le> m"
  using nearest_nonneg [of "m - q" "m * d - n" d]
  by (simp add: nearest_def algebra_simps abs_minus_commute)

lemma nearest_ge: "nearest q n d \<Longrightarrow> 0 < d \<Longrightarrow> m * d \<le> n \<Longrightarrow> m \<le> q"
  using nearest_le [of "- q" "- n" d "- m"] by (simp add: nearest_uminus)

lemma nearest_exact: "nearest q (m * d) d \<Longrightarrow> 0 < d \<Longrightarrow> q = m"
  using nearest_le [of q "m * d" d m] nearest_ge [of q "m * d" d m] by simp

lemma within_unit_nonneg: "within_unit q n d \<Longrightarrow> 0 < d \<Longrightarrow> 0 \<le> n \<Longrightarrow> 0 \<le> q"
proof (rule ccontr)
  assume n: "within_unit q n d" "0 < d" "0 \<le> n" and "\<not> 0 \<le> q"
  then have "q * d \<le> - 1 * d" by (intro mult_right_mono) auto
  with n show False by (simp add: within_unit_def abs_if split: if_splits)
qed


lemma dec_mul_exact:
  assumes S: "dec_laws S" and "a * b = q * one_dec" "\<bar>q\<bar> < 2 ^ 255"
  shows "dec_mul S a b = Ok q"
proof -
  obtain r where "nearest r (a * b) one_dec" "dec_mul S a b = chk (dec_bits S) r"
    by (rule dec_mulE [OF S])
  with assms nearest_exact [of r q one_dec] dec_bitsD [OF S] show ?thesis by (simp add: chk_fits)
qed

lemma dec_round_exact:
  assumes S: "dec_laws S" and "a = q * one_dec" "\<bar>q\<bar> < 2 ^ 255"
  shows "dec_round S a = Ok q"
proof -
  obtain r where "nearest r a one_dec" "dec_round S a = chk (int_bits S) r"
    by (rule dec_roundE [OF S])
  with assms nearest_exact [of r q one_dec] dec_bitsD [OF S] show ?thesis by (simp add: chk_fits)
qed

text \<open>The coin-set laws one at a time.\<close>

lemma new_coinI:
  "coin_laws S \<Longrightarrow> new_coin S d a =
    (if denom_valid S d \<and> 0 \<le> a then Ok \<lparr>coin_denom = d, coin_amount = a\<rparr> else Panic)"
  by (simp add: coin_laws_def)

lemma new_dec_coinI:
  "coin_laws S \<Longrightarrow> new_dec_coin S d a =
    (if denom_valid S d \<and> 0 \<le> a then Ok \<lparr>dc_denom = d, dc_amount = a\<rparr> else Panic)"
  by (simp add: coin_laws_def)

lemma coins_sub_law:
  "coin_laws S \<Longrightarrow> \<forall>a b. coins_wf a \<longrightarrow> coins_wf b \<longrightarrow>
      (if \<forall>d. amt b d \<le> amt a d
       then \<exists>c. coins_sub S a b = Ok c \<and> coins_wf c \<and> (\<forall>d. amt c d = amt a d - amt b d)
       else coins_sub S a b = Panic)"
  unfolding coin_laws_def by (elim conjE)

lemma coins_add_law:
  "coin_laws S \<Longrightarrow> \<forall>a b. coins_wf a \<longrightarrow> coins_wf b \<longrightarrow>
      (if \<forall>d. bit_len (amt a d + amt b d) \<le> int_bits S
       then \<exists>c. coins_add S a b = Ok c \<and> coins_wf c \<and> (\<forall>d. amt c d = amt a d + amt b d)
       else coins_add S a b = Panic)"
  unfolding coin_laws_def by (elim conjE)

lemma coins_sub_Ok:
  assumes "coin_laws S" "coins_wf a" "coins_wf b" "\<And>d. amt b d \<le> amt a d"
  obtains c where "coins_sub S a b = Ok c" "coins_wf c" "\<And>d. amt c d = amt a d - amt b d"
proof -
  have "if \<forall>d. amt b d \<le> amt a d
       then \<exists>c. coins_sub S a b = Ok c \<and> coins_wf c \<and> (\<forall>d. amt c d = amt a d - amt b d)
       else coins_sub S a b = Panic"
    using coins_sub_law [OF assms(1)] assms(2,3) by blast
  with assms(4) show thesis using that by auto
qed

lemma coins_sub_Panic:
  assumes "coin_laws S" "coins_wf a" "coins_wf b" "amt a d < amt b d"
  shows "coins_sub S a b = Panic"
proof -
  have "if \<forall>d. amt b d \<le> amt a d
       then \<exists>c. coins_sub S a b = Ok c \<and> coins_wf c \<and> (\<forall>d. amt c d = amt a d - amt b d)
       else coins_sub S a b = Panic"
    using coins_sub_law [OF assms(1)] assms(2,3) by blast
  moreover have "\<not> (\<forall>d. amt b d \<le> amt a d)" using assms(4) by (meson not_le)
  ultimately show ?thesis by simp
qed

lemma coins_addD:
  assumes "coin_laws S" "coins_wf a" "coins_wf b" "coins_add S a b = Ok c"
  shows "coins_wf c" "amt c d = amt a d + amt b d"
proof -
  have "if \<forall>d. bit_len (amt a d + amt b d) \<le> int_bits S
       then \<exists>c. coins_add S a b = Ok c \<and> coins_wf c \<and> (\<forall>d. amt c d = amt a d + amt b d)
       else coins_add S a b = Panic"
    using coins_add_law [OF assms(1)] assms(2,3) by blast
  with assms(4) show "coins_wf c" "amt c d = amt a d + amt b d" by (auto split: if_splits)
qed

text \<open>The laws of single coins one at a time.\<close>

lemma new_coinsI:
  "coin_op_laws S \<Longrightarrow> new_coins S [c] = (if coin_amount c = 0 then Ok []
    else if denom_valid S (coin_denom c) \<and> 0 < coin_amount c then Ok [c] else Panic)"
  by (simp add: coin_op_laws_def)

lemma coin_addI:
  "coin_op_laws S \<Longrightarrow> coin_add S a b = (if coin_denom a = coin_denom b
    then andThen (int_add S (coin_amount a) (coin_amount b)) (\<lambda>s. Ok \<lparr>coin_denom = coin_denom a, coin_amount = s\<rparr>)
    else Panic)"
  by (simp add: coin_op_laws_def)

lemma dec_coin_addI:
  "coin_op_laws S \<Longrightarrow> dec_coin_add S a b = (if dc_denom a = dc_denom b
    then andThen (dec_add S (dc_amount a) (dc_amount b)) (\<lambda>s. Ok \<lparr>dc_denom = dc_denom a, dc_amount = s\<rparr>)
    else Panic)"
  by (simp add: coin_op_laws_def)

lemma dec_coin_subI:
  "coin_op_laws S \<Longrightarrow> dec_coin_sub S a b = (if dc_denom a = dc_denom b
    then andThen (dec_sub S (dc_amount a) (dc_amount b)) (\<lambda>s.
      if s < 0 then Panic else Ok \<lparr>dc_denom = dc_denom a, dc_amount = s\<rparr>)
    else Panic)"
  by (simp add: coin_op_laws_def)

lemma dec_coin_truncI:
  "coin_op_laws S \<Longrightarrow> dec_coin_trunc S a = (if denom_valid S (dc_denom a) \<and> 0 \<le> dc_amount a
    then andThen (dec_trunc S (dc_amount a)) (\<lambda>t.
      Ok (\<lparr>coin_denom = dc_denom a, coin_amount = t\<rparr>,
          \<lparr>dc_denom = dc_denom a, dc_amount = dc_amount a - t * one_dec\<rparr>))
    else Panic)"
  by (simp add: coin_op_laws_def)

lemma coins_is_validI:
  "coin_op_laws S \<Longrightarrow> coins_is_valid S cs \<longleftrightarrow> coins_wf cs \<and> (\<forall>c\<in>set cs. denom_valid S (coin_denom c))"
  by (simp add: coin_op_laws_def)

lemmas coin_ops = new_coinsI coin_addI dec_coin_addI dec_coin_subI dec_coin_truncI coins_is_validI

lemma coins_safe_subD:
  assumes "coin_op_laws S" "coins_wf a" "coins_wf b"
  obtains c where "coins_safe_sub S a b = Ok (c, \<exists>d. amt a d < amt b d)" "\<And>d. amt c d = amt a d - amt b d"
    "(\<And>d. amt b d \<le> amt a d) \<Longrightarrow> coins_wf c"
proof -
  have "\<forall>a b. coins_wf a \<longrightarrow> coins_wf b \<longrightarrow>
         (\<exists>c. coins_safe_sub S a b = Ok (c, \<exists>d. amt a d < amt b d)
            \<and> (\<forall>d. amt c d = amt a d - amt b d)
            \<and> ((\<forall>d. amt b d \<le> amt a d) \<longrightarrow> coins_wf c))"
    using assms(1) unfolding coin_op_laws_def by (elim conjE)
  with assms(2,3) that show thesis by metis
qed

lemma coins_any_gteD:
  assumes "coin_op_laws S" "coins_wf a" "coins_wf b"
  shows "coins_any_gte S a b \<longleftrightarrow> (\<exists>d. 0 < amt b d \<and> amt b d \<le> amt a d)"
proof -
  have "\<forall>a b. coins_wf a \<longrightarrow> coins_wf b \<longrightarrow>
         (coins_any_gte S a b \<longleftrightarrow> (\<exists>d. 0 < amt b d \<and> amt b d \<le> amt a d))"
    using assms(1) unfolding coin_op_laws_def by (elim conjE)
  with assms(2,3) show ?thesis by blast
qed

lemma dec_coins_addD:
  assumes "dec_coin_laws S" "dec_coins_wf a" "0 \<le> dc_amount b" "dec_coins_add S a [b] = Ok c"
  shows "dec_coins_wf c \<and> (\<forall>d. damt c d = damt a d + damt [b] d)"
proof -
  have "\<forall>a b. dec_coins_wf a \<longrightarrow> 0 \<le> dc_amount b \<longrightarrow> dec_coins_add S a [b] = Panic
      \<or> (\<exists>c. dec_coins_add S a [b] = Ok c \<and> dec_coins_wf c \<and> (\<forall>d. damt c d = damt a d + damt [b] d))"
    using assms(1) unfolding dec_coin_laws_def by (elim conjE)
  with assms(2-4) show ?thesis by fastforce
qed

end
