(* ===== verification/SdkRef.thy ===== *)
theory SdkRef
  imports Sdk
begin

text \<open>
  \<open>sdk_ref\<close>: 18-digit fixed-point decimals with banker's rounding and coin sets as sorted lists. It
  satisfies the laws of the value library, so theorems that assume them are not empty, and it
  computes, so witnesses can be evaluated on it.
\<close>

section \<open>Decimals\<close>

definition round_half_even :: "int \<Rightarrow> int \<Rightarrow> int" where
  "round_half_even n d =
    (let q = \<bar>n\<bar> div d; r = \<bar>n\<bar> mod d;
         m = (if 2 * r < d \<or> 2 * r = d \<and> even q then q else q + 1)
     in if n < 0 then - m else m)"

lemma nearest_round_half_even:
  assumes "0 < d" shows "nearest (round_half_even n d) n d"
proof -
  define q r where "q = \<bar>n\<bar> div d" and "r = \<bar>n\<bar> mod d"
  have n: "\<bar>n\<bar> = q * d + r" and r: "0 \<le> r" "r < d"
    using assms by (simp_all add: q_def r_def)
  define m where "m = (if 2 * r < d \<or> 2 * r = d \<and> even q then q else q + 1)"
  have "nearest m \<bar>n\<bar> d"
    using r by (auto simp: m_def n nearest_def algebra_simps split: if_splits)
  moreover have "round_half_even n d = (if n < 0 then - m else m)"
    by (simp add: round_half_even_def m_def q_def r_def Let_def)
  ultimately show ?thesis
    using nearest_uminus [of m "\<bar>n\<bar>" d] by (simp add: abs_if split: if_splits)
qed

lemma sdiv_error: "b \<noteq> 0 \<Longrightarrow> \<bar>((n::int) sdiv b) * b - n\<bar> < \<bar>b\<bar>"
proof -
  assume b: "b \<noteq> 0"
  have eq: "(n sdiv b) * b = sgn n * (\<bar>n\<bar> div \<bar>b\<bar> * \<bar>b\<bar>)"
    by (simp add: signed_divide_int_def abs_sgn mult.commute mult.left_commute)
  have "n = sgn n * \<bar>n\<bar>" by (simp add: sgn_mult_abs)
  then have "(n sdiv b) * b - n = sgn n * (\<bar>n\<bar> div \<bar>b\<bar> * \<bar>b\<bar> - \<bar>n\<bar>)"
    using eq by (simp add: right_diff_distrib)
  also have "\<bar>n\<bar> div \<bar>b\<bar> * \<bar>b\<bar> - \<bar>n\<bar> = - (\<bar>n\<bar> mod \<bar>b\<bar>)"
    by (simp add: minus_mod_eq_div_mult [symmetric])
  finally have "\<bar>(n sdiv b) * b - n\<bar> \<le> \<bar>n\<bar> mod \<bar>b\<bar>"
    using b by (simp add: abs_mult sgn_if)
  also have "\<bar>n\<bar> mod \<bar>b\<bar> < \<bar>b\<bar>" using b by simp
  finally show ?thesis .
qed

definition quo_ref :: "dec \<Rightarrow> dec \<Rightarrow> dec outcome" where
  "quo_ref a b = (if b = 0 then Panic
     else chk 315 (round_half_even ((a * one_dec * one_dec) sdiv b) one_dec))"

lemma within_unit_quo:
  assumes "b \<noteq> 0"
  shows "within_unit (round_half_even ((a * one_dec * one_dec) sdiv b) one_dec) (a * one_dec) b"
proof -
  define t where "t = (a * one_dec * one_dec) sdiv b"
  define q where "q = round_half_even t one_dec"
  have t: "\<bar>t * b - a * one_dec * one_dec\<bar> < \<bar>b\<bar>"
    using sdiv_error [OF assms] by (simp add: t_def)
  have q: "2 * \<bar>q * one_dec - t\<bar> \<le> one_dec"
    using nearest_round_half_even [of one_dec t] by (simp add: q_def nearest_def)
  have "2 * \<bar>(q * one_dec - t) * b\<bar> \<le> one_dec * \<bar>b\<bar>"
    using mult_right_mono [OF q, of "\<bar>b\<bar>"] by (simp add: abs_mult)
  moreover have "2 * \<bar>b\<bar> \<le> one_dec * \<bar>b\<bar>"
    by (intro mult_right_mono) (simp_all add: one_dec_def)
  moreover have "(q * b - a * one_dec) * one_dec = (q * one_dec - t) * b + (t * b - a * one_dec * one_dec)"
    by (simp add: algebra_simps)
  ultimately have "\<bar>(q * b - a * one_dec) * one_dec\<bar> < one_dec * \<bar>b\<bar>"
    using t by linarith
  then have "\<bar>q * b - a * one_dec\<bar> < \<bar>b\<bar>" by (simp add: abs_mult mult.commute)
  then show ?thesis by (simp add: within_unit_def q_def t_def)
qed


section \<open>Coin sets\<close>

fun coins_ins :: "denom \<Rightarrow> int \<Rightarrow> coins \<Rightarrow> coins" where
  "coins_ins d a [] = (if a = 0 then [] else [\<lparr>coin_denom = d, coin_amount = a\<rparr>])"
| "coins_ins d a (c # cs) =
    (if d < coin_denom c then
       (if a = 0 then c # cs else \<lparr>coin_denom = d, coin_amount = a\<rparr> # c # cs)
     else if d = coin_denom c then
       (if coin_amount c + a = 0 then cs else \<lparr>coin_denom = d, coin_amount = coin_amount c + a\<rparr> # cs)
     else c # coins_ins d a cs)"

definition coins_sum :: "coins \<Rightarrow> coins \<Rightarrow> coins" where
  "coins_sum a b = fold (\<lambda>c. coins_ins (coin_denom c) (coin_amount c)) b a"

definition coins_sorted :: "coins \<Rightarrow> bool" where
  "coins_sorted cs \<longleftrightarrow> sorted_wrt (<) (map coin_denom cs) \<and> (\<forall>c\<in>set cs. coin_amount c \<noteq> 0)"

lemma amt_coins_ins: "amt (coins_ins d a cs) e = amt cs e + (if d = e then a else 0)"
  by (induction cs) (auto simp: amt_Cons)

lemma denoms_coins_ins: "coin_denom ` set (coins_ins d a cs) \<subseteq> insert d (coin_denom ` set cs)"
  by (induction cs) auto

lemma coins_sorted_ins: "coins_sorted cs \<Longrightarrow> coins_sorted (coins_ins d a cs)"
proof (induction cs)
  case (Cons c cs)
  then have IH: "coins_sorted (coins_ins d a cs)" by (auto simp: coins_sorted_def)
  have "coin_denom c < coin_denom x"
    if "coin_denom c < d" "x \<in> set (coins_ins d a cs)" for x
    using denoms_coins_ins [of d a cs] that Cons.prems by (auto simp: coins_sorted_def)
  with IH Cons.prems show ?case by (auto simp: coins_sorted_def)
qed (auto simp: coins_sorted_def)

lemma coins_sum_Cons: "coins_sum a (c # b) = coins_sum (coins_ins (coin_denom c) (coin_amount c) a) b"
  by (simp add: coins_sum_def)

lemma coins_sum_props:
  "coins_sorted a \<Longrightarrow> coins_sorted (coins_sum a b) \<and> (\<forall>d. amt (coins_sum a b) d = amt a d + amt b d)"
proof (induction b arbitrary: a)
  case Nil
  then show ?case by (simp add: coins_sum_def)
next
  case (Cons c b)
  then show ?case by (auto simp: coins_sum_Cons coins_sorted_ins amt_coins_ins amt_Cons)
qed

lemma coins_sorted_amt_mem:
  "coins_sorted cs \<Longrightarrow> c \<in> set cs \<Longrightarrow> amt cs (coin_denom c) = coin_amount c"
proof (induction cs)
  case (Cons b cs)
  from Cons.prems have "amt cs (coin_denom b) = 0"
    by (intro amt_notin) (auto simp: coins_sorted_def)
  with Cons show ?case
    by (cases "c = b") (auto simp: amt_Cons coins_sorted_def)
qed simp

lemma coins_wf_iff: "coins_wf cs \<longleftrightarrow> coins_sorted cs \<and> (\<forall>d. 0 \<le> amt cs d)"
proof
  assume wf: "coins_wf cs"
  then show "coins_sorted cs \<and> (\<forall>d. 0 \<le> amt cs d)"
    by (auto simp: coins_sorted_def coins_wf_amt_nonneg) (auto simp: coins_wf_def)
next
  assume r: "coins_sorted cs \<and> (\<forall>d. 0 \<le> amt cs d)"
  have "0 < coin_amount c" if "c \<in> set cs" for c
  proof -
    have "0 \<le> coin_amount c" using r coins_sorted_amt_mem [of cs c] that by metis
    moreover have "coin_amount c \<noteq> 0" using r that by (simp add: coins_sorted_def)
    ultimately show ?thesis by simp
  qed
  with r show "coins_wf cs" by (auto simp: coins_wf_def coins_sorted_def)
qed

definition neg_coin :: "coin \<Rightarrow> coin" where
  "neg_coin c = c\<lparr>coin_amount := - coin_amount c\<rparr>"

lemma amt_neg: "amt (map neg_coin cs) d = - amt cs d"
  by (induction cs) (auto simp: amt_Cons neg_coin_def)

definition coins_add_ref :: "coins \<Rightarrow> coins \<Rightarrow> coins outcome" where
  "coins_add_ref a b =
    (let c = coins_sum a b in if list_all (\<lambda>x. bit_len (coin_amount x) \<le> 255) c then Ok c else Panic)"

definition coins_sub_ref :: "coins \<Rightarrow> coins \<Rightarrow> coins outcome" where
  "coins_sub_ref a b =
    (let c = coins_sum a (map neg_coin b) in if list_all (\<lambda>x. 0 < coin_amount x) c then Ok c else Panic)"

lemma all_amt_iff:
  assumes "coins_sorted c" "P 0"
  shows "list_all (\<lambda>x. P (coin_amount x)) c \<longleftrightarrow> (\<forall>d. P (amt c d))"
proof
  assume l: "list_all (\<lambda>x. P (coin_amount x)) c"
  show "\<forall>d. P (amt c d)"
  proof
    fix d show "P (amt c d)"
      using l assms amt_notin [of d c] coins_sorted_amt_mem [OF assms(1)]
      by (cases "d \<in> coin_denom ` set c") (auto simp: list_all_iff)
  qed
next
  assume "\<forall>d. P (amt c d)"
  then show "list_all (\<lambda>x. P (coin_amount x)) c"
    using coins_sorted_amt_mem [OF assms(1)] by (metis list_all_iff)
qed

text \<open>Decimal coin sets as coin sets whose amounts count units.\<close>

definition units :: "dec_coins \<Rightarrow> coins" where
  "units = map (\<lambda>c. \<lparr>coin_denom = dc_denom c, coin_amount = dc_amount c\<rparr>)"

definition of_units :: "coins \<Rightarrow> dec_coins" where
  "of_units = map (\<lambda>c. \<lparr>dc_denom = coin_denom c, dc_amount = coin_amount c\<rparr>)"

lemma units_of_units [simp]: "units (of_units cs) = cs"
  by (induction cs) (auto simp: units_def of_units_def)

lemma damt_units: "damt cs d = amt (units cs) d"
  by (induction cs) (auto simp: damt_Cons amt_Cons units_def)

lemma wf_units: "dec_coins_wf cs = coins_wf (units cs)"
  by (induction cs) (auto simp: dec_coins_wf_def coins_wf_def units_def)

definition map_amounts :: "(int \<Rightarrow> int) \<Rightarrow> coins \<Rightarrow> coins" where
  "map_amounts f cs = filter (\<lambda>c. coin_amount c \<noteq> 0) (map (\<lambda>c. c\<lparr>coin_amount := f (coin_amount c)\<rparr>) cs)"

lemma denoms_map_amounts: "coin_denom ` set (map_amounts f cs) \<subseteq> coin_denom ` set cs"
  by (auto simp: map_amounts_def)

lemma map_amounts_wf:
  assumes "coins_wf cs" "f 0 = 0" "\<And>x. 0 < x \<Longrightarrow> 0 \<le> f x"
  shows "coins_wf (map_amounts f cs) \<and> (\<forall>d. amt (map_amounts f cs) d = f (amt cs d))"
  using assms(1)
proof (induction cs)
  case Nil
  then show ?case by (simp add: map_amounts_def assms(2))
next
  case (Cons c cs)
  then have cs: "coins_wf cs" "0 < coin_amount c" "\<forall>c'\<in>set cs. coin_denom c < coin_denom c'"
    by (auto simp: coins_wf_Cons)
  have IH: "coins_wf (map_amounts f cs)" "\<And>d. amt (map_amounts f cs) d = f (amt cs d)"
    using Cons.IH [OF cs(1)] by auto
  have z: "amt cs (coin_denom c) = 0" using cs(3) by (intro amt_notin) auto
  have step: "map_amounts f (c # cs) = (if f (coin_amount c) = 0 then map_amounts f cs
      else c\<lparr>coin_amount := f (coin_amount c)\<rparr> # map_amounts f cs)"
    by (simp add: map_amounts_def)
  have "\<forall>c'\<in>set (map_amounts f cs). coin_denom c < coin_denom c'"
    using denoms_map_amounts [of f cs] cs(3) by auto
  with IH(1) cs(2) assms(3) [OF cs(2)] have "coins_wf (map_amounts f (c # cs))"
    by (auto simp: step coins_wf_Cons)
  moreover have "amt (map_amounts f (c # cs)) d = f (amt (c # cs) d)" for d
    using IH(2) [of d] z assms(2) by (auto simp: step amt_Cons)
  ultimately show ?case by blast
qed

definition dec_coins_add_ref :: "dec_coins \<Rightarrow> dec_coins \<Rightarrow> dec_coins outcome" where
  "dec_coins_add_ref a b = Ok (of_units (coins_sum (units a) (units b)))"

definition dec_coins_mul_ref :: "dec_coins \<Rightarrow> dec \<Rightarrow> dec_coins outcome" where
  "dec_coins_mul_ref a x = Ok (of_units (map_amounts (\<lambda>y. round_half_even (y * x) one_dec) (units a)))"

definition dec_coins_trunc_ref :: "dec_coins \<Rightarrow> coins outcome" where
  "dec_coins_trunc_ref a = Ok (map_amounts (\<lambda>y. y div one_dec) (units a))"


section \<open>The instance\<close>

fun strip_prefix :: "string \<Rightarrow> string \<Rightarrow> string outcome" where
  "strip_prefix [] s = (if length s = 20 then Ok s else Err (ErrExternal ''address''))"
| "strip_prefix (c # p) (d # s) = (if c = d then strip_prefix p s else Err (ErrExternal ''prefix''))"
| "strip_prefix (c # p) [] = Err (ErrExternal ''prefix'')"

lemma strip_prefix_append: "length a = 20 \<Longrightarrow> strip_prefix p (p @ a) = Ok a"
  by (induction p) auto

lemma strip_prefix_no_Panic: "strip_prefix p s \<noteq> Panic"
  by (induction p s rule: strip_prefix.induct) auto

definition new_coins_ref :: "coins \<Rightarrow> coins outcome" where
  "new_coins_ref cs =
    (let c = coins_sum [] cs in
     if list_all (\<lambda>x. 0 < coin_amount x \<and> 3 \<le> length (coin_denom x) \<and> length (coin_denom x) \<le> 128) c then Ok c else Panic)"

definition sdk_ref :: sdk where
  "sdk_ref = \<lparr>
     dec_bits = 315,
     int_bits = 255,
     dec_add = (\<lambda>a b. chk 315 (a + b)),
     dec_sub = (\<lambda>a b. chk 315 (a - b)),
     dec_mul = (\<lambda>a b. chk 315 (round_half_even (a * b) one_dec)),
     dec_quo = quo_ref,
     dec_mul_int = (\<lambda>a n. chk 315 (a * n)),
     dec_quo_int = (\<lambda>a n. if n = 0 then Panic else Ok (a sdiv n)),
     dec_trunc = (\<lambda>a. chk 255 (a sdiv one_dec)),
     dec_round = (\<lambda>a. chk 255 (round_half_even a one_dec)),
     dec_ceil = (\<lambda>a. chk 315 (- ((- a) div one_dec) * one_dec)),
     int_add = (\<lambda>a b. chk 255 (a + b)),
     int_sub = (\<lambda>a b. chk 255 (a - b)),
     denom_valid = (\<lambda>d. 3 \<le> length d \<and> length d \<le> 128),
     new_coin = (\<lambda>d a. if 3 \<le> length d \<and> length d \<le> 128 \<and> 0 \<le> a
       then Ok \<lparr>coin_denom = d, coin_amount = a\<rparr> else Panic),
     new_dec_coin = (\<lambda>d a. if 3 \<le> length d \<and> length d \<le> 128 \<and> 0 \<le> a
       then Ok \<lparr>dc_denom = d, dc_amount = a\<rparr> else Panic),
     coins_add = coins_add_ref,
     coins_sub = coins_sub_ref,
     dec_coins_add = dec_coins_add_ref,
     dec_coins_mul = dec_coins_mul_ref,
     dec_coins_trunc = dec_coins_trunc_ref,
     dec_coins_of_coins = (\<lambda>cs. of_units (map (\<lambda>c. c\<lparr>coin_amount := dec_of_int (coin_amount c)\<rparr>) cs)),
     coins_is_zero = list_all (\<lambda>c. coin_amount c = 0),
     coins_amount_of = amt,
     dec_coins_is_zero = list_all (\<lambda>c. dc_amount c = 0),
     new_coins = new_coins_ref,
     coins_sort = sort_key coin_denom,
     coins_is_valid = (\<lambda>cs. sorted_wrt (<) (map coin_denom cs)
       \<and> list_all (\<lambda>c. 0 < coin_amount c \<and> 3 \<le> length (coin_denom c) \<and> length (coin_denom c) \<le> 128) cs),
     coins_safe_sub = (\<lambda>a b. let c = coins_sum a (map neg_coin b) in Ok (c, list_ex (\<lambda>x. coin_amount x < 0) c)),
     coins_any_gte = (\<lambda>a b. list_ex (\<lambda>x. 0 < coin_amount x \<and> coin_amount x \<le> amt a (coin_denom x)) b),
     coin_add = (\<lambda>a b. if coin_denom a = coin_denom b
       then andThen (chk 255 (coin_amount a + coin_amount b)) (\<lambda>s. Ok \<lparr>coin_denom = coin_denom a, coin_amount = s\<rparr>)
       else Panic),
     dec_coin_add = (\<lambda>a b. if dc_denom a = dc_denom b
       then andThen (chk 315 (dc_amount a + dc_amount b)) (\<lambda>s. Ok \<lparr>dc_denom = dc_denom a, dc_amount = s\<rparr>)
       else Panic),
     dec_coin_sub = (\<lambda>a b. if dc_denom a = dc_denom b
       then andThen (chk 315 (dc_amount a - dc_amount b)) (\<lambda>s.
         if s < 0 then Panic else Ok \<lparr>dc_denom = dc_denom a, dc_amount = s\<rparr>)
       else Panic),
     dec_coin_trunc = (\<lambda>a. if (3 \<le> length (dc_denom a) \<and> length (dc_denom a) \<le> 128) \<and> 0 \<le> dc_amount a
       then andThen (chk 255 (dc_amount a sdiv one_dec)) (\<lambda>t.
         Ok (\<lparr>coin_denom = dc_denom a, coin_amount = t\<rparr>,
             \<lparr>dc_denom = dc_denom a, dc_amount = dc_amount a - t * one_dec\<rparr>))
       else Panic),
     parse_coin = (\<lambda>s. Err (ErrExternal ''coin'')),
     acc_of_bech32 = strip_prefix ''terra1'',
     acc_bech32 = (\<lambda>a. ''terra1'' @ a),
     val_of_bech32 = strip_prefix ''terravaloper1'',
     val_bech32 = (\<lambda>a. ''terravaloper1'' @ a),
     parse_dec_coin = (\<lambda>s. Err (ErrExternal ''coin'')),
     float_sqrt = (\<lambda>v. 0)
   \<rparr>"

lemma sdk_ref_sel [simp]:
  "dec_bits sdk_ref = 315" "int_bits sdk_ref = 255"
  "dec_add sdk_ref a b = chk 315 (a + b)"
  "dec_sub sdk_ref a b = chk 315 (a - b)"
  "dec_mul sdk_ref a b = chk 315 (round_half_even (a * b) one_dec)"
  "dec_quo sdk_ref a b = quo_ref a b"
  "dec_mul_int sdk_ref a n = chk 315 (a * n)"
  "dec_quo_int sdk_ref a n = (if n = 0 then Panic else Ok (a sdiv n))"
  "dec_trunc sdk_ref a = chk 255 (a sdiv one_dec)"
  "dec_round sdk_ref a = chk 255 (round_half_even a one_dec)"
  "dec_ceil sdk_ref a = chk 315 (- ((- a) div one_dec) * one_dec)"
  "int_add sdk_ref a b = chk 255 (a + b)"
  "int_sub sdk_ref a b = chk 255 (a - b)"
  "denom_valid sdk_ref d \<longleftrightarrow> 3 \<le> length d \<and> length d \<le> 128"
  "new_coin sdk_ref d a = (if 3 \<le> length d \<and> length d \<le> 128 \<and> 0 \<le> a
       then Ok \<lparr>coin_denom = d, coin_amount = a\<rparr> else Panic)"
  "new_dec_coin sdk_ref d a = (if 3 \<le> length d \<and> length d \<le> 128 \<and> 0 \<le> a
       then Ok \<lparr>dc_denom = d, dc_amount = a\<rparr> else Panic)"
  "coins_add sdk_ref x y = coins_add_ref x y"
  "coins_sub sdk_ref x y = coins_sub_ref x y"
  "dec_coins_add sdk_ref ds es = dec_coins_add_ref ds es"
  "dec_coins_mul sdk_ref ds a = dec_coins_mul_ref ds a"
  "dec_coins_trunc sdk_ref ds = dec_coins_trunc_ref ds"
  "coins_is_zero sdk_ref x = list_all (\<lambda>c. coin_amount c = 0) x"
  "coins_amount_of sdk_ref x d = amt x d"
  "dec_coins_is_zero sdk_ref ds = list_all (\<lambda>c. dc_amount c = 0) ds"
  "new_coins sdk_ref x = new_coins_ref x"
  "coins_sort sdk_ref x = sort_key coin_denom x"
  "acc_of_bech32 sdk_ref s = strip_prefix ''terra1'' s"
  "acc_bech32 sdk_ref s = ''terra1'' @ s"
  "val_of_bech32 sdk_ref s = strip_prefix ''terravaloper1'' s"
  "val_bech32 sdk_ref s = ''terravaloper1'' @ s"
  "float_sqrt sdk_ref a = 0"
  by (simp_all add: sdk_ref_def)

text \<open>Evaluation of decimals on concrete values.\<close>

lemmas ref_eval = chk_eval round_half_even_def quo_ref_def one_dec_def dec_of_int_def require_def
  Let_def signed_divide_int_def

lemmas coins_eval = new_coins_ref_def coins_add_ref_def coins_sub_ref_def coins_sum_def dec_coins_add_ref_def
  dec_coins_mul_ref_def dec_coins_trunc_ref_def units_def of_units_def map_amounts_def neg_coin_def
  bit_len_le_iff

lemma dec_laws_sdk_ref: "dec_laws sdk_ref"
  unfolding dec_laws_def
  using nearest_round_half_even [of one_dec] within_unit_quo
  by (auto simp: sdk_ref_def quo_ref_def chk_def)

lemma coin_laws_sdk_ref: "coin_laws sdk_ref"
proof -
  have add: "if \<forall>d. bit_len (amt a d + amt b d) \<le> 255
       then \<exists>c. coins_add_ref a b = Ok c \<and> coins_wf c \<and> (\<forall>d. amt c d = amt a d + amt b d)
       else coins_add_ref a b = Panic" if "coins_wf a" "coins_wf b" for a b
    using that coins_sum_props [of a b] all_amt_iff [of "coins_sum a b" "\<lambda>x. bit_len x \<le> 255"]
    by (auto simp: coins_wf_iff coins_add_ref_def Let_def bit_len_le_iff)
  have sub: "if \<forall>d. amt b d \<le> amt a d
       then \<exists>c. coins_sub_ref a b = Ok c \<and> coins_wf c \<and> (\<forall>d. amt c d = amt a d - amt b d)
       else coins_sub_ref a b = Panic" if wf: "coins_wf a" "coins_wf b" for a b
  proof -
    define c where "c = coins_sum a (map neg_coin b)"
    have c: "coins_sorted c" "\<And>d. amt c d = amt a d - amt b d"
      using wf coins_sum_props [of a "map neg_coin b"] by (auto simp: c_def coins_wf_iff amt_neg)
    have "list_all (\<lambda>x. 0 < coin_amount x) c \<longleftrightarrow> list_all (\<lambda>x. 0 \<le> coin_amount x) c"
      using c(1) by (auto simp: coins_sorted_def list_all_iff order_less_le)
    also have "\<dots> \<longleftrightarrow> (\<forall>d. amt b d \<le> amt a d)"
      using all_amt_iff [OF c(1), of "\<lambda>x. 0 \<le> x"] c(2) by simp
    finally show ?thesis
      using c by (auto simp: coins_sub_ref_def c_def [symmetric] Let_def coins_wf_iff)
  qed
  show ?thesis unfolding coin_laws_def using add sub by (simp add: sdk_ref_def)
qed

lemma dec_coin_laws_sdk_ref: "dec_coin_laws sdk_ref"
proof -
  have add: "\<exists>c. dec_coins_add_ref a [b] = Ok c \<and> dec_coins_wf c \<and> (\<forall>d. damt c d = damt a d + damt [b] d)"
    if "dec_coins_wf a" "0 \<le> dc_amount b" for a b
  proof -
    have "0 \<le> amt (units [b]) d" for d using that by (simp add: units_def amt_Cons)
    with that show ?thesis
      using coins_sum_props [of "units a" "units [b]"]
      by (auto simp: dec_coins_add_ref_def wf_units damt_units coins_wf_iff)
  qed
  have mul: "\<exists>c. dec_coins_mul_ref a x = Ok c \<and> dec_coins_wf c
      \<and> (\<forall>d. nearest (damt c d) (damt a d * x) one_dec)" if a: "dec_coins_wf a" "0 \<le> x" for a x
  proof -
    let ?f = "\<lambda>y. round_half_even (y * x) one_dec"
    have "0 \<le> ?f y" if "0 < y" for y
      using nearest_nonneg [OF nearest_round_half_even, of one_dec "y * x"] a that by simp
    moreover have "?f 0 = 0" by (simp add: round_half_even_def Let_def)
    ultimately have "coins_wf (map_amounts ?f (units a))
        \<and> (\<forall>d. amt (map_amounts ?f (units a)) d = ?f (amt (units a) d))"
      using a by (intro map_amounts_wf) (auto simp: wf_units)
    then show ?thesis
      using nearest_round_half_even [of one_dec]
      by (auto simp: dec_coins_mul_ref_def wf_units damt_units)
  qed
  have trunc: "\<exists>c. dec_coins_trunc_ref a = Ok c \<and> coins_wf c \<and> (\<forall>d. amt c d = damt a d div one_dec)"
    if a: "dec_coins_wf a" for a
  proof -
    have "coins_wf (map_amounts (\<lambda>y. y div one_dec) (units a))
        \<and> (\<forall>d. amt (map_amounts (\<lambda>y. y div one_dec) (units a)) d = amt (units a) d div one_dec)"
      using a by (intro map_amounts_wf) (auto simp: wf_units pos_imp_zdiv_nonneg_iff)
    then show ?thesis by (auto simp: dec_coins_trunc_ref_def damt_units)
  qed
  show ?thesis
    unfolding dec_coin_laws_def using add mul trunc by (simp add: list_all_iff)
qed

lemma coin_op_laws_sdk_ref: "coin_op_laws sdk_ref"
proof -
  have nc: "new_coins_ref [c] = (if coin_amount c = 0 then Ok []
       else if (3 \<le> length (coin_denom c) \<and> length (coin_denom c) \<le> 128) \<and> 0 < coin_amount c then Ok [c] else Panic)" for c
    by (simp add: new_coins_ref_def coins_sum_def)
  have sub: "\<exists>c. coins_safe_sub sdk_ref a b = Ok (c, \<exists>d. amt a d < amt b d)
            \<and> (\<forall>d. amt c d = amt a d - amt b d) \<and> ((\<forall>d. amt b d \<le> amt a d) \<longrightarrow> coins_wf c)"
    if wf: "coins_wf a" "coins_wf b" for a b
  proof -
    define c where "c = coins_sum a (map neg_coin b)"
    have c: "coins_sorted c" "\<And>d. amt c d = amt a d - amt b d"
      using wf coins_sum_props [of a "map neg_coin b"] by (auto simp: c_def coins_wf_iff amt_neg)
    have "list_all (\<lambda>x. 0 \<le> coin_amount x) c \<longleftrightarrow> (\<forall>d. amt b d \<le> amt a d)"
      using all_amt_iff [OF c(1), of "\<lambda>x. 0 \<le> x"] c(2) by simp
    moreover have "list_ex (\<lambda>x. coin_amount x < 0) c \<longleftrightarrow> \<not> list_all (\<lambda>x. 0 \<le> coin_amount x) c"
      by (simp add: list_ex_iff list_all_iff not_le)
    moreover have "coins_safe_sub sdk_ref a b = Ok (c, list_ex (\<lambda>x. coin_amount x < 0) c)"
      by (simp add: sdk_ref_def c_def Let_def)
    ultimately show ?thesis using c by (auto simp: coins_wf_iff not_le)
  qed
  have gte: "coins_any_gte sdk_ref a b \<longleftrightarrow> (\<exists>d. 0 < amt b d \<and> amt b d \<le> amt a d)"
    if "coins_wf a" "coins_wf b" for a b
  proof -
    have "(\<exists>d. 0 < amt b d \<and> amt b d \<le> amt a d) \<longleftrightarrow> (\<exists>x\<in>set b. 0 < coin_amount x \<and> coin_amount x \<le> amt a (coin_denom x))"
    proof (intro iffI; elim exE bexE conjE)
      fix d assume d: "0 < amt b d" "amt b d \<le> amt a d"
      then have "d \<in> coin_denom ` set b" using amt_notin [of d b] by auto
      then obtain x where x: "x \<in> set b" "d = coin_denom x" by blast
      with coins_wf_amt_mem [OF that(2) x(1)] d
      show "\<exists>x\<in>set b. 0 < coin_amount x \<and> coin_amount x \<le> amt a (coin_denom x)" by auto
    next
      fix x assume x: "x \<in> set b" "0 < coin_amount x" "coin_amount x \<le> amt a (coin_denom x)"
      with coins_wf_amt_mem [OF that(2) x(1)]
      show "\<exists>d. 0 < amt b d \<and> amt b d \<le> amt a d" by (intro exI [of _ "coin_denom x"]) simp
    qed
    then show ?thesis by (simp add: sdk_ref_def list_ex_iff)
  qed
  show ?thesis
    unfolding coin_op_laws_def
  proof (intro conjI allI impI)
    show "new_coins sdk_ref [c] = (if coin_amount c = 0 then Ok []
       else if denom_valid sdk_ref (coin_denom c) \<and> 0 < coin_amount c then Ok [c] else Panic)" for c
      by (simp add: nc)
  qed (use sub gte in \<open>simp_all add: sdk_ref_def coins_wf_def list_all_iff ball_conj_distrib conj_ac\<close>)
qed

lemma coin_set_laws_sdk_ref: "coin_set_laws sdk_ref"
proof -
  have "of_units (units a) = a" for a by (induction a) (auto simp: of_units_def units_def)
  then have "dec_coins_add sdk_ref a [] = Ok a" for a
    by (simp add: dec_coins_add_ref_def units_def coins_sum_def)
  then show ?thesis by (simp add: coin_set_laws_def sdk_ref_def of_units_def list_all_iff)
qed

lemma strip_prefix_length: "strip_prefix p s = Ok a \<Longrightarrow> length a = 20"
  by (induction p s rule: strip_prefix.induct) (auto split: if_splits)

lemma addr_laws_sdk_ref: "addr_laws sdk_ref"
  unfolding addr_laws_def
proof (intro conjI allI impI)
  show "acc_of_bech32 sdk_ref (acc_bech32 sdk_ref a) = Ok a" if "length a = 20" for a
    using that strip_prefix_append by (simp only: sdk_ref_sel)
  show "val_of_bech32 sdk_ref (val_bech32 sdk_ref a) = Ok a" if "length a = 20" for a
    using that strip_prefix_append by (simp only: sdk_ref_sel)
qed (auto simp only: sdk_ref_sel strip_prefix_no_Panic dest: strip_prefix_length)

lemma sqrt_law_sdk_ref: "sqrt_law sdk_ref"
  by (simp add: sqrt_law_def sdk_ref_def)

lemmas sdk_ref_laws [simp] = dec_laws_sdk_ref coin_laws_sdk_ref dec_coin_laws_sdk_ref coin_op_laws_sdk_ref
  coin_set_laws_sdk_ref addr_laws_sdk_ref sqrt_law_sdk_ref

lemmas coin_op_eval = dec_coin_truncI [OF coin_op_laws_sdk_ref] coin_addI [OF coin_op_laws_sdk_ref]
  dec_coin_addI [OF coin_op_laws_sdk_ref] new_coinsI [OF coin_op_laws_sdk_ref]

end
