(* ===== verification/CoreTypes.thy ===== *)
theory CoreTypes
  imports Sdk
begin

text \<open>
  The constants and helpers of \<open>src/types\<close>: denoms, chain identifiers, block periods and the test for
  the last block of a period. The part of \<open>sdk.Context\<close> that the modules read is the record
  \<open>ctx\<close>.
\<close>

definition MicroLunaDenom :: denom where "MicroLunaDenom = ''uluna''"
definition MicroUSDDenom :: denom where "MicroUSDDenom = ''uusd''"
definition MicroKRWDenom :: denom where "MicroKRWDenom = ''ukrw''"
definition MicroSDRDenom :: denom where "MicroSDRDenom = ''usdr''"

definition MicroUnit :: int where "MicroUnit = 1000000"

definition ColumbusChainID :: string where "ColumbusChainID = ''columbus-5''"
definition BombayChainID :: string where "BombayChainID = ''bombay-12''"

definition SwapDisableForkHeight :: int where "SwapDisableForkHeight = 7607790"

definition BlocksPerMinute :: u64 where "BlocksPerMinute = 10"
definition BlocksPerHour :: u64 where "BlocksPerHour = BlocksPerMinute * 60"
definition BlocksPerDay :: u64 where "BlocksPerDay = BlocksPerHour * 24"
definition BlocksPerWeek :: u64 where "BlocksPerWeek = BlocksPerDay * 7"
definition BlocksPerMonth :: u64 where "BlocksPerMonth = BlocksPerDay * 30"
definition BlocksPerYear :: u64 where "BlocksPerYear = BlocksPerDay * 365"

lemmas blocks_defs = BlocksPerMinute_def BlocksPerHour_def BlocksPerDay_def BlocksPerWeek_def
  BlocksPerMonth_def BlocksPerYear_def

record ctx =
  ctx_height :: int
  ctx_chain :: string

text \<open>
  \<open>((uint64)(ctx.BlockHeight())+1)%blocksPerPeriod == 0\<close>: the conversion and the sum wrap at 64 bits
  and Go panics when the period is zero.
\<close>

definition IsPeriodLastBlock :: "ctx \<Rightarrow> u64 \<Rightarrow> bool outcome" where
  "IsPeriodLastBlock c p =
    (if p = 0 then Panic else Ok ((word_of_int (ctx_height c) + 1) mod p = 0))"

definition AddressVerifier :: "addr \<Rightarrow> unit outcome" where
  "AddressVerifier bz = require (length bz = 20) (ErrMsg ''incorrect address length'')"

text \<open>Below the wrap-around the test is divisibility of the next height.\<close>

lemma IsPeriodLastBlock_iff:
  assumes "0 \<le> ctx_height c" "ctx_height c < 2 ^ 63" "0 < p" "p < 2 ^ 64"
  shows "IsPeriodLastBlock c (word_of_int p) = Ok (p dvd ctx_height c + 1)"
proof -
  let ?h = "ctx_height c"
  have p: "uint (word_of_int p :: u64) = p" using assms by (simp add: uint_word_of_int)
  then have nz: "(word_of_int p :: u64) \<noteq> 0" using assms by auto
  have h: "uint (word_of_int ?h + 1 :: u64) = ?h + 1"
    using assms by (simp add: uint_word_ariths uint_word_of_int)
  have "(word_of_int ?h + 1 :: u64) mod word_of_int p = 0 \<longleftrightarrow> (?h + 1) mod p = 0"
    by (metis h p uint_0_iff uint_mod)
  with nz show ?thesis by (simp add: IsPeriodLastBlock_def dvd_eq_mod_eq_0)
qed

text \<open>Every period of \<open>p\<close> blocks has exactly one last block.\<close>

lemma period_last_block_unique:
  assumes "0 < (p::int)"
  shows "\<exists>!h. k * p \<le> h \<and> h < (k + 1) * p \<and> p dvd h + 1"
proof (rule ex1I [of _ "(k + 1) * p - 1"])
  show "k * p \<le> (k + 1) * p - 1 \<and> (k + 1) * p - 1 < (k + 1) * p \<and> p dvd (k + 1) * p - 1 + 1"
    using assms by (simp add: algebra_simps)
next
  fix h assume h: "k * p \<le> h \<and> h < (k + 1) * p \<and> p dvd h + 1"
  then obtain j where j: "h + 1 = p * j" by (auto elim: dvdE)
  with h have "k * p < p * j" "p * j \<le> (k + 1) * p" by linarith+
  with assms have "k < j" "j \<le> k + 1" by (simp_all add: mult.commute)
  then have "j = k + 1" by simp
  with j show "h = (k + 1) * p - 1" by (simp add: mult.commute)
qed

end
