(* ===== verification/Vesting.thy ===== *)
theory Vesting
  imports SdkRef CoreTypes
begin

text \<open>
  The lazy graded vesting account of \<open>src/x/vesting/types\<close>: \<open>schedule.go\<close> (the vested ratio of a list
  of schedules and their validation) and \<open>vesting_account.go\<close> (the vested and the vesting coins of an
  account). Times are \<open>int64\<close> seconds. The functions of the SDK's own base vesting account are
  arguments.
\<close>

section \<open>Schedules\<close>

record schedule =
  StartTime :: int
  EndTime :: int
  Ratio :: dec

record vesting_schedule =
  vs_denom :: denom
  vs_schedules :: "schedule list"

record 'a base_vesting =
  base_account :: 'a
  OriginalVesting :: coins
  DelegatedFree :: coins
  DelegatedVesting :: coins
  base_end_time :: int

record 'a lgva =
  lgva_base :: "'a base_vesting"
  VestingSchedules :: "vesting_schedule list"

definition Schedule_Validate :: "schedule \<Rightarrow> unit outcome" where
  "Schedule_Validate s =
    (if StartTime s < 0 then Err (ErrMsg ''vesting start-time cannot be negative'')
     else if EndTime s < StartTime s then Err (ErrMsg ''vesting start-time cannot be before end-time'')
     else if Ratio s \<le> 0 then Err (ErrMsg ''vesting ratio cannot be smaller than or equal with zero'')
     else Ok ())"

definition vested_ratio_step :: "sdk \<Rightarrow> int \<Rightarrow> schedule \<Rightarrow> dec \<Rightarrow> dec outcome" where
  "vested_ratio_step S blockTime s sumRatio =
    (if blockTime < StartTime s then Ok sumRatio
     else andThen
       (if blockTime < EndTime s
        then andThen (dec_mul_int S (Ratio s) (i64 (blockTime - StartTime s)))
               (\<lambda>r. dec_quo_int S r (i64 (EndTime s - StartTime s)))
        else Ok (Ratio s))
       (\<lambda>ratio. dec_add S sumRatio ratio))"

definition GetVestedRatio :: "sdk \<Rightarrow> vesting_schedule \<Rightarrow> int \<Rightarrow> dec outcome" where
  "GetVestedRatio S vs blockTime = forEach (vested_ratio_step S blockTime) (vs_schedules vs) 0"

definition validate_step :: "sdk \<Rightarrow> schedule \<Rightarrow> dec \<Rightarrow> dec outcome" where
  "validate_step S s sumRatio =
    andThen (Schedule_Validate s) (\<lambda>_. dec_add S sumRatio (Ratio s))"

definition fixedPointDecimals :: int where
  "fixedPointDecimals = 1000000000"

definition VestingSchedule_Validate :: "sdk \<Rightarrow> vesting_schedule \<Rightarrow> unit outcome" where
  "VestingSchedule_Validate S vs =
    andThen (forEach (validate_step S) (vs_schedules vs) 0) (\<lambda>sumRatio.
    andThen (dec_mul_int S sumRatio fixedPointDecimals) (\<lambda>scaled.
    andThen (dec_round S scaled) (\<lambda>rounded.
    andThen (dec_quo_int S (dec_of_int rounded) fixedPointDecimals) (\<lambda>total.
    require (total = one_dec) (ErrMsg ''vesting total ratio must be one'')))))"


section \<open>Accounts\<close>

definition NewLazyGradedVestingAccount :: "'a \<Rightarrow> coins \<Rightarrow> vesting_schedule list \<Rightarrow> 'a lgva" where
  "NewLazyGradedVestingAccount baseAcc originalVesting schedules =
    \<lparr>lgva_base = \<lparr>base_account = baseAcc, OriginalVesting = originalVesting, DelegatedFree = [],
       DelegatedVesting = [], base_end_time = 0\<rparr>, VestingSchedules = schedules\<rparr>"

fun find_schedule :: "denom \<Rightarrow> vesting_schedule list \<Rightarrow> vesting_schedule option" where
  "find_schedule d [] = None"
| "find_schedule d (vs # vss) = (if vs_denom vs = d then Some vs else find_schedule d vss)"

definition GetVestingSchedule :: "'a lgva \<Rightarrow> denom \<Rightarrow> vesting_schedule option" where
  "GetVestingSchedule lgva d = find_schedule d (VestingSchedules lgva)"

definition vested_coin_step ::
  "sdk \<Rightarrow> 'a lgva \<Rightarrow> int \<Rightarrow> coin \<Rightarrow> coins \<Rightarrow> coins outcome" where
  "vested_coin_step S lgva blockTime ovc vestedCoins =
    (case GetVestingSchedule lgva (coin_denom ovc) of
       Some vestingSchedule \<Rightarrow>
         andThen (GetVestedRatio S vestingSchedule blockTime) (\<lambda>vestedRatio.
         andThen (dec_mul S (dec_of_int (coin_amount ovc)) vestedRatio) (\<lambda>vested.
         andThen (dec_round S vested) (\<lambda>vestedAmt.
         if vestedAmt = 0 then Ok vestedCoins
         else andThen (new_coin S (coin_denom ovc) vestedAmt) (\<lambda>c. Ok (vestedCoins @ [c])))))
     | None \<Rightarrow> andThen (new_coin S (coin_denom ovc) (coin_amount ovc)) (\<lambda>c. Ok (vestedCoins @ [c])))"

definition GetVestedCoins :: "sdk \<Rightarrow> 'a lgva \<Rightarrow> int \<Rightarrow> coins outcome" where
  "GetVestedCoins S lgva blockTime =
    forEach (vested_coin_step S lgva blockTime) (OriginalVesting (lgva_base lgva)) []"

definition GetVestingCoins :: "sdk \<Rightarrow> 'a lgva \<Rightarrow> int \<Rightarrow> coins outcome" where
  "GetVestingCoins S lgva blockTime =
    andThen (GetVestedCoins S lgva blockTime) (\<lambda>vested.
    coins_sub S (OriginalVesting (lgva_base lgva)) vested)"

definition LockedCoins ::
  "sdk \<Rightarrow> ('a base_vesting \<Rightarrow> coins \<Rightarrow> coins outcome) \<Rightarrow> 'a lgva \<Rightarrow> int \<Rightarrow> coins outcome" where
  "LockedCoins S lockedCoinsFromVesting lgva blockTime =
    andThen (GetVestingCoins S lgva blockTime) (lockedCoinsFromVesting (lgva_base lgva))"

definition TrackDelegation ::
  "sdk \<Rightarrow> ('a base_vesting \<Rightarrow> coins \<Rightarrow> coins \<Rightarrow> coins \<Rightarrow> 'a base_vesting outcome) \<Rightarrow>
    'a lgva \<Rightarrow> int \<Rightarrow> coins \<Rightarrow> coins \<Rightarrow> 'a lgva outcome" where
  "TrackDelegation S baseTrackDelegation lgva blockTime balance amount =
    andThen (GetVestingCoins S lgva blockTime) (\<lambda>vesting.
    andThen (baseTrackDelegation (lgva_base lgva) balance vesting amount) (\<lambda>b.
    Ok (lgva\<lparr>lgva_base := b\<rparr>)))"

definition validate_schedule_step ::
  "sdk \<Rightarrow> vesting_schedule \<Rightarrow> denom list \<Rightarrow> denom list outcome" where
  "validate_schedule_step S vs denomMap =
    (if vs_denom vs \<in> set denomMap then Err (ErrMsg ''cannot have multiple vesting schedules'')
     else andThen (VestingSchedule_Validate S vs) (\<lambda>_. Ok (vs_denom vs # denomMap)))"

definition lgva_Validate ::
  "sdk \<Rightarrow> ('a base_vesting \<Rightarrow> unit outcome) \<Rightarrow> 'a lgva \<Rightarrow> unit outcome" where
  "lgva_Validate S baseValidate lgva =
    andThen (forEach (validate_schedule_step S) (VestingSchedules lgva) []) (\<lambda>_.
    baseValidate (lgva_base lgva))"

section \<open>The vested ratio\<close>

text \<open>
  The specification: a schedule has vested nothing before its start, its whole ratio from its end
  on, and the truncated linear share in between.
\<close>

definition vested_part :: "int \<Rightarrow> schedule \<Rightarrow> dec" where
  "vested_part t s =
    (if t < StartTime s then 0
     else if t < EndTime s then (Ratio s * (t - StartTime s)) div (EndTime s - StartTime s)
     else Ratio s)"

definition vested_total :: "int \<Rightarrow> schedule list \<Rightarrow> dec" where
  "vested_total t ss = (\<Sum>s\<leftarrow>ss. vested_part t s)"

definition ratio_total :: "schedule list \<Rightarrow> dec" where
  "ratio_total ss = (\<Sum>s\<leftarrow>ss. Ratio s)"

definition times_i64 :: "schedule list \<Rightarrow> bool" where
  "times_i64 ss \<longleftrightarrow> (\<forall>s\<in>set ss. in_i64 (StartTime s) \<and> in_i64 (EndTime s))"

lemma Schedule_Validate_Ok [simp]:
  "Schedule_Validate s = Ok () \<longleftrightarrow> 0 \<le> StartTime s \<and> StartTime s \<le> EndTime s \<and> 0 < Ratio s"
  by (auto simp: Schedule_Validate_def)

lemma vested_part_bounds:
  assumes "Schedule_Validate s = Ok ()"
  shows "0 \<le> vested_part t s" "vested_part t s \<le> Ratio s"
proof -
  have lin: "0 \<le> (Ratio s * (t - StartTime s)) div (EndTime s - StartTime s)
      \<and> (Ratio s * (t - StartTime s)) div (EndTime s - StartTime s) \<le> Ratio s"
    if t: "StartTime s \<le> t" "t < EndTime s"
  proof
    from assms t show "0 \<le> (Ratio s * (t - StartTime s)) div (EndTime s - StartTime s)"
      by (simp add: pos_imp_zdiv_nonneg_iff)
    have "Ratio s * (t - StartTime s) \<le> Ratio s * (EndTime s - StartTime s)"
      using assms t by (intro mult_left_mono) auto
    then have "(Ratio s * (t - StartTime s)) div (EndTime s - StartTime s)
        \<le> (Ratio s * (EndTime s - StartTime s)) div (EndTime s - StartTime s)"
      using t by (intro zdiv_mono1) auto
    with t show "(Ratio s * (t - StartTime s)) div (EndTime s - StartTime s) \<le> Ratio s" by simp
  qed
  from lin assms show "0 \<le> vested_part t s" "vested_part t s \<le> Ratio s"
    by (auto simp: vested_part_def)
qed

lemma vested_part_mono:
  assumes v: "Schedule_Validate s = Ok ()" and "t \<le> t'"
  shows "vested_part t s \<le> vested_part t' s"
proof (cases "StartTime s \<le> t \<and> t' < EndTime s")
  case True
  have "Ratio s * (t - StartTime s) \<le> Ratio s * (t' - StartTime s)"
    using assms by (intro mult_left_mono) auto
  with True assms show ?thesis by (auto simp: vested_part_def intro: zdiv_mono1)
next
  case False
  then have "vested_part t s = 0 \<or> vested_part t' s = Ratio s"
    using assms by (auto simp: vested_part_def)
  with vested_part_bounds(1) [OF v, of t'] vested_part_bounds(2) [OF v, of t] show ?thesis by auto
qed

lemma vested_total_bounds:
  assumes "\<forall>s\<in>set ss. Schedule_Validate s = Ok ()"
  shows "0 \<le> vested_total t ss" "vested_total t ss \<le> ratio_total ss"
proof -
  show "0 \<le> vested_total t ss"
    unfolding vested_total_def using assms vested_part_bounds(1) by (auto intro!: sum_list_nonneg)
  show "vested_total t ss \<le> ratio_total ss"
    unfolding vested_total_def ratio_total_def
    using assms vested_part_bounds(2) by (intro sum_list_mono) auto
qed

lemma vested_total_mono:
  assumes "\<forall>s\<in>set ss. Schedule_Validate s = Ok ()" "t \<le> t'"
  shows "vested_total t ss \<le> vested_total t' ss"
  unfolding vested_total_def using assms vested_part_mono by (intro sum_list_mono) auto

lemma vested_ratio_step_exact:
  assumes S: "dec_laws S" and v: "Schedule_Validate s = Ok ()"
    and "in_i64 (EndTime s)" "in_i64 t" "0 \<le> acc" "acc + Ratio s < 2 ^ 100"
  shows "vested_ratio_step S t s acc = Ok (acc + vested_part t s)"
proof (cases "t < StartTime s")
  case True
  then show ?thesis by (simp add: vested_ratio_step_def vested_part_def)
next
  case started: False
  note b = dec_bitsD [OF S]
  have add: "dec_add S acc x = Ok (acc + x)" if "0 \<le> x" "x \<le> Ratio s" for x
    using that assms b by (simp add: dec_exact chk_fits)
  show ?thesis
  proof (cases "t < EndTime s")
    case False
    with started v add show ?thesis by (simp add: vested_ratio_step_def vested_part_def)
  next
    case True
    let ?d = "t - StartTime s" and ?e = "EndTime s - StartTime s"
    have i: "i64 ?d = ?d" "i64 ?e = ?e"
      using started True v assms by (auto simp: in_i64_def)
    have r: "0 \<le> Ratio s" "Ratio s \<le> 2 ^ 100" "0 \<le> ?d" "?d \<le> 2 ^ 63"
      using v assms started by (auto simp: in_i64_def)
    from r have "0 \<le> Ratio s * ?d" by simp
    moreover from r have "Ratio s * ?d \<le> 2 ^ 100 * 2 ^ 63" by (intro mult_mono) auto
    ultimately have m: "dec_mul_int S (Ratio s) ?d = Ok (Ratio s * ?d)"
      using S b by (simp add: dec_exact chk_fits)
    have q: "dec_quo_int S (Ratio s * ?d) ?e = Ok ((Ratio s * ?d) div ?e)"
      using S True started r by (auto simp: dec_exact sdiv_nonneg)
    have p: "vested_part t s = (Ratio s * ?d) div ?e"
      using started True by (simp add: vested_part_def)
    from started True i m q show ?thesis
      using add [of "vested_part t s"] vested_part_bounds [OF v, of t]
      by (simp add: vested_ratio_step_def p)
  qed
qed

lemma ratio_total_Cons [simp]: "ratio_total (s # ss) = Ratio s + ratio_total ss"
  by (simp add: ratio_total_def)

lemma vested_total_Cons [simp]: "vested_total t (s # ss) = vested_part t s + vested_total t ss"
  by (simp add: vested_total_def)

lemma vested_loop_exact:
  assumes S: "dec_laws S" and "\<forall>s\<in>set ss. Schedule_Validate s = Ok ()" "times_i64 ss" "in_i64 t"
    and "0 \<le> acc" "acc + ratio_total ss < 2 ^ 100"
  shows "forEach (vested_ratio_step S t) ss acc = Ok (acc + vested_total t ss)"
  using assms(2-)
proof (induction ss arbitrary: acc)
  case Nil
  then show ?case by (simp add: vested_total_def)
next
  case (Cons s ss)
  from Cons.prems have v: "Schedule_Validate s = Ok ()" "\<forall>s\<in>set ss. Schedule_Validate s = Ok ()"
    by auto
  note pb = vested_part_bounds [OF v(1), of t] and tb = vested_total_bounds [OF v(2), of t]
  have step: "vested_ratio_step S t s acc = Ok (acc + vested_part t s)"
    using Cons.prems tb by (intro vested_ratio_step_exact [OF S v(1)]) (auto simp: times_i64_def)
  have "forEach (vested_ratio_step S t) ss (acc + vested_part t s)
      = Ok (acc + vested_part t s + vested_total t ss)"
    using Cons.prems pb v by (intro Cons.IH) (auto simp: times_i64_def)
  with step show ?case by (simp add: add.assoc)
qed

lemma validate_loop:
  assumes S: "dec_laws S" and "forEach (validate_step S) ss acc = Ok tot"
  shows "tot = acc + ratio_total ss \<and> (\<forall>s\<in>set ss. Schedule_Validate s = Ok ())"
  using assms(2)
proof (induction ss arbitrary: acc)
  case Nil
  then show ?case by (simp add: ratio_total_def)
next
  case (Cons s ss)
  then obtain u where u: "validate_step S s acc = Ok u" "forEach (validate_step S) ss u = Ok tot"
    by auto
  then have "u = acc + Ratio s" "Schedule_Validate s = Ok ()"
    using S by (auto simp: validate_step_def dec_exact)
  with Cons.IH [OF u(2)] show ?case by auto
qed

lemma VestingSchedule_Validate_Ok:
  assumes S: "dec_laws S" and "VestingSchedule_Validate S vs = Ok ()"
  shows "\<forall>s\<in>set (vs_schedules vs). Schedule_Validate s = Ok ()"
    and "\<bar>ratio_total (vs_schedules vs) - one_dec\<bar> \<le> 500000000"
proof -
  from assms obtain tot sc rd where l: "forEach (validate_step S) (vs_schedules vs) 0 = Ok tot"
    and sc: "dec_mul_int S tot fixedPointDecimals = Ok sc" and rd: "dec_round S sc = Ok rd"
    and q: "dec_quo_int S (dec_of_int rd) fixedPointDecimals = Ok one_dec"
    by (auto simp: VestingSchedule_Validate_def)
  from validate_loop [OF S l] show "\<forall>s\<in>set (vs_schedules vs). Schedule_Validate s = Ok ()" by simp
  have "dec_of_int rd = (rd * 1000000000) * 1000000000"
    by (simp add: dec_of_int_def one_dec_def)
  with q S have "(rd * 1000000000) * 1000000000 sdiv 1000000000 = (one_dec :: int)"
    by (simp add: dec_exact fixedPointDecimals_def)
  then have "rd = 1000000000"
    by (simp add: signed_divide_int_def abs_mult sgn_mult one_dec_def sgn_if split: if_splits)
  moreover from dec_roundD [OF S rd] sc S
  have "nearest rd (tot * 1000000000) one_dec" by (simp add: dec_exact fixedPointDecimals_def)
  ultimately have "\<bar>tot - one_dec\<bar> \<le> 500000000"
    by (simp add: nearest_def one_dec_def abs_if split: if_splits)
  with validate_loop [OF S l] show "\<bar>ratio_total (vs_schedules vs) - one_dec\<bar> \<le> 500000000" by simp
qed

lemma GetVestedRatio_exact:
  assumes S: "dec_laws S" and V: "VestingSchedule_Validate S vs = Ok ()"
    and "times_i64 (vs_schedules vs)" "in_i64 t"
  shows "GetVestedRatio S vs t = Ok (vested_total t (vs_schedules vs))"
proof -
  have "ratio_total (vs_schedules vs) < 2 ^ 100"
    using VestingSchedule_Validate_Ok(2) [OF S V] by (simp add: one_dec_def abs_if split: if_splits)
  then show ?thesis
    using vested_loop_exact [OF S VestingSchedule_Validate_Ok(1) [OF S V] assms(3,4), of 0]
    by (simp add: GetVestedRatio_def)
qed


section \<open>Vested and vesting coins\<close>

lemma find_schedule_Some: "find_schedule d vss = Some vs \<Longrightarrow> vs \<in> set vss \<and> vs_denom vs = d"
  by (induction vss) (auto split: if_splits)

lemma validate_schedule_step_Ok:
  "validate_schedule_step S vs seen = Ok out \<longleftrightarrow>
    vs_denom vs \<notin> set seen \<and> VestingSchedule_Validate S vs = Ok () \<and> out = vs_denom vs # seen"
  by (auto simp: validate_schedule_step_def)

lemma validate_schedules_loop:
  assumes "forEach (validate_schedule_step S) vss seen = Ok out"
  shows "(\<forall>vs\<in>set vss. VestingSchedule_Validate S vs = Ok ())
    \<and> distinct (map vs_denom vss) \<and> vs_denom ` set vss \<inter> set seen = {}"
  using assms
proof (induction vss arbitrary: seen)
  case (Cons vs vss)
  then have "vs_denom vs \<notin> set seen" "VestingSchedule_Validate S vs = Ok ()"
    and l: "forEach (validate_schedule_step S) vss (vs_denom vs # seen) = Ok out"
    by (auto simp: validate_schedule_step_Ok)
  with Cons.IH [OF l] show ?case by auto
qed simp

text \<open>
  What an account must satisfy for its coins to be computable: the schedules validate, no schedule
  hands out more than the whole, and the amounts leave room for the 18 decimals.
\<close>

definition account_ok :: "sdk \<Rightarrow> 'a lgva \<Rightarrow> bool" where
  "account_ok S a \<longleftrightarrow>
    coins_wf (OriginalVesting (lgva_base a))
    \<and> (\<forall>c\<in>set (OriginalVesting (lgva_base a)). denom_valid S (coin_denom c) \<and> coin_amount c < 2 ^ 180)
    \<and> (\<forall>vs\<in>set (VestingSchedules a). VestingSchedule_Validate S vs = Ok ()
         \<and> times_i64 (vs_schedules vs) \<and> ratio_total (vs_schedules vs) \<le> one_dec)"

text \<open>One round of the loop of \<open>GetVestedCoins\<close> adds at most one coin, of at most the original amount.\<close>

lemma mul_round_bounds:
  assumes S: "dec_laws S" and a: "0 \<le> a" "a < 2 ^ 180" and r: "0 \<le> r" "r \<le> one_dec"
  shows "\<exists>v. andThen (dec_mul S (dec_of_int a) r) (dec_round S) = Ok v \<and> 0 \<le> v \<and> v \<le> a"
proof -
  note b = dec_bitsD [OF S]
  obtain q where q: "nearest q (dec_of_int a * r) one_dec"
    and m: "dec_mul S (dec_of_int a) r = chk (dec_bits S) q" by (rule dec_mulE [OF S])
  have "dec_of_int a * r = (a * r) * one_dec" by (simp add: dec_of_int_def)
  with q have q_eq: "q = a * r" using nearest_exact [of q "a * r" one_dec] by simp
  have "0 \<le> a * r" "a * r \<le> 2 ^ 180 * one_dec" using a r by (auto intro: mult_mono)
  then have m': "dec_mul S (dec_of_int a) r = Ok (a * r)"
    using m q_eq b by (simp add: chk_fits one_dec_def)
  obtain v where v: "nearest v (a * r) one_dec" and rd: "dec_round S (a * r) = chk (int_bits S) v"
    by (rule dec_roundE [OF S])
  have "0 \<le> v" using nearest_nonneg [OF v] a r by simp
  moreover have "v \<le> a" using nearest_le [OF v, of a] a r by (simp add: mult_left_mono)
  moreover from this \<open>0 \<le> v\<close> have "dec_round S (a * r) = Ok v" using rd b a by (simp add: chk_fits)
  ultimately show ?thesis using m' by simp
qed

lemma vested_coin_step_ok:
  assumes S: "dec_laws S" "coin_laws S" and ok: "account_ok S a" and t: "in_i64 t"
    and c: "c \<in> set (OriginalVesting (lgva_base a))"
  shows "\<exists>v. 0 \<le> v \<and> v \<le> coin_amount c
    \<and> vested_coin_step S a t c acc = Ok (acc @ (if v = 0 then [] else [c\<lparr>coin_amount := v\<rparr>]))"
proof -
  from ok c have cp: "0 < coin_amount c" "coin_amount c < 2 ^ 180" "denom_valid S (coin_denom c)"
    by (auto simp: account_ok_def coins_wf_def)
  have new: "new_coin S (coin_denom c) v = Ok (c\<lparr>coin_amount := v\<rparr>)" if "0 \<le> v" for v
    using that cp S(2) by (simp add: coin_laws_def)
  show ?thesis
  proof (cases "GetVestingSchedule a (coin_denom c)")
    case None
    with new [of "coin_amount c"] cp show ?thesis
      by (intro exI [of _ "coin_amount c"]) (simp add: vested_coin_step_def)
  next
    case (Some vs)
    then have vs: "vs \<in> set (VestingSchedules a)"
      using find_schedule_Some by (fastforce simp: GetVestingSchedule_def)
    with ok have V: "VestingSchedule_Validate S vs = Ok ()" "times_i64 (vs_schedules vs)"
      "ratio_total (vs_schedules vs) \<le> one_dec" by (auto simp: account_ok_def)
    let ?r = "vested_total t (vs_schedules vs)"
    have r: "0 \<le> ?r" "?r \<le> one_dec"
      using vested_total_bounds [OF VestingSchedule_Validate_Ok(1) [OF S(1) V(1)], of t] V(3) by auto
    have g: "GetVestedRatio S vs t = Ok ?r" by (rule GetVestedRatio_exact [OF S(1) V(1,2) t])
    obtain v where v: "andThen (dec_mul S (dec_of_int (coin_amount c)) ?r) (dec_round S) = Ok v"
        "0 \<le> v" "v \<le> coin_amount c"
      using mul_round_bounds [OF S(1), of "coin_amount c" ?r] cp r by auto
    with Some g new [of v] show ?thesis
      by (intro exI [of _ v]) (auto simp: vested_coin_step_def)
  qed
qed

lemma vested_coins_loop:
  assumes S: "dec_laws S" "coin_laws S" and ok: "account_ok S a" and t: "in_i64 t"
    and "set cs \<subseteq> set (OriginalVesting (lgva_base a))" "coins_wf cs"
  shows "\<exists>vs. forEach (vested_coin_step S a t) cs acc = Ok (acc @ vs) \<and> coins_wf vs
    \<and> coin_denom ` set vs \<subseteq> coin_denom ` set cs \<and> (\<forall>d. amt vs d \<le> amt cs d)"
  using assms(5,6)
proof (induction cs arbitrary: acc)
  case Nil
  show ?case by (intro exI [of _ "[]"]) simp
next
  case (Cons c cs)
  from Cons.prems have c: "c \<in> set (OriginalVesting (lgva_base a))" and cs: "coins_wf cs"
    "set cs \<subseteq> set (OriginalVesting (lgva_base a))" "\<forall>c'\<in>set cs. coin_denom c < coin_denom c'"
    by (auto simp: coins_wf_Cons)
  obtain v where v: "0 \<le> v" "v \<le> coin_amount c" "vested_coin_step S a t c acc
      = Ok (acc @ (if v = 0 then [] else [c\<lparr>coin_amount := v\<rparr>]))"
    using vested_coin_step_ok [OF S ok t c] by blast
  let ?h = "if v = 0 then [] else [c\<lparr>coin_amount := v\<rparr>]"
  obtain vs where vs: "forEach (vested_coin_step S a t) cs (acc @ ?h) = Ok ((acc @ ?h) @ vs)"
    "coins_wf vs" "coin_denom ` set vs \<subseteq> coin_denom ` set cs" "\<forall>d. amt vs d \<le> amt cs d"
    using Cons.IH [OF cs(2,1), of "acc @ ?h"] by blast
  have "coin_denom c < coin_denom c'" if "c' \<in> set vs" for c'
    using that vs(3) cs(3) by auto
  with vs(2) v have "coins_wf (?h @ vs)" by (auto simp: coins_wf_Cons)
  moreover have "forEach (vested_coin_step S a t) (c # cs) acc = Ok (acc @ (?h @ vs))"
    using v(3) vs(1) by simp
  moreover have "coin_denom ` set (?h @ vs) \<subseteq> coin_denom ` set (c # cs)" using vs(3) by auto
  moreover have "amt (?h @ vs) d \<le> amt (c # cs) d" for d
    using spec [OF vs(4), of d] v by (simp add: amt_Cons)
  ultimately show ?case by blast
qed

lemma GetVestedCoins_ok:
  assumes "dec_laws S" "coin_laws S" "account_ok S a" "in_i64 t"
  shows "\<exists>vs. GetVestedCoins S a t = Ok vs \<and> coins_wf vs
    \<and> (\<forall>d. amt vs d \<le> amt (OriginalVesting (lgva_base a)) d)"
  using vested_coins_loop [OF assms, of "OriginalVesting (lgva_base a)" "[]"] assms(3)
  by (auto simp: GetVestedCoins_def account_ok_def)

lemma GetVestingCoins_split:
  assumes S: "dec_laws S" "coin_laws S" and ok: "account_ok S a" and t: "in_i64 t"
  shows "\<exists>vested vesting. GetVestedCoins S a t = Ok vested \<and> GetVestingCoins S a t = Ok vesting
    \<and> coins_wf vested \<and> coins_wf vesting
    \<and> (\<forall>d. amt vested d + amt vesting d = amt (OriginalVesting (lgva_base a)) d)"
proof -
  obtain vs where vs: "GetVestedCoins S a t = Ok vs" "coins_wf vs"
    "\<forall>d. amt vs d \<le> amt (OriginalVesting (lgva_base a)) d"
    using GetVestedCoins_ok [OF assms] by blast
  have wf: "coins_wf (OriginalVesting (lgva_base a))" using ok by (simp add: account_ok_def)
  obtain c where "coins_sub S (OriginalVesting (lgva_base a)) vs = Ok c" "coins_wf c"
    "\<And>d. amt c d = amt (OriginalVesting (lgva_base a)) d - amt vs d"
    using vs(3) by (rule_tac coins_sub_Ok [OF S(2) wf vs(2)]) auto
  with vs show ?thesis by (auto simp: GetVestingCoins_def)
qed


section \<open>Properties\<close>

text \<open>
  C15: a schedule list that validates has a vested ratio at every block time (no decimal panics),
  it is the sum of the linear shares, it lies between zero and the total ratio, it never decreases
  with time, and from the last end time on it is the total ratio, which is one up to the tolerance
  of half of 10^-9 that \<open>Validate\<close> leaves.
\<close>

theorem vested_ratio_correct:
  assumes "dec_laws S" "VestingSchedule_Validate S vs = Ok ()"
    and "times_i64 (vs_schedules vs)" "in_i64 t" "in_i64 t'" "t \<le> t'"
  shows "\<exists>v v'. GetVestedRatio S vs t = Ok v \<and> GetVestedRatio S vs t' = Ok v'
    \<and> v = vested_total t (vs_schedules vs) \<and> 0 \<le> v \<and> v \<le> v'
    \<and> v' \<le> ratio_total (vs_schedules vs)
    \<and> \<bar>ratio_total (vs_schedules vs) - one_dec\<bar> \<le> 500000000
    \<and> ((\<forall>s\<in>set (vs_schedules vs). EndTime s \<le> t') \<longrightarrow> v' = ratio_total (vs_schedules vs))"
proof -
  note ok = VestingSchedule_Validate_Ok [OF assms(1,2)]
  have "vested_total t' (vs_schedules vs) = ratio_total (vs_schedules vs)"
    if "\<forall>s\<in>set (vs_schedules vs). EndTime s \<le> t'"
    unfolding vested_total_def ratio_total_def
    using that ok(1) by (intro arg_cong [where f = sum_list] map_cong) (auto simp: vested_part_def)
  with ok show ?thesis
    using GetVestedRatio_exact [OF assms(1-3)] assms(4-6)
      vested_total_bounds [OF ok(1)] vested_total_mono [OF ok(1)] by auto
qed

definition half_year :: vesting_schedule where
  "half_year = \<lparr>vs_denom = ''uluna'', vs_schedules =
     [\<lparr>StartTime = 100, EndTime = 200, Ratio = 400000000000000000\<rparr>,
      \<lparr>StartTime = 200, EndTime = 500, Ratio = 600000000000000000\<rparr>]\<rparr>"

lemma half_year_valid: "VestingSchedule_Validate sdk_ref half_year = Ok ()"
  by (simp add: half_year_def ref_eval Schedule_Validate_def VestingSchedule_Validate_def
      validate_step_def fixedPointDecimals_def)

theorem vested_ratio_correct_witness:
  "GetVestedRatio sdk_ref half_year 150 = Ok 200000000000000000
   \<and> GetVestedRatio sdk_ref half_year 500 = Ok one_dec"
  using vested_ratio_correct [of sdk_ref half_year 150 500] half_year_valid
  by (simp add: half_year_def times_i64_def in_i64_def vested_total_def vested_part_def
      ratio_total_def one_dec_def)

text \<open>
  C7: for an account whose schedules validate and hand out at most the whole, and at every block
  time, the vested and the vesting coins exist, are valid coin sets, and add up to the original
  vesting in every denom.
\<close>

theorem vested_plus_vesting:
  assumes "dec_laws S" "coin_laws S" "account_ok S a" "in_i64 t"
  shows "\<exists>vested vesting. GetVestedCoins S a t = Ok vested \<and> GetVestingCoins S a t = Ok vesting
    \<and> coins_wf vested \<and> coins_wf vesting
    \<and> (\<forall>d. amt vested d + amt vesting d = amt (OriginalVesting (lgva_base a)) d)"
  by (rule GetVestingCoins_split [OF assms])

definition sample_account :: "unit lgva" where
  "sample_account = NewLazyGradedVestingAccount ()
     [\<lparr>coin_denom = ''uluna'', coin_amount = 1000\<rparr>, \<lparr>coin_denom = ''uusd'', coin_amount = 7\<rparr>] [half_year]"

theorem vested_plus_vesting_witness:
  "\<exists>vested vesting. GetVestedCoins sdk_ref sample_account 150 = Ok vested
    \<and> GetVestingCoins sdk_ref sample_account 150 = Ok vesting
    \<and> coins_wf vested \<and> coins_wf vesting
    \<and> (\<forall>d. amt vested d + amt vesting d = amt (OriginalVesting (lgva_base sample_account)) d)"
proof (rule vested_plus_vesting)
  show "account_ok sdk_ref sample_account"
    using half_year_valid
    by (auto simp: account_ok_def sample_account_def NewLazyGradedVestingAccount_def coins_wf_def
        half_year_def times_i64_def in_i64_def ratio_total_def one_dec_def less_char_def)
qed (simp_all add: in_i64_def)

definition generous :: vesting_schedule where
  "generous = \<lparr>vs_denom = MicroLunaDenom, vs_schedules =
     [\<lparr>StartTime = 0, EndTime = 100, Ratio = 1000000000400000000\<rparr>]\<rparr>"

definition generous_account :: "unit lgva" where
  "generous_account = NewLazyGradedVestingAccount ()
     [\<lparr>coin_denom = MicroLunaDenom, coin_amount = 10000000000\<rparr>] [generous]"

text \<open>
  The tolerance of \<open>Validate\<close> is wide enough to break an account: a schedule whose ratio exceeds
  one by 4 * 10^-10 passes, and once it has ended an account of 10^10 units has vested four units
  more than it holds, so \<open>GetVestingCoins\<close> panics on the subtraction.
\<close>

theorem over_vesting_panics:
  assumes S: "dec_laws S" "coin_laws S" "denom_valid S MicroLunaDenom"
  shows "VestingSchedule_Validate S generous = Ok () \<and> GetVestingCoins S generous_account 100 = Panic"
proof
  note b = dec_bitsD [OF S(1)]
  note ev = dec_exact chk_fits one_dec_def dec_of_int_def fixedPointDecimals_def
  obtain r where r: "nearest r 1000000000400000000000000000 one_dec"
    "dec_round S 1000000000400000000000000000 = chk (int_bits S) r" by (rule dec_roundE [OF S(1)])
  from r(1) have "r = 1000000000" by (simp add: nearest_def one_dec_def abs_if split: if_splits)
  with r(2) b have rd: "dec_round S 1000000000400000000000000000 = Ok 1000000000"
    by (simp add: chk_fits)
  then show V: "VestingSchedule_Validate S generous = Ok ()"
    using S(1) b by (simp add: VestingSchedule_Validate_def generous_def validate_step_def ev
        Schedule_Validate_def signed_divide_int_def)
  have g: "GetVestedRatio S generous 100 = Ok 1000000000400000000"
    using GetVestedRatio_exact [OF S(1) V, of 100]
    by (simp add: generous_def times_i64_def in_i64_def vested_total_def vested_part_def)
  have m: "dec_mul S (dec_of_int 10000000000) 1000000000400000000 = Ok 10000000004000000000000000000"
    by (rule dec_mul_exact [OF S(1)]) (simp_all add: dec_of_int_def one_dec_def)
  have rr: "dec_round S 10000000004000000000000000000 = Ok 10000000004"
    by (rule dec_round_exact [OF S(1)]) (simp_all add: one_dec_def)
  let ?v = "[\<lparr>coin_denom = MicroLunaDenom, coin_amount = 10000000004\<rparr>]"
  have "GetVestedCoins S generous_account 100 = Ok ?v"
    using g m rr S(2,3)
    by (simp add: GetVestedCoins_def generous_account_def NewLazyGradedVestingAccount_def
        vested_coin_step_def GetVestingSchedule_def generous_def new_coinI)
  moreover have "coins_sub S [\<lparr>coin_denom = MicroLunaDenom, coin_amount = 10000000000\<rparr>] ?v = Panic"
    by (rule coins_sub_Panic [OF S(2), of _ _ MicroLunaDenom]) (simp_all add: amt_Cons)
  ultimately show "GetVestingCoins S generous_account 100 = Panic"
    by (simp add: GetVestingCoins_def generous_account_def NewLazyGradedVestingAccount_def)
qed

theorem over_vesting_panics_witness:
  "VestingSchedule_Validate sdk_ref generous = Ok ()
   \<and> GetVestingCoins sdk_ref generous_account 100 = Panic"
  by (rule over_vesting_panics) (simp_all add: MicroLunaDenom_def)

end
