(* ===== verification/Snapshot.thy ===== *)
theory Snapshot
  imports SdkRef CoreTypes
begin

text \<open>
  The snapshot data of the genesis exporter: \<open>src/app/export/util/types.go\<close> (balances per address,
  merging, blacklists, conversion to bank balances), the balance helpers of
  \<open>util/export_util.go\<close>, \<open>util/contract_blacklist.go\<close> and \<open>native/contracts.go\<close>. An \<open>sdk.Int\<close> whose
  pointer may be nil is an \<open>int option\<close>; arithmetic on nil panics.
\<close>

type_synonym nint = "int option"
type_synonym balance_map = "(string, nint) gomap"

record snapshot_balance =
  sb_denom :: denom
  sb_balance :: nint

type_synonym snapshot = "(string, snapshot_balance list) gomap"
type_synonym blacklist = "(denom, string list) gomap"

text \<open>\<open>Int.Add\<close>, \<open>Int.Sub\<close> and \<open>Int.IsZero\<close> on values that may be nil.\<close>

fun nint_add :: "sdk \<Rightarrow> nint \<Rightarrow> nint \<Rightarrow> nint outcome" where
  "nint_add S (Some a) (Some b) = andThen (int_add S a b) (\<lambda>c. Ok (Some c))"
| "nint_add S _ _ = Panic"

fun nint_is_zero :: "nint \<Rightarrow> bool outcome" where
  "nint_is_zero (Some a) = Ok (a = 0)"
| "nint_is_zero None = Panic"


section \<open>Snapshots\<close>

abbreviation entries :: "snapshot \<Rightarrow> string \<Rightarrow> snapshot_balance list" where
  "entries \<equiv> go_get []"

definition AddInto :: "sdk \<Rightarrow> snapshot_balance \<Rightarrow> nint \<Rightarrow> snapshot_balance outcome" where
  "AddInto S b i = andThen (nint_add S (sb_balance b) i) (\<lambda>x. Ok (b\<lparr>sb_balance := x\<rparr>))"

definition RegisterAddress :: "denom \<Rightarrow> string \<Rightarrow> blacklist \<Rightarrow> blacklist" where
  "RegisterAddress d address bl = go_put d (go_get [] bl d @ [address]) bl"

definition GetAddressesByDenom :: "blacklist \<Rightarrow> denom \<Rightarrow> string list" where
  "GetAddressesByDenom bl d = go_get [] bl d"

definition GetAddressesByDenomMap :: "blacklist \<Rightarrow> denom \<Rightarrow> (string, bool) gomap" where
  "GetAddressesByDenomMap bl d = fold (\<lambda>address m. go_put address True m) (go_get [] bl d) []"

text \<open>The scan of \<open>AppendOrAddBalance\<close> over the entries of one address, appending at its end.\<close>

fun append_or_add :: "sdk \<Rightarrow> snapshot_balance \<Rightarrow> snapshot_balance list \<Rightarrow> snapshot_balance list outcome" where
  "append_or_add S nb [] = Ok [nb]"
| "append_or_add S nb (b # bs) =
    (if sb_denom b = sb_denom nb \<and> sb_balance nb \<noteq> None then
       (if sb_balance b = None then Ok (b\<lparr>sb_balance := sb_balance nb\<rparr> # bs)
        else andThen (nint_add S (sb_balance b) (sb_balance nb)) (\<lambda>x. Ok (b\<lparr>sb_balance := x\<rparr> # bs)))
     else andThen (append_or_add S nb bs) (\<lambda>bs'. Ok (b # bs')))"

definition AppendOrAddBalance ::
  "sdk \<Rightarrow> string \<Rightarrow> snapshot_balance \<Rightarrow> snapshot \<Rightarrow> snapshot outcome" where
  "AppendOrAddBalance S address nb s =
    andThen (append_or_add S nb (entries s address)) (\<lambda>bs. Ok (go_put address bs s))"

definition merge_account :: "sdk \<Rightarrow> string \<times> snapshot_balance list \<Rightarrow> snapshot \<Rightarrow> snapshot outcome" where
  "merge_account S p s3 = forEach (AppendOrAddBalance S (fst p)) (snd p) s3"

definition MergeSnapshots :: "sdk \<Rightarrow> snapshot list \<Rightarrow> snapshot outcome" where
  "MergeSnapshots S ss = forEach (forEach (merge_account S)) ss []"

definition GetAddrBalance :: "sdk \<Rightarrow> snapshot \<Rightarrow> string \<Rightarrow> denom \<Rightarrow> nint outcome" where
  "GetAddrBalance S s address d =
    forEach (\<lambda>b sum. if sb_denom b = d then nint_add S sum (sb_balance b) else Ok sum)
      (entries s address) (Some 0)"

definition sum_denom_step :: "sdk \<Rightarrow> denom \<Rightarrow> snapshot_balance \<Rightarrow> int \<Rightarrow> int outcome" where
  "sum_denom_step S d b acc =
    (case sb_balance b of
       Some v \<Rightarrow> if sb_denom b = d then int_add S acc v else Ok acc
     | None \<Rightarrow> Ok acc)"

definition SumOfDenom :: "sdk \<Rightarrow> snapshot \<Rightarrow> denom \<Rightarrow> int outcome" where
  "SumOfDenom S s d = forEach (\<lambda>p. forEach (sum_denom_step S d) (snd p)) s 0"

definition snapshot_Add :: "balance_map \<Rightarrow> denom \<Rightarrow> snapshot \<Rightarrow> snapshot" where
  "snapshot_Add balances d s =
    fold (\<lambda>(a, b) s. go_put a (entries s a @ [\<lparr>sb_denom = d, sb_balance = b\<rparr>]) s) balances s"

definition filter_step ::
  "sdk \<Rightarrow> denom \<Rightarrow> string \<Rightarrow> snapshot_balance \<Rightarrow> balance_map \<Rightarrow> balance_map outcome" where
  "filter_step S d w sb filtered =
    (if sb_denom sb = d \<and> sb_balance sb \<noteq> None then
       (if go_get None filtered w = None then Ok (go_put w (sb_balance sb) filtered)
        else andThen (nint_add S (go_get None filtered w) (sb_balance sb))
               (\<lambda>x. Ok (go_put w x filtered)))
     else Ok filtered)"

definition FilterByDenom :: "sdk \<Rightarrow> snapshot \<Rightarrow> denom \<Rightarrow> balance_map outcome" where
  "FilterByDenom S s d = forEach (\<lambda>(w, sbs). forEach (filter_step S d w) sbs) s []"

definition PickDenomIntoBalanceMap :: "snapshot \<Rightarrow> denom \<Rightarrow> balance_map" where
  "PickDenomIntoBalanceMap s d =
    fold (\<lambda>(address, holdings) v.
      fold (\<lambda>h v. if sb_denom h = d then go_put address (sb_balance h) v else v) holdings v) s []"

fun blacklist_entries :: "denom \<Rightarrow> snapshot_balance list \<Rightarrow> snapshot_balance list outcome" where
  "blacklist_entries d [] = Ok []"
| "blacklist_entries d (b # bs) =
    andThen
      (if sb_denom b = d
       then andThen (nint_is_zero (sb_balance b)) (\<lambda>z.
              Ok (if z then b else \<lparr>sb_denom = sb_denom b, sb_balance = Some 0\<rparr>))
       else Ok b) (\<lambda>b'.
    andThen (blacklist_entries d bs) (\<lambda>bs'. Ok (b' # bs')))"

text \<open>
  The entries are overwritten in place, so an address without entries stays out of the map.
\<close>

definition blacklist_addr :: "denom \<Rightarrow> string \<Rightarrow> snapshot \<Rightarrow> snapshot outcome" where
  "blacklist_addr d address s =
    andThen (blacklist_entries d (entries s address)) (\<lambda>bs.
    Ok (if address \<in> keys s then go_put address bs s else s))"

definition ApplyBlackList :: "blacklist \<Rightarrow> snapshot \<Rightarrow> snapshot outcome" where
  "ApplyBlackList bl s = forEach (\<lambda>(d, addrList). forEach (blacklist_addr d) addrList) bl s"

record bank_balance =
  bb_address :: string
  bb_coins :: "(denom \<times> nint) list"

definition ExportToBalances :: "sdk \<Rightarrow> snapshot \<Rightarrow> bank_balance list outcome" where
  "ExportToBalances S s =
    andThen (MergeSnapshots S [s]) (\<lambda>merged.
    Ok (map (\<lambda>(address, balances).
      \<lparr>bb_address = address, bb_coins = map (\<lambda>b. (sb_denom b, sb_balance b)) balances\<rparr>) merged))"


section \<open>Balance maps\<close>

definition merge_entry :: "sdk \<Rightarrow> string \<times> nint \<Rightarrow> balance_map \<Rightarrow> balance_map outcome" where
  "merge_entry S p newMap =
    andThen (nint_add S (case go_get None newMap (fst p) of None \<Rightarrow> Some 0 | x \<Rightarrow> x) (snd p))
      (\<lambda>x. Ok (go_put (fst p) x newMap))"

definition MergeMaps :: "sdk \<Rightarrow> balance_map \<Rightarrow> balance_map list \<Rightarrow> balance_map outcome" where
  "MergeMaps S m0 ms =
    forEach (forEach (merge_entry S)) ms (fold (\<lambda>(k, v) m. go_put k v m) m0 [])"

definition Sum :: "sdk \<Rightarrow> balance_map \<Rightarrow> int outcome" where
  "Sum S m = forEach (\<lambda>p sum. case snd p of Some v \<Rightarrow> int_add S sum v | None \<Rightarrow> Ok sum) m 0"

definition AlmostEqual :: "sdk \<Rightarrow> nint \<Rightarrow> nint \<Rightarrow> int \<Rightarrow> unit outcome" where
  "AlmostEqual S a b epsilon =
    (case (a, b) of
       (Some x, Some y) \<Rightarrow>
         andThen (int_sub S x y) (\<lambda>diff.
         andThen (if x = 0 then Ok one_dec else dec_quo_int S (dec_of_int diff) x) (\<lambda>pc.
         require (\<bar>diff\<bar> < epsilon) (ErrMsg ''difference'')))
     | _ \<Rightarrow> Err (ErrMsg ''inputs nil''))"

definition Xor :: "balance_map \<Rightarrow> balance_map \<Rightarrow> (string, nint list) gomap outcome" where
  "Xor b1 b2 =
    andThen (forEach (\<lambda>(k, v) b3.
      case go_get None b2 k of
        None \<Rightarrow> Ok (go_put k (go_get [] b3 k @ [v]) b3)
      | Some x \<Rightarrow> (case v of None \<Rightarrow> Panic
          | Some y \<Rightarrow> Ok (if x = y then b3 else go_put k (go_get [] b3 k @ [v]) b3))) b1 []) (\<lambda>b3.
    forEach (\<lambda>(k, v) b3.
      let differs = (let l = go_get [] b3 k; l' = (if l = [] then [None] else l)
                     in go_put k (l' @ [v]) b3) in
      case go_get None b1 k of
        None \<Rightarrow> Ok differs
      | Some x \<Rightarrow> (case v of None \<Rightarrow> Panic | Some y \<Rightarrow> Ok (if x = y then b3 else differs))) b2 b3)"

text \<open>The supply the bank keeper reports is an argument; the contract's reported supply likewise.\<close>

definition AssertCw20Supply :: "sdk \<Rightarrow> nint \<Rightarrow> balance_map \<Rightarrow> unit outcome" where
  "AssertCw20Supply S totalSupply holdings =
    andThen (Sum S holdings) (\<lambda>s. AlmostEqual S totalSupply (Some s) 2000000)"

definition AssertNativeSupply :: "sdk \<Rightarrow> int outcome \<Rightarrow> balance_map \<Rightarrow> unit outcome" where
  "AssertNativeSupply S supplyOf holdings =
    andThen supplyOf (\<lambda>supply.
    andThen (Sum S holdings) (\<lambda>s.
    andThen (AlmostEqual S (Some supply) (Some s) 2000000) (\<lambda>_. Panic)))"

definition AssertZeroSupply :: "sdk \<Rightarrow> snapshot \<Rightarrow> denom \<Rightarrow> unit outcome" where
  "AssertZeroSupply S s d =
    andThen (FilterByDenom S s d) (\<lambda>m. andThen (Sum S m) (\<lambda>total. if total = 0 then Ok () else Panic))"


section \<open>Contract storage prefixes\<close>

type_synonym byte = "8 word"

definition bytes_of :: "string \<Rightarrow> byte list" where
  "bytes_of s = map of_char s"

definition toByteArray :: "nat \<Rightarrow> byte list" where
  "toByteArray i = (let w = (of_nat i :: 32 word) in
    [ucast (drop_bit 24 w), ucast (drop_bit 16 w), ucast (drop_bit 8 w), ucast w])"

definition encodeLength :: "string \<Rightarrow> byte list" where
  "encodeLength key = (let b = toByteArray (length key) in [b ! 2, b ! 3])"

definition GeneratePrefix :: "string list \<Rightarrow> byte list" where
  "GeneratePrefix ks = fold (\<lambda>key prefix. prefix @ encodeLength key @ bytes_of key) ks []"


section \<open>Contract holdings\<close>

definition contractWhitelist :: "string list" where
  "contractWhitelist =
    [''terra10nmmwe8r3g99a9newtqa7a75xfgs2e8z87r2sf'',
     ''terra1gdxfmwcfyrqv8uenllqn7mh290v7dk7x5qnz03'',
     ''terra18hf7422vyyc447uh3wpzm50wzr54welhxlytfg'',
     ''terra1t74f2ahytt9uje3td2lnyv3fkay2jj2akj7ytv'',
     ''terra1qwzdua7928ugklpytdzhua92gnkxp9z4vhelq8'']"

definition RemoveContractBalances :: "(string, 'c) gomap \<Rightarrow> snapshot \<Rightarrow> snapshot" where
  "RemoveContractBalances contractMap s =
    fold (\<lambda>(contractAddress, _) s.
      if contractAddress \<in> set contractWhitelist then s else go_del contractAddress s) contractMap s"

definition SplitContractBalances :: "(string, 'c) gomap \<Rightarrow> snapshot \<Rightarrow> snapshot \<times> snapshot" where
  "SplitContractBalances contracts s =
    (let contractAdds = fold (\<lambda>(address, _) m. go_put address True m) contracts [] in
     fold (\<lambda>(address, bs) (user, contract).
       if go_get False contractAdds address then (user, go_put address bs contract)
       else (go_put address bs user, contract)) s ([], []))"

section \<open>What merging does\<close>

text \<open>
  The holdings a snapshot states: nil balances count as nothing, several entries of one denom add
  up. \<open>weight\<close> bounds every partial sum a merge can form.
\<close>

definition entry_val :: "denom \<Rightarrow> snapshot_balance \<Rightarrow> int" where
  "entry_val d b = (if sb_denom b = d then (case sb_balance b of Some v \<Rightarrow> v | None \<Rightarrow> 0) else 0)"

definition entry_sum :: "denom \<Rightarrow> snapshot_balance list \<Rightarrow> int" where
  "entry_sum d bs = (\<Sum>b\<leftarrow>bs. entry_val d b)"

definition holding :: "snapshot \<Rightarrow> string \<Rightarrow> denom \<Rightarrow> int" where
  "holding s a d = entry_sum d (entries s a)"

definition total_of :: "snapshot \<Rightarrow> denom \<Rightarrow> int" where
  "total_of s d = sum_map (entry_sum d) s"

definition entry_weight :: "snapshot_balance list \<Rightarrow> int" where
  "entry_weight bs = (\<Sum>b\<leftarrow>bs. case sb_balance b of Some v \<Rightarrow> \<bar>v\<bar> | None \<Rightarrow> 0)"

abbreviation weight :: "snapshot \<Rightarrow> int" where
  "weight \<equiv> sum_map entry_weight"

lemma entry_sum_simps [simp]:
  "entry_sum d [] = 0" "entry_sum d (b # bs) = entry_val d b + entry_sum d bs"
  "entry_sum d (bs @ cs) = entry_sum d bs + entry_sum d cs"
  by (simp_all add: entry_sum_def)

lemma entry_weight_simps [simp]:
  "entry_weight [] = 0"
  "entry_weight (b # bs) = (case sb_balance b of Some v \<Rightarrow> \<bar>v\<bar> | None \<Rightarrow> 0) + entry_weight bs"
  by (simp_all add: entry_weight_def)

lemma entry_weight_nonneg [simp]: "0 \<le> entry_weight bs"
  unfolding entry_weight_def by (intro sum_list_nonneg) (auto split: option.splits)

lemma weight_nonneg [simp]: "0 \<le> weight s"
  unfolding sum_map_def by (intro sum_list_nonneg) auto

lemma nint_add_Ok:
  assumes "dec_laws S"
  shows "nint_add S x y = Ok z \<longleftrightarrow>
    (\<exists>a b. x = Some a \<and> y = Some b \<and> z = Some (a + b) \<and> \<bar>a + b\<bar> < 2 ^ int_bits S)"
  using assms by (cases x; cases y) (auto simp: int_addI)

lemma append_or_add_sum:
  "dec_laws S \<Longrightarrow> append_or_add S nb bs = Ok bs' \<Longrightarrow> entry_sum d bs' = entry_sum d bs + entry_val d nb"
proof (induction bs arbitrary: bs')
  case (Cons b bs)
  then show ?case by (auto simp: entry_val_def nint_add_Ok split: if_splits option.splits)
qed auto

text \<open>Without nil balances the entries of an address stay one per denom.\<close>

definition collapsed :: "snapshot_balance list \<Rightarrow> bool" where
  "collapsed bs \<longleftrightarrow> distinct (map sb_denom bs) \<and> (\<forall>b\<in>set bs. sb_balance b \<noteq> None)"

lemma append_or_add_denoms:
  "append_or_add S nb bs = Ok bs' \<Longrightarrow> sb_denom ` set bs' = insert (sb_denom nb) (sb_denom ` set bs)"
proof (induction bs arbitrary: bs')
  case (Cons b bs)
  show ?case
  proof (cases "sb_denom b = sb_denom nb \<and> sb_balance nb \<noteq> None")
    case True
    with Cons.prems show ?thesis by (auto split: if_splits)
  next
    case False
    with Cons.prems obtain bs1 where "append_or_add S nb bs = Ok bs1" "bs' = b # bs1"
      by (auto split: if_splits)
    with Cons.IH show ?thesis by (simp add: insert_commute)
  qed
qed auto

lemma append_or_add_collapsed:
  "append_or_add S nb bs = Ok bs' \<Longrightarrow> sb_balance nb \<noteq> None \<Longrightarrow> collapsed bs \<Longrightarrow> collapsed bs'"
proof (induction bs arbitrary: bs')
  case Nil
  then show ?case by (auto simp: collapsed_def)
next
  case (Cons b bs)
  show ?case
  proof (cases "sb_denom b = sb_denom nb")
    case True
    with Cons.prems show ?thesis
      by (cases "sb_balance b"; cases "sb_balance nb") (auto simp: collapsed_def)
  next
    case False
    with Cons.prems obtain bs1 where bs1: "append_or_add S nb bs = Ok bs1" "bs' = b # bs1" by auto
    with Cons have "collapsed bs1" by (auto simp: collapsed_def)
    with bs1 False Cons.prems append_or_add_denoms [OF bs1(1)] show ?thesis
      by (auto simp: collapsed_def)
  qed
qed

lemma append_or_add_total:
  assumes S: "dec_laws S"
  shows "entry_weight bs + entry_weight [nb] < 2 ^ 255 \<Longrightarrow>
    \<exists>bs'. append_or_add S nb bs = Ok bs' \<and> entry_weight bs' \<le> entry_weight bs + entry_weight [nb]"
proof (induction bs)
  case Nil
  then show ?case by simp
next
  case (Cons b bs)
  note w = entry_weight_nonneg [of bs]
  show ?case
  proof (cases "sb_denom b = sb_denom nb \<and> sb_balance nb \<noteq> None")
    case True
    then obtain v where v: "sb_balance nb = Some v" by auto
    show ?thesis
    proof (cases "sb_balance b")
      case None
      with True v show ?thesis by simp
    next
      case (Some x)
      with Cons.prems v have "\<bar>x\<bar> + entry_weight bs + \<bar>v\<bar> < 2 ^ 255" by simp
      with w have "\<bar>x + v\<bar> < 2 ^ 255" by linarith
      with S have "int_add S x v = Ok (x + v)" by (simp add: int_addI chk_fits dec_bitsD)
      with True v Some show ?thesis by simp
    qed
  next
    case False
    have "entry_weight bs + entry_weight [nb] < 2 ^ 255"
      using Cons.prems by (auto split: option.splits)
    with Cons.IH obtain bs' where "append_or_add S nb bs = Ok bs'"
      "entry_weight bs' \<le> entry_weight bs + entry_weight [nb]" by blast
    with False show ?thesis by auto
  qed
qed

lemma AppendOrAddBalance_Ok:
  assumes S: "dec_laws S" and m: "go_map s" and a: "AppendOrAddBalance S a nb s = Ok s'"
  shows "go_map s'" "holding s' a' d = holding s a' d + (if a' = a then entry_val d nb else 0)"
    "total_of s' d = total_of s d + entry_val d nb"
proof -
  from a obtain bs where bs: "append_or_add S nb (entries s a) = Ok bs" "s' = go_put a bs s"
    by (auto simp: AppendOrAddBalance_def)
  with m show "go_map s'" by simp
  from append_or_add_sum [OF S bs(1), of d] bs(2)
  show "holding s' a' d = holding s a' d + (if a' = a then entry_val d nb else 0)"
    by (simp add: holding_def)
  from append_or_add_sum [OF S bs(1), of d] bs(2) sum_map_put [OF m, of "entry_sum d" "[]" a bs]
  show "total_of s' d = total_of s d + entry_val d nb" by (simp add: total_of_def)
qed

lemma AppendOrAddBalance_total:
  assumes S: "dec_laws S" and m: "go_map s" and w: "weight s + entry_weight [nb] < 2 ^ 255"
  shows "\<exists>s'. AppendOrAddBalance S a nb s = Ok s' \<and> go_map s' \<and> weight s' \<le> weight s + entry_weight [nb]"
proof -
  have le: "entry_weight (entries s a) \<le> weight s"
  proof -
    have "weight (go_put a [] s) = weight s - entry_weight (entries s a)"
      using sum_map_put [OF m, of entry_weight "[]" a "[]"] by simp
    with weight_nonneg [of "go_put a [] s"] show ?thesis by linarith
  qed
  with w append_or_add_total [OF S, of "entries s a" nb] obtain bs where
    bs: "append_or_add S nb (entries s a) = Ok bs"
      "entry_weight bs \<le> entry_weight (entries s a) + entry_weight [nb]" by fastforce
  with m sum_map_put [OF m, of entry_weight "[]" a bs] show ?thesis
    by (auto simp: AppendOrAddBalance_def)
qed


lemma merge_account_Ok:
  assumes S: "dec_laws S" and m: "go_map s" and a: "merge_account S p s = Ok s'"
  shows "go_map s'" "holding s' a' d = holding s a' d + (if a' = fst p then entry_sum d (snd p) else 0)"
    "total_of s' d = total_of s d + entry_sum d (snd p)"
proof -
  note one = AppendOrAddBalance_Ok [OF S]
  from a have l: "forEach (AppendOrAddBalance S (fst p)) (snd p) s = Ok s'"
    by (simp add: merge_account_def)
  have sum_if: "(\<Sum>x\<leftarrow>xs. if a' = fst p then entry_val d x else 0)
      = (if a' = fst p then entry_sum d xs else 0)" for xs
    by (simp add: entry_sum_def)
  have "go_map s' \<and> holding s' a' d = holding s a' d +
      (\<Sum>x\<leftarrow>snd p. if a' = fst p then entry_val d x else 0)"
    by (rule forEach_additive [OF l]) (use m one(1,2) in auto)
  then show "go_map s'"
    "holding s' a' d = holding s a' d + (if a' = fst p then entry_sum d (snd p) else 0)"
    by (auto simp: sum_if)
  have "go_map s' \<and> total_of s' d = total_of s d + (\<Sum>x\<leftarrow>snd p. entry_val d x)"
    by (rule forEach_additive [OF l]) (use m one(1,3) in auto)
  then show "total_of s' d = total_of s d + entry_sum d (snd p)" by (simp add: entry_sum_def)
qed

lemma merge_account_collapsed:
  assumes "forEach (AppendOrAddBalance S a) bs s = Ok s'"
    and "\<forall>b\<in>set bs. sb_balance b \<noteq> None" "\<forall>a. collapsed (entries s a)"
  shows "\<forall>a. collapsed (entries s' a)"
proof (rule forEach_invariant [where P = "\<lambda>s. \<forall>a. collapsed (entries s a)", OF assms(1,3)])
  fix nb u v assume nb: "nb \<in> set bs" and u: "\<forall>a. collapsed (entries u a)"
    and v: "AppendOrAddBalance S a nb u = Ok v"
  then obtain l where "append_or_add S nb (entries u a) = Ok l" "v = go_put a l u"
    by (auto simp: AppendOrAddBalance_def)
  with nb u assms(2) append_or_add_collapsed show "\<forall>a. collapsed (entries v a)" by auto
qed

lemma merge_account_total:
  assumes S: "dec_laws S" and "go_map s" and "weight s + entry_weight (snd p) < 2 ^ 255"
  shows "\<exists>s'. merge_account S p s = Ok s' \<and> go_map s' \<and> weight s' \<le> weight s + entry_weight (snd p)"
proof -
  have eq: "(\<Sum>b\<leftarrow>snd p. entry_weight [b]) = entry_weight (snd p)"
    by (simp add: entry_weight_def)
  have "\<exists>t. forEach (AppendOrAddBalance S (fst p)) (snd p) s = Ok t \<and> go_map t
      \<and> weight t \<le> weight s + (\<Sum>b\<leftarrow>snd p. entry_weight [b])"
  proof (rule forEach_weight)
    show "weight s + (\<Sum>b\<leftarrow>snd p. entry_weight [b]) \<le> 2 ^ 255 - 1"
      using assms(3) unfolding eq by linarith
    fix b u assume "go_map u" "weight u + entry_weight [b] \<le> 2 ^ 255 - 1"
    then show "\<exists>v. AppendOrAddBalance S (fst p) b u = Ok v \<and> go_map v
        \<and> weight v \<le> weight u + entry_weight [b]"
      by (intro AppendOrAddBalance_total [OF S]) linarith+
  qed (use assms(2) in \<open>auto split: option.splits\<close>)
  then show ?thesis unfolding merge_account_def eq .
qed

lemma merge_one_Ok:
  assumes S: "dec_laws S" and m: "go_map s3" "go_map s" and l: "forEach (merge_account S) s s3 = Ok t"
  shows "go_map t" "holding t a d = holding s3 a d + holding s a d" "total_of t d = total_of s3 d + total_of s d"
proof -
  note one = merge_account_Ok [OF S]
  have sum_if: "go_map s \<Longrightarrow> (\<Sum>p\<leftarrow>s. if a = fst p then entry_sum d (snd p) else 0) = holding s a d" for s
    by (induction s) (auto simp: holding_def go_get_Cons go_get_notin)
  have "go_map t \<and> holding t a d = holding s3 a d +
      (\<Sum>p\<leftarrow>s. if a = fst p then entry_sum d (snd p) else 0)"
    by (rule forEach_additive [OF l]) (use m one(1,2) in auto)
  then show "go_map t" "holding t a d = holding s3 a d + holding s a d" using sum_if m by auto
  have "go_map t \<and> total_of t d = total_of s3 d + (\<Sum>p\<leftarrow>s. entry_sum d (snd p))"
    by (rule forEach_additive [OF l]) (use m one(1,3) in auto)
  then show "total_of t d = total_of s3 d + total_of s d"
    by (simp add: total_of_def sum_map_def case_prod_unfold)
qed

lemma merge_one_total:
  assumes S: "dec_laws S" and "go_map s3" and "weight s3 + weight s < 2 ^ 255"
  shows "\<exists>t. forEach (merge_account S) s s3 = Ok t \<and> go_map t \<and> weight t \<le> weight s3 + weight s"
proof -
  have eq: "(\<Sum>p\<leftarrow>s. entry_weight (snd p)) = weight s"
    by (simp add: sum_map_def case_prod_unfold)
  have "\<exists>t. forEach (merge_account S) s s3 = Ok t \<and> go_map t
      \<and> weight t \<le> weight s3 + (\<Sum>p\<leftarrow>s. entry_weight (snd p))"
  proof (rule forEach_weight)
    show "weight s3 + (\<Sum>p\<leftarrow>s. entry_weight (snd p)) \<le> 2 ^ 255 - 1"
      using assms(3) unfolding eq by linarith
    fix p :: "string \<times> snapshot_balance list" and u
    assume "go_map u" "weight u + entry_weight (snd p) \<le> 2 ^ 255 - 1"
    then show "\<exists>v. merge_account S p u = Ok v \<and> go_map v \<and> weight v \<le> weight u + entry_weight (snd p)"
      by (intro merge_account_total [OF S]) linarith+
  qed (use assms(2) in auto)
  then show ?thesis by (simp add: eq)
qed

lemma MergeSnapshots_total:
  assumes S: "dec_laws S" and "(\<Sum>s\<leftarrow>ss. weight s) < 2 ^ 255"
  shows "\<exists>t. MergeSnapshots S ss = Ok t"
proof -
  have "\<exists>t. forEach (forEach (merge_account S)) ss [] = Ok t \<and> go_map t
      \<and> weight t \<le> weight [] + (\<Sum>s\<leftarrow>ss. weight s)"
  proof (rule forEach_weight)
    show "weight [] + (\<Sum>s\<leftarrow>ss. weight s) \<le> 2 ^ 255 - 1"
      using assms(2) unfolding sum_map_Nil by linarith
    fix s u assume "go_map u" "weight u + weight s \<le> 2 ^ 255 - 1"
    then show "\<exists>v. forEach (merge_account S) s u = Ok v \<and> go_map v \<and> weight v \<le> weight u + weight s"
      by (intro merge_one_total [OF S]) linarith+
  qed auto
  then show ?thesis by (auto simp: MergeSnapshots_def)
qed

lemma MergeSnapshots_holding:
  assumes S: "dec_laws S" and m: "\<forall>s\<in>set ss. go_map s" and l: "MergeSnapshots S ss = Ok t"
  shows "go_map t" "holding t a d = (\<Sum>s\<leftarrow>ss. holding s a d)" "total_of t d = (\<Sum>s\<leftarrow>ss. total_of s d)"
proof -
  from l have l: "forEach (forEach (merge_account S)) ss [] = Ok t" by (simp add: MergeSnapshots_def)
  have "go_map t \<and> holding t a d = holding [] a d + (\<Sum>s\<leftarrow>ss. holding s a d)"
  proof (rule forEach_additive [OF l])
    fix s u v assume "s \<in> set ss" "go_map u" "forEach (merge_account S) s u = Ok v"
    with m show "go_map v \<and> holding v a d = holding u a d + holding s a d"
      by (simp add: merge_one_Ok [OF S, of u s v])
  qed simp
  then show "go_map t" "holding t a d = (\<Sum>s\<leftarrow>ss. holding s a d)" by (auto simp: holding_def)
  have "go_map t \<and> total_of t d = total_of [] d + (\<Sum>s\<leftarrow>ss. total_of s d)"
  proof (rule forEach_additive [OF l])
    fix s u v assume "s \<in> set ss" "go_map u" "forEach (merge_account S) s u = Ok v"
    with m show "go_map v \<and> total_of v d = total_of u d + total_of s d"
      by (simp add: merge_one_Ok [OF S, of u s v])
  qed simp
  then show "total_of t d = (\<Sum>s\<leftarrow>ss. total_of s d)" by (simp add: total_of_def)
qed

definition no_nil :: "snapshot \<Rightarrow> bool" where
  "no_nil s \<longleftrightarrow> (\<forall>p\<in>set s. \<forall>b\<in>set (snd p). sb_balance b \<noteq> None)"

lemma MergeSnapshots_collapsed:
  assumes l: "MergeSnapshots S ss = Ok t" and nn: "\<forall>s\<in>set ss. no_nil s"
  shows "collapsed (entries t a)"
proof -
  from l have l: "forEach (forEach (merge_account S)) ss [] = Ok t" by (simp add: MergeSnapshots_def)
  have "\<forall>a. collapsed (entries t a)"
  proof (rule forEach_invariant [where P = "\<lambda>s. \<forall>a. collapsed (entries s a)", OF l])
    fix s u v assume s: "s \<in> set ss" and u: "\<forall>a. collapsed (entries u a)"
      and v: "forEach (merge_account S) s u = Ok v"
    show "\<forall>a. collapsed (entries v a)"
    proof (rule forEach_invariant [where P = "\<lambda>s. \<forall>a. collapsed (entries s a)", OF v u])
      fix p x y assume p: "p \<in> set s" and x: "\<forall>a. collapsed (entries x a)"
        and y: "merge_account S p x = Ok y"
      have "\<forall>b\<in>set (snd p). sb_balance b \<noteq> None" using s nn p by (simp add: no_nil_def)
      with y x show "\<forall>a. collapsed (entries y a)"
        unfolding merge_account_def by (rule_tac merge_account_collapsed)
    qed
  qed (simp add: collapsed_def)
  then show ?thesis by simp
qed

section \<open>Sums and filters\<close>

lemma sum_denom_step_Ok:
  "dec_laws S \<Longrightarrow> sum_denom_step S d b acc = Ok r \<Longrightarrow> r = acc + entry_val d b"
  by (auto simp: sum_denom_step_def entry_val_def int_addI split: option.splits if_splits)

lemma SumOfDenom_Ok:
  assumes S: "dec_laws S" and "SumOfDenom S s d = Ok r"
  shows "r = total_of s d"
proof -
  have inner: "v = u + entry_sum d bs" if "forEach (sum_denom_step S d) bs u = Ok v" for bs u v
    using forEach_additive [OF that, of "\<lambda>_. True" "\<lambda>x. x" "entry_val d"]
      sum_denom_step_Ok [OF S] by (simp add: entry_sum_def)
  from assms(2) have l: "forEach (\<lambda>p. forEach (sum_denom_step S d) (snd p)) s 0 = Ok r"
    by (simp add: SumOfDenom_def)
  show ?thesis
    using forEach_additive [OF l, of "\<lambda>_. True" "\<lambda>x. x" "\<lambda>p. entry_sum d (snd p)"] inner
    by (simp add: total_of_def sum_map_def case_prod_unfold)
qed

definition nval :: "nint \<Rightarrow> int" where
  "nval x = (case x of Some v \<Rightarrow> v | None \<Rightarrow> 0)"

lemma nval_simps [simp]: "nval None = 0" "nval (Some v) = v"
  by (simp_all add: nval_def)

lemma filter_step_Ok:
  assumes S: "dec_laws S" and m: "go_map f" and l: "filter_step S d w sb f = Ok f'"
  shows "go_map f'" "sum_map nval f' = sum_map nval f + entry_val d sb"
    "nval (go_get None f' a) = nval (go_get None f a) + (if a = w then entry_val d sb else 0)"
proof -
  let ?hit = "sb_denom sb = d \<and> sb_balance sb \<noteq> None"
  have miss: "f' = f" "entry_val d sb = 0" if "\<not> ?hit"
    using that l by (auto simp: filter_step_def entry_val_def)
  have hit: "\<exists>x. f' = go_put w x f \<and> nval x = nval (go_get None f w) + entry_val d sb" if "?hit"
    using that l S
    by (auto simp: filter_step_def entry_val_def nint_add_Ok split: if_splits)
  have put: "sum_map nval (go_put w x f) = sum_map nval f - nval (go_get None f w) + nval x" for x
    using sum_map_put [OF m, of nval None w x] by simp
  show "go_map f'" using miss hit m by (cases ?hit) auto
  show "sum_map nval f' = sum_map nval f + entry_val d sb" using miss hit put by (cases ?hit) auto
  show "nval (go_get None f' a) = nval (go_get None f a) + (if a = w then entry_val d sb else 0)"
    using miss hit by (cases ?hit) auto
qed

lemma filter_account_Ok:
  assumes S: "dec_laws S" and m: "go_map f" and l: "forEach (filter_step S d w) sbs f = Ok f'"
  shows "go_map f'" "sum_map nval f' = sum_map nval f + entry_sum d sbs"
    "nval (go_get None f' a) = nval (go_get None f a) + (if a = w then entry_sum d sbs else 0)"
proof -
  have "go_map f' \<and> sum_map nval f' = sum_map nval f + (\<Sum>b\<leftarrow>sbs. entry_val d b)"
  proof (rule forEach_additive [OF l])
    fix b u v assume "go_map u" "filter_step S d w b u = Ok v"
    then show "go_map v \<and> sum_map nval v = sum_map nval u + entry_val d b"
      by (simp add: filter_step_Ok [OF S, of u d w b v])
  qed (rule m)
  then show "go_map f'" "sum_map nval f' = sum_map nval f + entry_sum d sbs"
    by (auto simp: entry_sum_def)
  have "go_map f' \<and> nval (go_get None f' a) =
      nval (go_get None f a) + (\<Sum>b\<leftarrow>sbs. if a = w then entry_val d b else 0)"
  proof (rule forEach_additive [OF l])
    fix b u v assume "go_map u" "filter_step S d w b u = Ok v"
    then show "go_map v \<and> nval (go_get None v a) =
        nval (go_get None u a) + (if a = w then entry_val d b else 0)"
      by (simp add: filter_step_Ok [OF S, of u d w b v])
  qed (rule m)
  then show "nval (go_get None f' a) = nval (go_get None f a) + (if a = w then entry_sum d sbs else 0)"
    by (simp add: entry_sum_def)
qed

lemma sum_if_holding:
  "go_map s \<Longrightarrow> (\<Sum>p\<leftarrow>s. if a = fst p then entry_sum d (snd p) else 0) = holding s a d"
  by (induction s) (auto simp: holding_def go_get_Cons go_get_notin)

lemma FilterByDenom_Ok:
  assumes S: "dec_laws S" and m: "go_map s" and f: "FilterByDenom S s d = Ok f"
  shows "go_map f" "sum_map nval f = total_of s d" "nval (go_get None f a) = holding s a d"
proof -
  from f have l: "forEach (\<lambda>p. forEach (filter_step S d (fst p)) (snd p)) s [] = Ok f"
    by (simp add: FilterByDenom_def case_prod_unfold)
  have "go_map f \<and> sum_map nval f = sum_map nval ([] :: balance_map) + (\<Sum>p\<leftarrow>s. entry_sum d (snd p))"
  proof (rule forEach_additive [OF l])
    fix p u v assume "go_map u" "forEach (filter_step S d (fst p)) (snd p) u = Ok v"
    then show "go_map v \<and> sum_map nval v = sum_map nval u + entry_sum d (snd p)"
      by (simp add: filter_account_Ok [OF S, of u d "fst p" "snd p" v])
  qed simp
  then show "go_map f" "sum_map nval f = total_of s d"
    by (simp_all add: total_of_def sum_map_def case_prod_unfold)
  have "go_map f \<and> nval (go_get None f a) =
      nval (go_get None ([] :: balance_map) a) + (\<Sum>p\<leftarrow>s. if a = fst p then entry_sum d (snd p) else 0)"
  proof (rule forEach_additive [OF l])
    fix p u v assume "go_map u" "forEach (filter_step S d (fst p)) (snd p) u = Ok v"
    then show "go_map v \<and> nval (go_get None v a) =
        nval (go_get None u a) + (if a = fst p then entry_sum d (snd p) else 0)"
      by (simp add: filter_account_Ok [OF S, of u d "fst p" "snd p" v])
  qed simp
  then show "nval (go_get None f a) = holding s a d" by (simp add: sum_if_holding [OF m])
qed

lemma Sum_Ok: "dec_laws S \<Longrightarrow> Sum S m = Ok r \<Longrightarrow> r = sum_map nval m"
  unfolding Sum_def
  by (drule forEach_additive [of _ _ _ _ "\<lambda>_. True" "\<lambda>x. x" "\<lambda>p. nval (snd p)"])
    (auto simp: int_addI sum_map_def case_prod_unfold split: option.splits)

section \<open>Blacklists and contracts\<close>

lemma blacklist_entries_Ok:
  "blacklist_entries d bs = Ok bs' \<Longrightarrow> entry_sum e bs' = (if e = d then 0 else entry_sum e bs)"
proof (induction bs arbitrary: bs')
  case (Cons b bs)
  then show ?case
    by (cases "sb_balance b") (auto simp: entry_val_def split: if_splits)
qed auto

lemma blacklist_addr_Ok:
  assumes "blacklist_addr d x s = Ok s'"
  shows "holding s' a e = (if a = x \<and> e = d then 0 else holding s a e)" "keys s' = keys s"
proof -
  from assms obtain bs where bs: "blacklist_entries d (entries s x) = Ok bs"
    "s' = (if x \<in> keys s then go_put x bs s else s)" by (auto simp: blacklist_addr_def)
  have "entries s x = []" if "x \<notin> keys s" using that by (rule go_get_notin)
  with bs blacklist_entries_Ok [OF bs(1), of e]
  show "holding s' a e = (if a = x \<and> e = d then 0 else holding s a e)"
    by (auto simp: holding_def)
  from bs show "keys s' = keys s" by auto
qed

lemma blacklist_denom_Ok:
  "forEach (blacklist_addr d) xs s = Ok s' \<Longrightarrow>
    holding s' a e = (if a \<in> set xs \<and> e = d then 0 else holding s a e) \<and> keys s' = keys s"
proof (induction xs arbitrary: s)
  case (Cons x xs)
  then obtain u where u: "blacklist_addr d x s = Ok u" "forEach (blacklist_addr d) xs u = Ok s'" by auto
  from Cons.IH [OF u(2)] blacklist_addr_Ok [OF u(1)] show ?case by auto
qed simp

lemma ApplyBlackList_Ok:
  assumes "go_map bl" "ApplyBlackList bl s = Ok s'"
  shows "holding s' a e = (if a \<in> set (go_get [] bl e) then 0 else holding s a e)" "keys s' = keys s"
proof -
  have "holding s' a e = (if a \<in> set (go_get [] bl e) then 0 else holding s a e) \<and> keys s' = keys s"
    using assms
  proof (induction bl arbitrary: s)
    case Nil
    then show ?case by (simp add: ApplyBlackList_def)
  next
    case (Cons p bl)
    obtain d xs where p: "p = (d, xs)" by (cases p)
    with Cons.prems obtain u where u: "forEach (blacklist_addr d) xs s = Ok u"
      "ApplyBlackList bl u = Ok s'" by (auto simp: ApplyBlackList_def)
    have nil: "go_get [] bl d = []" using Cons.prems(1) p by (intro go_get_notin) auto
    from Cons.IH [OF _ u(2)] Cons.prems(1) blacklist_denom_Ok [OF u(1), of a e] nil p
    show ?case by (auto simp: go_get_Cons)
  qed
  then show "holding s' a e = (if a \<in> set (go_get [] bl e) then 0 else holding s a e)"
    "keys s' = keys s" by auto
qed

lemma RemoveContractBalances_entries:
  "go_get z (RemoveContractBalances cm s) a =
    (if a \<in> keys cm \<and> a \<notin> set contractWhitelist then z else go_get z s a)"
  unfolding RemoveContractBalances_def
  by (induction cm arbitrary: s) auto

lemma contractAdds_get:
  "go_get False (fold (\<lambda>(address, _) m. go_put address True m) cs m) a
    = (a \<in> keys cs \<or> go_get False m a)"
  by (induction cs arbitrary: m) (auto split: if_splits)

lemma SplitContractBalances_entries:
  assumes "go_map s" "SplitContractBalances cs s = (user, contract)"
  shows "go_get z user a = (if a \<in> keys cs then z else go_get z s a)"
    "go_get z contract a = (if a \<in> keys cs then go_get z s a else z)"
proof -
  let ?f = "\<lambda>(address, bs) (user, contract).
       if address \<in> keys cs then (user, go_put address bs contract)
       else (go_put address bs user, contract)"
  have "(\<lambda>(u, c). go_get z u a = (if a \<in> keys cs then go_get z (fst uc) a else
            (if a \<in> keys s then go_get z s a else go_get z (fst uc) a))
          \<and> go_get z c a = (if a \<in> keys cs \<and> a \<in> keys s then go_get z s a else go_get z (snd uc) a))
        (fold ?f s uc)" if "go_map s" for s uc
    using that
  proof (induction s arbitrary: uc)
    case (Cons p s)
    obtain b bs where p: "p = (b, bs)" by (cases p)
    obtain u c where uc: "uc = (u, c)" by (cases uc)
    from Cons show ?case unfolding p uc
      by (simp add: case_prod_unfold go_get_Cons go_get_notin)
  qed auto
  from this [OF assms(1), of "([], [])"] assms(2)
  show "go_get z user a = (if a \<in> keys cs then z else go_get z s a)"
    "go_get z contract a = (if a \<in> keys cs then go_get z s a else z)"
    by (auto simp: SplitContractBalances_def contractAdds_get go_get_notin Let_def split: if_splits)
qed

section \<open>Storage prefixes\<close>

lemma GeneratePrefix_Nil [simp]: "GeneratePrefix [] = []"
  by (simp add: GeneratePrefix_def)

lemma fold_append_concat: "fold (\<lambda>k p. p @ f k) ks acc = acc @ concat (map f ks)"
  by (induction ks arbitrary: acc) auto

lemma GeneratePrefix_Cons [simp]:
  "GeneratePrefix (k # ks) = encodeLength k @ bytes_of k @ GeneratePrefix ks"
  unfolding GeneratePrefix_def by (simp add: fold_append_concat)

lemma length_encodeLength [simp]: "length (encodeLength k) = 2"
  by (simp add: encodeLength_def Let_def)

lemma length_bytes_of [simp]: "length (bytes_of k) = length k"
  by (simp add: bytes_of_def)

lemma bytes_of_inj: "bytes_of a = bytes_of b \<longleftrightarrow> a = b"
proof -
  have code: "unat (of_char c :: byte) = of_char c" for c
  proof -
    have "unat (of_nat (of_char c) :: byte) = (of_char c :: nat) mod 2 ^ 8"
      by (simp add: unat_of_nat)
    moreover have "(of_char c :: nat) < 256" by simp
    moreover have "(of_char c :: byte) = of_nat (of_char c)" by (simp only: of_nat_of_char)
    ultimately show ?thesis by simp
  qed
  have "inj (of_char :: char \<Rightarrow> byte)"
  proof (rule injI)
    fix c d :: char assume "(of_char c :: byte) = of_char d"
    then have "(of_char c :: nat) = of_char d" by (simp only: code [symmetric])
    then show "c = d" by simp
  qed
  then show ?thesis by (simp add: bytes_of_def inj_map_eq_map)
qed

lemma encodeLength_inj:
  assumes "length a < 65536" "length b < 65536" "encodeLength a = encodeLength b"
  shows "length a = length b"
proof -
  have hi: "unat (ucast (drop_bit 8 (of_nat n :: 32 word)) :: byte) = n div 256"
    and lo: "unat (ucast (of_nat n :: 32 word) :: byte) = n mod 256" if "n < 65536" for n
  proof -
    have "unat (drop_bit 8 (of_nat n :: 32 word)) = n div 256"
      using that by (simp only: unat_drop_bit_eq) (simp add: drop_bit_eq_div unat_of_nat)
    with that show "unat (ucast (drop_bit 8 (of_nat n :: 32 word)) :: byte) = n div 256"
      by (simp only: unsigned_ucast_eq) (simp add: take_bit_eq_mod)
    from that show "unat (ucast (of_nat n :: 32 word) :: byte) = n mod 256"
      by (simp only: unsigned_ucast_eq) (simp add: take_bit_eq_mod unat_of_nat)
  qed
  from assms(3) have "length a div 256 = length b div 256" "length a mod 256 = length b mod 256"
    using hi [OF assms(1)] lo [OF assms(1)] hi [OF assms(2)] lo [OF assms(2)]
    by (simp_all add: encodeLength_def toByteArray_def Let_def)
  then show ?thesis by (metis div_mult_mod_eq)
qed

lemma GeneratePrefix_inj:
  assumes "\<forall>k\<in>set ks. length k < 65536" "\<forall>k\<in>set ks'. length k < 65536"
    and "GeneratePrefix ks = GeneratePrefix ks'"
  shows "ks = ks'"
  using assms
proof (induction ks arbitrary: ks')
  case Nil
  then show ?case by (cases ks') (auto simp: encodeLength_def Let_def)
next
  case (Cons k ks)
  then obtain l ls where ks': "ks' = l # ls"
    by (cases ks') (auto simp: encodeLength_def Let_def)
  with Cons.prems(3) have eq: "encodeLength k = encodeLength l"
      "bytes_of k @ GeneratePrefix ks = bytes_of l @ GeneratePrefix ls" by simp_all
  with Cons.prems ks' have "length k = length l" by (intro encodeLength_inj) auto
  with eq have bg: "bytes_of k = bytes_of l" "GeneratePrefix ks = GeneratePrefix ls" by simp_all
  have "ks = ls" using Cons.prems ks' bg(2) by (intro Cons.IH) auto
  with bg(1) ks' show ?case by (simp add: bytes_of_inj)
qed

section \<open>Comparing balances\<close>

lemma AlmostEqual_Ok:
  assumes S: "dec_laws S" and "\<bar>x\<bar> < 2 ^ 250" "\<bar>y\<bar> < 2 ^ 250"
  shows "AlmostEqual S (Some x) (Some y) e = Ok () \<longleftrightarrow> \<bar>x - y\<bar> < e"
    and "AlmostEqual S (Some x) (Some y) e \<noteq> Panic"
proof -
  have "\<bar>x - y\<bar> < 2 ^ 255" using assms(2,3) by (simp add: abs_if split: if_splits)
  then have "int_sub S x y = Ok (x - y)"
    using S dec_bitsD [OF S] by (simp add: int_subI chk_fits)
  then show "AlmostEqual S (Some x) (Some y) e = Ok () \<longleftrightarrow> \<bar>x - y\<bar> < e"
    "AlmostEqual S (Some x) (Some y) e \<noteq> Panic"
    using S by (auto simp: AlmostEqual_def dec_quo_intI andThen_Panic_iff)
qed

lemma merge_entry_Ok:
  assumes S: "dec_laws S" and m: "go_map u" and l: "merge_entry S p u = Ok v"
  shows "go_map v" "sum_map nval v = sum_map nval u + nval (snd p)"
    "nval (go_get None v a) = nval (go_get None u a) + (if a = fst p then nval (snd p) else 0)"
proof -
  from l S obtain x where x: "v = go_put (fst p) x u" "nval x = nval (go_get None u (fst p)) + nval (snd p)"
    by (auto simp: merge_entry_def nint_add_Ok split: option.splits)
  with m sum_map_put [OF m, of nval None "fst p" x]
  show "go_map v" "sum_map nval v = sum_map nval u + nval (snd p)"
    "nval (go_get None v a) = nval (go_get None u a) + (if a = fst p then nval (snd p) else 0)" by auto
qed

lemma merge_map_Ok:
  assumes S: "dec_laws S" and m: "go_map u" "go_map w" and l: "forEach (merge_entry S) w u = Ok v"
  shows "go_map v" "sum_map nval v = sum_map nval u + sum_map nval w"
    "nval (go_get None v a) = nval (go_get None u a) + nval (go_get None w a)"
proof -
  have "go_map v \<and> sum_map nval v = sum_map nval u + (\<Sum>p\<leftarrow>w. nval (snd p))"
  proof (rule forEach_additive [OF l])
    fix p x y assume "go_map x" "merge_entry S p x = Ok y"
    then show "go_map y \<and> sum_map nval y = sum_map nval x + nval (snd p)"
      by (simp add: merge_entry_Ok [OF S, of x p y])
  qed (rule m)
  then show "go_map v" "sum_map nval v = sum_map nval u + sum_map nval w"
    by (auto simp: sum_map_def case_prod_unfold)
  have pick: "go_map w \<Longrightarrow> (\<Sum>p\<leftarrow>w. if a = fst p then nval (snd p) else 0) = nval (go_get None w a)"
    for w :: balance_map
    by (induction w) (auto simp: go_get_Cons go_get_notin)
  have "go_map v \<and> nval (go_get None v a) =
      nval (go_get None u a) + (\<Sum>p\<leftarrow>w. if a = fst p then nval (snd p) else 0)"
  proof (rule forEach_additive [OF l])
    fix p x y assume "go_map x" "merge_entry S p x = Ok y"
    then show "go_map y \<and> nval (go_get None y a) =
        nval (go_get None x a) + (if a = fst p then nval (snd p) else 0)"
      by (simp add: merge_entry_Ok [OF S, of x p y])
  qed (rule m)
  then show "nval (go_get None v a) = nval (go_get None u a) + nval (go_get None w a)"
    using pick [OF m(2)] by simp
qed

lemma MergeMaps_Ok:
  assumes S: "dec_laws S" and m: "go_map m0" "\<forall>m\<in>set ms. go_map m" and l: "MergeMaps S m0 ms = Ok v"
  shows "go_map v" "sum_map nval v = sum_map nval m0 + (\<Sum>m\<leftarrow>ms. sum_map nval m)"
    "nval (go_get None v a) = nval (go_get None m0 a) + (\<Sum>m\<leftarrow>ms. nval (go_get None m a))"
proof -
  from l m(1) have l: "forEach (forEach (merge_entry S)) ms m0 = Ok v"
    by (simp add: MergeMaps_def copy_map)
  have "go_map v \<and> sum_map nval v = sum_map nval m0 + (\<Sum>m\<leftarrow>ms. sum_map nval m)"
  proof (rule forEach_additive [OF l])
    fix w x y assume "w \<in> set ms" "go_map x" "forEach (merge_entry S) w x = Ok y"
    with m(2) show "go_map y \<and> sum_map nval y = sum_map nval x + sum_map nval w"
      by (simp add: merge_map_Ok [OF S, of x w y])
  qed (rule m)
  then show "go_map v" "sum_map nval v = sum_map nval m0 + (\<Sum>m\<leftarrow>ms. sum_map nval m)" by auto
  have "go_map v \<and> nval (go_get None v a) =
      nval (go_get None m0 a) + (\<Sum>m\<leftarrow>ms. nval (go_get None m a))"
  proof (rule forEach_additive [OF l])
    fix w x y assume "w \<in> set ms" "go_map x" "forEach (merge_entry S) w x = Ok y"
    with m(2) show "go_map y \<and> nval (go_get None y a) = nval (go_get None x a) + nval (go_get None w a)"
      by (simp add: merge_map_Ok [OF S, of x w y])
  qed (rule m)
  then show "nval (go_get None v a) = nval (go_get None m0 a) + (\<Sum>m\<leftarrow>ms. nval (go_get None m a))"
    by simp
qed

section \<open>Properties\<close>

text \<open>
  C1: merging snapshots neither creates nor loses balances. When the balances fit, the merge
  returns; every address then holds of every denom the sum of what the parts give it, whatever
  order the maps are visited in, the total of every denom is the sum of the totals, and when no
  balance is nil each address has one entry per denom.
\<close>

theorem merge_conserves:
  assumes S: "dec_laws S" and m: "\<forall>s\<in>set ss. go_map s" and w: "(\<Sum>s\<leftarrow>ss. weight s) < 2 ^ 255"
  shows "\<exists>t. MergeSnapshots S ss = Ok t \<and> go_map t
    \<and> (\<forall>a d. holding t a d = (\<Sum>s\<leftarrow>ss. holding s a d))
    \<and> (\<forall>d. total_of t d = (\<Sum>s\<leftarrow>ss. total_of s d))
    \<and> ((\<forall>s\<in>set ss. no_nil s) \<longrightarrow> (\<forall>a. collapsed (entries t a)))"
proof -
  obtain t where t: "MergeSnapshots S ss = Ok t" using MergeSnapshots_total [OF S w] by blast
  then show ?thesis
    using MergeSnapshots_holding [OF S m t] MergeSnapshots_collapsed [OF t] by blast
qed

definition sample_a :: snapshot where
  "sample_a = [(''terra1x'', [\<lparr>sb_denom = ''uluna'', sb_balance = Some 5\<rparr>]),
     (''terra1y'', [\<lparr>sb_denom = ''uusd'', sb_balance = Some 7\<rparr>])]"

definition sample_b :: snapshot where
  "sample_b = [(''terra1y'', [\<lparr>sb_denom = ''uluna'', sb_balance = Some 1\<rparr>,
       \<lparr>sb_denom = ''uusd'', sb_balance = Some 2\<rparr>]),
     (''terra1x'', [\<lparr>sb_denom = ''uluna'', sb_balance = Some 10\<rparr>])]"

lemmas snapshot_eval = sample_a_def sample_b_def holding_def go_get_def entry_val_def total_of_def
  no_nil_def collapsed_def

theorem merge_conserves_witness:
  "\<exists>t. MergeSnapshots sdk_ref [sample_a, sample_b] = Ok t \<and> holding t ''terra1x'' ''uluna'' = 15
    \<and> holding t ''terra1y'' ''uusd'' = 9 \<and> total_of t ''uluna'' = 16
    \<and> collapsed (entries t ''terra1x'')"
  using merge_conserves [of sdk_ref "[sample_a, sample_b]"]
  by (auto simp: snapshot_eval)

text \<open>
  \<open>FilterByDenom\<close> keeps exactly the holdings of the denom: per address the balance is the
  address's holding, and summing the filtered map gives what \<open>SumOfDenom\<close> gives, the total of the
  snapshot. So \<open>AssertZeroSupply\<close> passes only on a snapshot whose total of the denom is zero.
\<close>

theorem filter_sums:
  assumes S: "dec_laws S" and m: "go_map s" and f: "FilterByDenom S s d = Ok f"
    and r: "Sum S f = Ok r" and q: "SumOfDenom S s d = Ok q"
  shows "nval (go_get None f a) = holding s a d \<and> r = q \<and> q = total_of s d
    \<and> AssertZeroSupply S s d = (if q = 0 then Ok () else Panic)"
  using FilterByDenom_Ok [OF S m f] Sum_Ok [OF S r] SumOfDenom_Ok [OF S q] f r
  by (auto simp: AssertZeroSupply_def)

theorem filter_sums_witness:
  "AssertZeroSupply sdk_ref sample_b ''uluna'' = Panic \<and> total_of sample_b ''uluna'' = 11"
proof -
  have f: "FilterByDenom sdk_ref sample_b ''uluna'' = Ok [(''terra1y'', Some 1), (''terra1x'', Some 10)]"
    by (simp add: FilterByDenom_def filter_step_def sample_b_def go_get_def)
  have r: "Sum sdk_ref [(''terra1y'', Some 1), (''terra1x'', Some 10)] = Ok 11"
    by (simp add: Sum_def chk_eval)
  have q: "SumOfDenom sdk_ref sample_b ''uluna'' = Ok 11"
    by (simp add: SumOfDenom_def sum_denom_step_def sample_b_def chk_eval)
  have m: "go_map sample_b" by (simp add: sample_b_def)
  show ?thesis using filter_sums [OF dec_laws_sdk_ref m f r q] by simp
qed

text \<open>
  C21: applying a blacklist removes exactly the blacklisted holdings: an address listed under a
  denom holds nothing of it afterwards, every other holding and the set of addresses stay.
\<close>

theorem blacklist_exact:
  assumes "go_map bl" "ApplyBlackList bl s = Ok s'"
  shows "holding s' a d = (if a \<in> set (GetAddressesByDenom bl d) then 0 else holding s a d)
    \<and> keys s' = keys s"
  using ApplyBlackList_Ok [OF assms] by (simp add: GetAddressesByDenom_def)

theorem blacklist_exact_witness:
  "\<exists>s'. ApplyBlackList [(''uluna'', [''terra1x'', ''terra1z''])] sample_b = Ok s'
    \<and> holding s' ''terra1x'' ''uluna'' = 0 \<and> holding s' ''terra1y'' ''uluna'' = 1"
proof -
  let ?bl = "[(''uluna'', [''terra1x'', ''terra1z''])]"
  have "\<exists>s'. ApplyBlackList ?bl sample_b = Ok s'"
    by (simp add: ApplyBlackList_def blacklist_addr_def sample_b_def go_get_def)
  then obtain s' where s': "ApplyBlackList ?bl sample_b = Ok s'" by blast
  then show ?thesis
    using blacklist_exact [of ?bl sample_b s' "''terra1x''" "''uluna''"]
      blacklist_exact [of ?bl sample_b s' "''terra1y''" "''uluna''"]
    by (auto simp: GetAddressesByDenom_def snapshot_eval)
qed

text \<open>
  after \<open>RemoveContractBalances\<close> no contract outside the bridge whitelist has an entry, and
  every user and every whitelisted contract keeps its entries.
\<close>

theorem contracts_removed:
  "entries (RemoveContractBalances contractMap s) a =
    (if a \<in> keys contractMap \<and> a \<notin> set contractWhitelist then [] else entries s a)"
  by (rule RemoveContractBalances_entries)

text \<open>
  \<open>SplitContractBalances\<close> partitions the snapshot by address, so each denom's holdings are split
  without loss.
\<close>

theorem split_partitions:
  assumes "go_map s" "SplitContractBalances contracts s = (user, contract)"
  shows "holding user a d + holding contract a d = holding s a d
    \<and> (if a \<in> keys contracts then entries user a = [] else entries contract a = [])"
  using SplitContractBalances_entries [OF assms, of "[]" a] by (simp add: holding_def)

theorem split_partitions_witness:
  "\<exists>user contract. SplitContractBalances [(''terra1y'', ())] sample_b = (user, contract)
    \<and> holding user ''terra1y'' ''uusd'' + holding contract ''terra1y'' ''uusd'' = 2
    \<and> entries user ''terra1y'' = []"
proof -
  obtain u c where uc: "SplitContractBalances [(''terra1y'', ())] sample_b = (u, c)"
    by (cases "SplitContractBalances [(''terra1y'', ())] sample_b")
  moreover have "go_map sample_b" by (simp add: sample_b_def)
  ultimately show ?thesis
    using split_partitions [of sample_b "[(''terra1y'', ())]" u c "''terra1y''" "''uusd''"]
    by (auto simp: snapshot_eval)
qed

text \<open>
  the storage prefix of a list of namespaces determines the list, as long as every namespace
  is shorter than the 65536 bytes its two length bytes can express.
\<close>

theorem prefix_injective:
  assumes "\<forall>k\<in>set ks. length k < 65536" "\<forall>k\<in>set ks'. length k < 65536"
  shows "GeneratePrefix ks = GeneratePrefix ks' \<longleftrightarrow> ks = ks'"
  using GeneratePrefix_inj [OF assms] by blast

theorem prefix_injective_witness:
  "GeneratePrefix [''ab'', ''c''] \<noteq> GeneratePrefix [''a'', ''bc'']
   \<and> GeneratePrefix [''balance''] = [0, 7, 98, 97, 108, 97, 110, 99, 101]"
proof
  show "GeneratePrefix [''ab'', ''c''] \<noteq> GeneratePrefix [''a'', ''bc'']"
    by (subst prefix_injective) simp_all
  show "GeneratePrefix [''balance''] = [0, 7, 98, 97, 108, 97, 110, 99, 101]"
    by (simp add: encodeLength_def toByteArray_def bytes_of_def of_char_def)
qed

text \<open>
  C30: \<open>AssertNativeSupply\<close> never reports success. When the supply matches the holdings up to the
  tolerance it panics with "denom not found", and only a mismatch of two million units or more is
  returned as an error.
\<close>

theorem native_supply_check_panics:
  assumes S: "dec_laws S" and r: "Sum S holdings = Ok r" and "\<bar>supply\<bar> < 2 ^ 250" "\<bar>r\<bar> < 2 ^ 250"
  shows "AssertNativeSupply S (Ok supply) holdings \<noteq> Ok ()
    \<and> (AssertNativeSupply S (Ok supply) holdings = Panic \<longleftrightarrow> \<bar>supply - r\<bar> < 2000000)"
  using AlmostEqual_Ok [OF S assms(3,4), of 2000000] r
  by (auto simp: AssertNativeSupply_def andThen_Panic_iff)

theorem native_supply_check_panics_witness:
  "AssertNativeSupply sdk_ref (Ok 11) [(''terra1y'', Some 1), (''terra1x'', Some 10)] = Panic"
  using native_supply_check_panics [of sdk_ref "[(''terra1y'', Some 1), (''terra1x'', Some 10)]" 11 11]
  by (simp add: Sum_def chk_eval)

text \<open>
  Merging balance maps adds them up, per address and in total.
\<close>

theorem merge_maps_adds:
  assumes "dec_laws S" "go_map m0" "\<forall>m\<in>set ms. go_map m" "MergeMaps S m0 ms = Ok v"
  shows "nval (go_get None v a) = nval (go_get None m0 a) + (\<Sum>m\<leftarrow>ms. nval (go_get None m a))
    \<and> sum_map nval v = sum_map nval m0 + (\<Sum>m\<leftarrow>ms. sum_map nval m)"
  using MergeMaps_Ok [OF assms] by blast

theorem merge_maps_adds_witness:
  "\<exists>v. MergeMaps sdk_ref [(''a'', Some 1), (''b'', None)] [[(''b'', Some 4), (''a'', Some 2)]] = Ok v
    \<and> nval (go_get None v ''a'') = 3 \<and> sum_map nval v = 7"
proof -
  let ?m0 = "[(''a'', Some 1), (''b'', None)] :: balance_map"
    and ?ms = "[[(''b'', Some 4), (''a'', Some 2)]] :: balance_map list"
  have "\<exists>v. MergeMaps sdk_ref ?m0 ?ms = Ok v"
    by (simp add: MergeMaps_def merge_entry_def go_get_def chk_eval)
  then obtain v where "MergeMaps sdk_ref ?m0 ?ms = Ok v" by blast
  then show ?thesis
    using merge_maps_adds [of sdk_ref ?m0 ?ms v "''a''"] by (auto simp: go_get_def)
qed

end
