(* ===== verification/OracleBallot.thy ===== *)
theory OracleBallot
  imports SdkRef CoreTypes
begin

text \<open>
  Ballots and their tally: \<open>src/x/oracle/types/ballot.go\<close> (votes, power, weighted median, cross
  rates, standard deviation, claims) and \<open>src/x/oracle/tally.go\<close> (reward band, threshold, choice of
  the reference denom). \<open>sort.Sort\<close> is modelled by the stable sort on the rate, which is one of the
  orders it may produce; the median theorems hold for every sorted order.
\<close>

record vote_for_tally =
  v_denom :: denom
  v_rate :: dec
  v_voter :: addr
  v_power :: int

record claim =
  c_power :: int
  c_weight :: int
  c_wins :: int
  c_recipient :: addr

type_synonym ballot = "vote_for_tally list"
type_synonym claims = "(string, claim) gomap"

definition NewVoteForTally :: "dec \<Rightarrow> denom \<Rightarrow> addr \<Rightarrow> int \<Rightarrow> vote_for_tally" where
  "NewVoteForTally rate d voter pw =
    \<lparr>v_denom = d, v_rate = rate, v_voter = voter, v_power = pw\<rparr>"

definition NewClaim :: "int \<Rightarrow> int \<Rightarrow> int \<Rightarrow> addr \<Rightarrow> claim" where
  "NewClaim pw weight winCount recipient =
    \<lparr>c_power = pw, c_weight = weight, c_wins = winCount, c_recipient = recipient\<rparr>"

text \<open>The zero value of a claim, which Go returns for a missing key.\<close>

definition no_claim :: claim where
  "no_claim = \<lparr>c_power = 0, c_weight = 0, c_wins = 0, c_recipient = []\<rparr>"


section \<open>Ballots\<close>

definition ToMap :: "ballot \<Rightarrow> (addr, dec) gomap" where
  "ToMap pb = fold (\<lambda>vote m. if 0 < v_rate vote then go_put (v_voter vote) (v_rate vote) m else m) pb []"

definition cross_vote :: "sdk \<Rightarrow> (addr, dec) gomap \<Rightarrow> vote_for_tally \<Rightarrow> vote_for_tally outcome" where
  "cross_vote S bases vote =
    (case map_of bases (v_voter vote) of
       Some exchangeRateRT \<Rightarrow>
         if 0 < v_rate vote
         then andThen (dec_quo S exchangeRateRT (v_rate vote)) (\<lambda>r. Ok (vote\<lparr>v_rate := r\<rparr>))
         else Ok (vote\<lparr>v_rate := 0, v_power := 0\<rparr>)
     | None \<Rightarrow> Ok (vote\<lparr>v_rate := 0, v_power := 0\<rparr>))"

definition ToCrossRate :: "sdk \<Rightarrow> (addr, dec) gomap \<Rightarrow> ballot \<Rightarrow> ballot outcome" where
  "ToCrossRate S bases pb =
    forEach (\<lambda>vote cb. andThen (cross_vote S bases vote) (\<lambda>v. Ok (cb @ [v]))) pb []"

definition sort_ballot :: "ballot \<Rightarrow> ballot" where
  "sort_ballot pb = sort_key v_rate pb"

definition ToCrossRateWithSort :: "sdk \<Rightarrow> (addr, dec) gomap \<Rightarrow> ballot \<Rightarrow> ballot outcome" where
  "ToCrossRateWithSort S bases pb =
    andThen (forEach (\<lambda>vote cb. andThen (cross_vote S bases vote) (\<lambda>v. Ok (cb @ [v]))) pb [])
      (\<lambda>cb. Ok (sort_ballot cb))"

definition Power :: "ballot \<Rightarrow> int" where
  "Power pb = fold (\<lambda>vote totalPower. i64 (totalPower + v_power vote)) pb 0"

fun median_loop :: "int \<Rightarrow> int \<Rightarrow> ballot \<Rightarrow> dec" where
  "median_loop half pivot [] = 0"
| "median_loop half pivot (v # vs) =
    (let pivot' = i64 (pivot + v_power v) in
     if half \<le> pivot' then v_rate v else median_loop half pivot' vs)"

definition WeightedMedian :: "ballot \<Rightarrow> dec" where
  "WeightedMedian pb = median_loop (Power pb sdiv 2) 0 pb"

definition WeightedMedianWithAssertion :: "ballot \<Rightarrow> dec outcome" where
  "WeightedMedianWithAssertion pb =
    (if \<not> sorted (map v_rate pb) then Panic else Ok (median_loop (Power pb sdiv 2) 0 pb))"

text \<open>A panic of the decimal arithmetic is recovered and gives zero.\<close>

definition StandardDeviation :: "sdk \<Rightarrow> ballot \<Rightarrow> dec \<Rightarrow> dec" where
  "StandardDeviation S pb median =
    (if pb = [] then 0
     else case
       andThen (forEach (\<lambda>v sum.
           andThen (dec_sub S (v_rate v) median) (\<lambda>deviation.
           andThen (dec_mul S deviation deviation) (\<lambda>sq.
           dec_add S sum sq))) pb 0) (\<lambda>sum.
         dec_quo_int S sum (int (length pb))) of
       Ok variance \<Rightarrow> float_sqrt S variance
     | _ \<Rightarrow> 0)"


section \<open>Tally\<close>

text \<open>Before these heights the median is taken without the sortedness check.\<close>

definition before_sort_fork :: "ctx \<Rightarrow> bool" where
  "before_sort_fork c \<longleftrightarrow>
    ctx_chain c = ColumbusChainID \<and> ctx_height c < 5701000
    \<or> ctx_chain c = BombayChainID \<and> ctx_height c < 7000000"

definition fork_median :: "ctx \<Rightarrow> ballot \<Rightarrow> dec outcome" where
  "fork_median c pb = (if before_sort_fork c then Ok (WeightedMedian pb) else WeightedMedianWithAssertion pb)"

definition is_winner :: "sdk \<Rightarrow> dec \<Rightarrow> dec \<Rightarrow> vote_for_tally \<Rightarrow> bool outcome" where
  "is_winner S weightedMedian rewardSpread vote =
    andThen (dec_sub S weightedMedian rewardSpread) (\<lambda>lo.
    andThen (if lo \<le> v_rate vote
             then andThen (dec_add S weightedMedian rewardSpread) (\<lambda>hi. Ok (v_rate vote \<le> hi))
             else Ok False) (\<lambda>inBand.
    Ok (inBand \<or> \<not> 0 < v_rate vote)))"

definition add_win :: "sdk \<Rightarrow> vote_for_tally \<Rightarrow> claims \<Rightarrow> claims" where
  "add_win S vote m =
    (let key = val_bech32 S (v_voter vote); c = go_get no_claim m key
     in go_put key (c\<lparr>c_weight := i64 (c_weight c + v_power vote), c_wins := i64 (c_wins c + 1)\<rparr>) m)"

definition Tally :: "sdk \<Rightarrow> ctx \<Rightarrow> ballot \<Rightarrow> dec \<Rightarrow> claims \<Rightarrow> (dec \<times> claims) outcome" where
  "Tally S c pb rewardBand validatorClaimMap =
    andThen (fork_median c pb) (\<lambda>weightedMedian.
    let standardDeviation = StandardDeviation S pb weightedMedian in
    andThen (dec_quo_int S rewardBand 2) (\<lambda>half.
    andThen (dec_mul S weightedMedian half) (\<lambda>spread.
    let rewardSpread = (if spread < standardDeviation then standardDeviation else spread) in
    andThen (forEach (\<lambda>vote m.
        andThen (is_winner S weightedMedian rewardSpread vote) (\<lambda>w.
        Ok (if w then add_win S vote m else m))) pb validatorClaimMap) (\<lambda>m.
    Ok (weightedMedian, m)))))"

definition ballotIsPassing :: "ballot \<Rightarrow> int \<Rightarrow> int \<times> bool" where
  "ballotIsPassing pb thresholdVotes =
    (let ballotPower = Power pb in (ballotPower, ballotPower \<noteq> 0 \<and> thresholdVotes \<le> ballotPower))"

record pick_state =
  pk_targets :: "(denom, dec) gomap"
  pk_votes :: "(denom, ballot) gomap"
  pk_largest :: int
  pk_reference :: denom

definition pick_step :: "int \<Rightarrow> denom \<times> ballot \<Rightarrow> pick_state \<Rightarrow> pick_state" where
  "pick_step thresholdVotes p s =
    (let d = fst p; pb = snd p in
     if d \<notin> keys (pk_targets s) then s\<lparr>pk_votes := go_del d (pk_votes s)\<rparr>
     else let (ballotPower, ok) = ballotIsPassing pb thresholdVotes in
       if \<not> ok then s\<lparr>pk_targets := go_del d (pk_targets s), pk_votes := go_del d (pk_votes s)\<rparr>
       else if pk_largest s < ballotPower \<or> pk_largest s = 0
         then s\<lparr>pk_reference := d, pk_largest := ballotPower\<rparr>
       else if pk_largest s = ballotPower \<and> d < pk_reference s
         then s\<lparr>pk_reference := d\<rparr>
       else s)"

text \<open>
  \<open>TokensToConsensusPower\<close> of the bonded tokens is the argument \<open>totalBondedPower\<close>. The maps the
  function deletes from are returned with the reference denom, which is empty when no ballot
  passes.
\<close>

definition PickReferenceTerra ::
  "sdk \<Rightarrow> dec \<Rightarrow> int \<Rightarrow> (denom, dec) gomap \<Rightarrow> (denom, ballot) gomap \<Rightarrow> pick_state outcome" where
  "PickReferenceTerra S voteThreshold totalBondedPower voteTargets voteMap =
    andThen (dec_mul_int S voteThreshold totalBondedPower) (\<lambda>t.
    andThen (dec_round S t) (\<lambda>thresholdVotes.
    Ok (fold (pick_step thresholdVotes) voteMap
      \<lparr>pk_targets = voteTargets, pk_votes = voteMap, pk_largest = 0, pk_reference = []\<rparr>)))"

section \<open>The weighted median\<close>

text \<open>
  The abstract median: \<open>power_upto pb r\<close> is the power of the votes with a rate of at most \<open>r\<close>. A
  well-formed ballot has non-negative powers whose sum is an \<open>int64\<close>.
\<close>

definition total_power :: "ballot \<Rightarrow> int" where
  "total_power pb = (\<Sum>v\<leftarrow>pb. v_power v)"

definition power_upto :: "ballot \<Rightarrow> dec \<Rightarrow> int" where
  "power_upto pb r = (\<Sum>v\<leftarrow>pb. if v_rate v \<le> r then v_power v else 0)"

definition ballot_wf :: "ballot \<Rightarrow> bool" where
  "ballot_wf pb \<longleftrightarrow> (\<forall>v\<in>set pb. 0 \<le> v_power v) \<and> total_power pb < 2 ^ 63"

lemma total_power_simps [simp]:
  "total_power [] = 0" "total_power (v # vs) = v_power v + total_power vs"
  "total_power (vs @ ws) = total_power vs + total_power ws"
  by (simp_all add: total_power_def)

lemma power_upto_simps [simp]:
  "power_upto [] r = 0"
  "power_upto (v # vs) r = (if v_rate v \<le> r then v_power v else 0) + power_upto vs r"
  "power_upto (vs @ ws) r = power_upto vs r + power_upto ws r"
  by (simp_all add: power_upto_def)

lemma ballot_wf_Cons: "ballot_wf (v # vs) \<Longrightarrow> ballot_wf vs"
  by (auto simp: ballot_wf_def)

lemma total_power_nonneg: "\<forall>v\<in>set pb. 0 \<le> v_power v \<Longrightarrow> 0 \<le> total_power pb"
  unfolding total_power_def by (intro sum_list_nonneg) auto

lemma power_upto_nonneg: "\<forall>v\<in>set pb. 0 \<le> v_power v \<Longrightarrow> 0 \<le> power_upto pb r"
  unfolding power_upto_def by (intro sum_list_nonneg) auto

lemma power_upto_le: "\<forall>v\<in>set pb. 0 \<le> v_power v \<Longrightarrow> power_upto pb r \<le> total_power pb"
  unfolding power_upto_def total_power_def by (intro sum_list_mono) auto

lemma power_upto_zero: "\<forall>v\<in>set pb. v_rate v \<le> r \<longrightarrow> v_power v = 0 \<Longrightarrow> power_upto pb r = 0"
  by (induction pb) auto

lemma total_power_mset: "mset pb = mset pb' \<Longrightarrow> total_power pb = total_power pb'"
  unfolding total_power_def by (simp flip: sum_mset_sum_list)

lemma power_upto_mset: "mset pb = mset pb' \<Longrightarrow> power_upto pb r = power_upto pb' r"
  unfolding power_upto_def by (simp flip: sum_mset_sum_list)

lemma ballot_wf_mset: "mset pb = mset pb' \<Longrightarrow> ballot_wf pb = ballot_wf pb'"
  using mset_eq_setD [of pb pb'] total_power_mset [of pb pb'] by (simp add: ballot_wf_def)

lemma fold_power:
  "\<forall>v\<in>set pb. 0 \<le> v_power v \<Longrightarrow> 0 \<le> acc \<Longrightarrow> acc + total_power pb < 2 ^ 63 \<Longrightarrow>
    fold (\<lambda>vote t. i64 (t + v_power vote)) pb acc = acc + total_power pb"
proof (induction pb arbitrary: acc)
  case (Cons v pb)
  from Cons.prems have "0 \<le> total_power pb" by (intro total_power_nonneg) auto
  with Cons.prems have "in_i64 (acc + v_power v)" by (simp add: in_i64_def)
  with Cons show ?case by (simp add: add.assoc)
qed simp

lemma Power_total: "ballot_wf pb \<Longrightarrow> Power pb = total_power pb"
  using fold_power [of pb 0] by (simp add: Power_def ballot_wf_def)

text \<open>
  The loop over a suffix of the ballot: the votes before it have power \<open>pivot\<close>, below the half.
\<close>

lemma median_loop_split:
  assumes "\<forall>v\<in>set vs. 0 \<le> v_power v" "0 \<le> pivot" "pivot + total_power vs < 2 ^ 63"
    and "half \<le> pivot + total_power vs" "vs \<noteq> []"
  shows "\<exists>as v bs. vs = as @ v # bs \<and> median_loop half pivot vs = v_rate v
    \<and> half \<le> pivot + total_power as + v_power v \<and> (as \<noteq> [] \<longrightarrow> pivot + total_power as < half)"
  using assms
proof (induction vs arbitrary: pivot)
  case (Cons v vs)
  have "0 \<le> total_power vs" using Cons.prems(1) by (intro total_power_nonneg) auto
  with Cons.prems have i: "i64 (pivot + v_power v) = pivot + v_power v"
    by (simp add: in_i64_def)
  show ?case
  proof (cases "half \<le> pivot + v_power v")
    case True
    with i show ?thesis by (intro exI [of _ "[]"] exI [of _ v] exI [of _ vs]) simp
  next
    case False
    with Cons.prems have "vs \<noteq> []" by auto
    with Cons.prems False have "\<exists>as w bs. vs = as @ w # bs
        \<and> median_loop half (pivot + v_power v) vs = v_rate w
        \<and> half \<le> pivot + v_power v + total_power as + v_power w
        \<and> (as \<noteq> [] \<longrightarrow> pivot + v_power v + total_power as < half)"
      by (intro Cons.IH) auto
    then obtain as w bs where w: "vs = as @ w # bs"
      "median_loop half (pivot + v_power v) vs = v_rate w"
      "half \<le> pivot + v_power v + total_power as + v_power w"
      "as \<noteq> [] \<longrightarrow> pivot + v_power v + total_power as < half" by blast
    with False i show ?thesis
      by (intro exI [of _ "v # as"] exI [of _ w] exI [of _ bs]) (cases as; simp add: add.assoc)
  qed
qed simp

lemma power_upto_sorted_prefix:
  assumes "sorted (map v_rate (as @ v # bs))" "\<forall>w\<in>set (as @ v # bs). 0 \<le> v_power w"
  shows "total_power as + v_power v \<le> power_upto (as @ v # bs) (v_rate v)"
    and "r < v_rate v \<Longrightarrow> power_upto (as @ v # bs) r \<le> total_power as"
proof -
  have le: "\<forall>w\<in>set as. v_rate w \<le> v_rate v" and ge: "\<forall>w\<in>set bs. v_rate v \<le> v_rate w"
    using assms(1) by (auto simp: sorted_append)
  have "power_upto as (v_rate v) = total_power as"
    unfolding power_upto_def total_power_def using le
    by (intro arg_cong [where f = sum_list] map_cong) auto
  moreover have "0 \<le> power_upto bs (v_rate v)" using assms(2) by (intro power_upto_nonneg) auto
  ultimately show "total_power as + v_power v \<le> power_upto (as @ v # bs) (v_rate v)" by simp
  assume r: "r < v_rate v"
  have "power_upto bs r = 0"
    using ge r by (intro power_upto_zero) auto
  moreover have "power_upto as r \<le> total_power as" using assms(2) by (intro power_upto_le) auto
  ultimately show "power_upto (as @ v # bs) r \<le> total_power as" using r by simp
qed

text \<open>The median is the least rate of the ballot up to which at least half the power voted.\<close>

definition is_median :: "ballot \<Rightarrow> dec \<Rightarrow> bool" where
  "is_median pb m \<longleftrightarrow> m \<in> v_rate ` set pb \<and> total_power pb div 2 \<le> power_upto pb m
    \<and> (\<forall>r\<in>v_rate ` set pb. r < m \<longrightarrow> power_upto pb r < total_power pb div 2)"

lemma is_median_unique: "is_median pb m \<Longrightarrow> is_median pb m' \<Longrightarrow> m = m'"
  unfolding is_median_def by (metis linorder_neqE not_le)

lemma WeightedMedian_is_median:
  assumes wf: "ballot_wf pb" and ne: "pb \<noteq> []" and srt: "sorted (map v_rate pb)"
  shows "is_median pb (WeightedMedian pb)"
proof -
  let ?h = "total_power pb div 2"
  have nn: "\<forall>v\<in>set pb. 0 \<le> v_power v" using wf by (simp add: ballot_wf_def)
  have t0: "0 \<le> total_power pb" by (rule total_power_nonneg [OF nn])
  have half: "Power pb sdiv 2 = ?h" using wf t0 by (simp add: Power_total sdiv_nonneg)
  have "\<exists>as v bs. pb = as @ v # bs \<and> median_loop ?h 0 pb = v_rate v
    \<and> ?h \<le> 0 + total_power as + v_power v \<and> (as \<noteq> [] \<longrightarrow> 0 + total_power as < ?h)"
    using wf ne nn t0 by (intro median_loop_split) (auto simp: ballot_wf_def)
  then obtain as v bs where s: "pb = as @ v # bs" and m: "median_loop ?h 0 pb = v_rate v"
    and ge: "?h \<le> total_power as + v_power v" and lt: "as \<noteq> [] \<longrightarrow> total_power as < ?h" unfolding add_0 by blast
  have med: "WeightedMedian pb = v_rate v" using m half by (simp add: WeightedMedian_def)
  note pre = power_upto_sorted_prefix [of as v bs, folded s, OF srt nn]
  have "power_upto pb r < ?h" if r: "r \<in> v_rate ` set pb" "r < v_rate v" for r
  proof (cases "as = []")
    case True
    with r srt s have False by (auto simp: sorted_append)
    then show ?thesis ..
  next
    case False
    with lt pre(2) [OF r(2)] show ?thesis by simp
  qed
  moreover have "v_rate v \<in> v_rate ` set pb" using s by simp
  ultimately show ?thesis using pre(1) ge by (auto simp: is_median_def med)
qed

lemma is_median_mset: "mset pb = mset pb' \<Longrightarrow> is_median pb m = is_median pb' m"
  using mset_eq_setD [of pb pb'] total_power_mset [of pb pb']
    power_upto_mset [of pb pb'] by (auto simp: is_median_def)

lemma median_sort_invariant:
  assumes "ballot_wf pb" "sorted (map v_rate pb)" "sorted (map v_rate pb')" "mset pb = mset pb'"
  shows "WeightedMedian pb = WeightedMedian pb'"
proof (cases "pb = []")
  case True
  with assms show ?thesis by simp
next
  case False
  with assms have "pb' \<noteq> []" by auto
  have "is_median pb (WeightedMedian pb)"
    using False assms by (intro WeightedMedian_is_median)
  moreover have "is_median pb' (WeightedMedian pb')"
    using \<open>pb' \<noteq> []\<close> assms ballot_wf_mset [OF assms(4)] by (intro WeightedMedian_is_median) simp_all
  ultimately show ?thesis
    using is_median_mset [OF assms(4)] is_median_unique by blast
qed

lemma median_positive:
  assumes "ballot_wf pb" "sorted (map v_rate pb)" "2 \<le> total_power pb"
    and abst: "\<forall>v\<in>set pb. v_rate v \<le> 0 \<longrightarrow> v_power v = 0"
  shows "0 < WeightedMedian pb"
proof (rule ccontr)
  assume "\<not> 0 < WeightedMedian pb"
  then have le: "WeightedMedian pb \<le> 0" by simp
  have "pb \<noteq> []" using assms(3) by auto
  then have "total_power pb div 2 \<le> power_upto pb (WeightedMedian pb)"
    using WeightedMedian_is_median [OF assms(1)] assms(2) by (simp add: is_median_def)
  moreover have "power_upto pb (WeightedMedian pb) = 0"
    using abst le by (intro power_upto_zero) auto
  ultimately show False using assms(3) by linarith
qed

lemma sorted_sort_ballot [simp]: "sorted (map v_rate (sort_ballot pb))"
  by (simp add: sort_ballot_def)

lemma mset_sort_ballot [simp]: "mset (sort_ballot pb) = mset pb"
  by (simp add: sort_ballot_def)

lemma set_sort_ballot [simp]: "set (sort_ballot pb) = set pb"
  by (simp add: sort_ballot_def)


section \<open>Cross rates\<close>

text \<open>
  Converting a ballot keeps its votes one for one: each keeps its voter, and either its power, with
  a rate that is the quotient of the two rates, or becomes an abstention.
\<close>

definition crossed :: "sdk \<Rightarrow> (addr, dec) gomap \<Rightarrow> vote_for_tally \<Rightarrow> vote_for_tally \<Rightarrow> bool" where
  "crossed S bases v w \<longleftrightarrow> v_voter w = v_voter v \<and> v_denom w = v_denom v \<and>
    (case map_of bases (v_voter v) of
       Some r \<Rightarrow> if 0 < v_rate v then v_power w = v_power v \<and> dec_quo S r (v_rate v) = Ok (v_rate w)
         else v_power w = 0 \<and> v_rate w = 0
     | None \<Rightarrow> v_power w = 0 \<and> v_rate w = 0)"

lemma cross_vote_Ok: "cross_vote S bases v = Ok w \<Longrightarrow> crossed S bases v w"
  by (auto simp: cross_vote_def crossed_def split: option.splits if_splits)

lemma cross_loop:
  "forEach (\<lambda>vote cb. andThen (cross_vote S bases vote) (\<lambda>v. Ok (cb @ [v]))) pb acc = Ok cb \<Longrightarrow>
    \<exists>ws. cb = acc @ ws \<and> list_all2 (crossed S bases) pb ws"
proof (induction pb arbitrary: acc)
  case (Cons v pb)
  then obtain w where w: "cross_vote S bases v = Ok w"
    and l: "forEach (\<lambda>vote cb. andThen (cross_vote S bases vote) (\<lambda>v. Ok (cb @ [v]))) pb (acc @ [w]) = Ok cb"
    by auto
  from Cons.IH [OF l] obtain ws where "cb = (acc @ [w]) @ ws" "list_all2 (crossed S bases) pb ws" by blast
  with cross_vote_Ok [OF w] show ?case by (intro exI [of _ "w # ws"]) simp
qed simp

lemma ToCrossRate_Ok:
  "ToCrossRate S bases pb = Ok cb \<Longrightarrow> list_all2 (crossed S bases) pb cb"
  unfolding ToCrossRate_def using cross_loop [of S bases pb "[]" cb] by auto

lemma ToCrossRateWithSort_Ok:
  assumes "ToCrossRateWithSort S bases pb = Ok cb"
  obtains ws where "list_all2 (crossed S bases) pb ws" "cb = sort_ballot ws"
  using assms cross_loop [of S bases pb "[]"] by (auto simp: ToCrossRateWithSort_def)

lemma crossed_wf:
  assumes "list_all2 (crossed S bases) pb ws" "ballot_wf pb"
  shows "ballot_wf ws"
proof -
  have "(\<forall>v\<in>set pb. 0 \<le> v_power v) \<longrightarrow>
      (\<forall>v\<in>set ws. 0 \<le> v_power v) \<and> total_power ws \<le> total_power pb"
    using assms(1)
    by (induction rule: list_all2_induct) (auto simp: crossed_def split: if_splits option.splits)
  with assms(2) show ?thesis by (auto simp: ballot_wf_def)
qed

lemma crossed_nonneg:
  assumes S: "dec_laws S" and b: "\<forall>p\<in>set bases. 0 < snd p" and c: "crossed S bases v w"
  shows "0 \<le> v_rate w"
proof (cases "map_of bases (v_voter v)")
  case (Some r)
  with b map_of_SomeD [OF Some] have r: "0 < r" by force
  show ?thesis
  proof (cases "0 < v_rate v")
    case True
    with Some c have "within_unit (v_rate w) (r * one_dec) (v_rate v)"
      using dec_quoD [OF S, of r "v_rate v" "v_rate w"] by (simp add: crossed_def)
    then show ?thesis using True by (rule within_unit_nonneg) (use r in simp)
  next
    case False
    with Some c show ?thesis by (simp add: crossed_def)
  qed
next
  case None
  with c show ?thesis by (simp add: crossed_def)
qed

text \<open>The map of the reference ballot holds positive rates only.\<close>

lemma ToMap_positive: "\<forall>p\<in>set (ToMap pb). 0 < snd p"
proof -
  have "\<forall>p\<in>set m. 0 < snd p \<Longrightarrow> \<forall>p\<in>set (fold (\<lambda>vote m. if 0 < v_rate vote
      then go_put (v_voter vote) (v_rate vote) m else m) pb m). 0 < snd p" for m
  proof (induction pb arbitrary: m)
    case (Cons v pb)
    have "\<forall>p\<in>set (go_put (v_voter v) (v_rate v) m). 0 < snd p" if "0 < v_rate v"
      using Cons.prems that set_put_subset [of "v_voter v" "v_rate v" m] by auto
    with Cons.prems show ?case by (simp only: fold_Cons comp_apply) (rule Cons.IH, simp)
  qed simp
  from this [of "[]"] show ?thesis by (simp add: ToMap_def)
qed

section \<open>The tally\<close>

lemma is_winner_Ok:
  assumes "dec_laws S" "is_winner S m sp v = Ok b"
  shows "b \<longleftrightarrow> m - sp \<le> v_rate v \<and> v_rate v \<le> m + sp \<or> v_rate v \<le> 0"
  using assms by (auto simp: is_winner_def dec_exact split: if_splits)

lemma tally_loop:
  assumes S: "dec_laws S"
  shows "forEach (\<lambda>vote m. andThen (is_winner S med sp vote) (\<lambda>w.
      Ok (if w then add_win S vote m else m))) pb cm = Ok cm' \<Longrightarrow>
    cm' = fold (add_win S) (filter (\<lambda>v. med - sp \<le> v_rate v \<and> v_rate v \<le> med + sp \<or> v_rate v \<le> 0) pb) cm"
proof (induction pb arbitrary: cm)
  case (Cons v pb)
  then obtain w where w: "is_winner S med sp v = Ok w"
    and l: "forEach (\<lambda>vote m. andThen (is_winner S med sp vote) (\<lambda>w.
      Ok (if w then add_win S vote m else m))) pb (if w then add_win S v cm else cm) = Ok cm'"
    by auto
  from Cons.IH [OF l] is_winner_Ok [OF S w] show ?case by auto
qed simp

text \<open>The votes a tally counts as won: inside the reward band around the median, or abstaining.\<close>

definition winning :: "dec \<Rightarrow> dec \<Rightarrow> vote_for_tally \<Rightarrow> bool" where
  "winning med sp v \<longleftrightarrow> \<bar>v_rate v - med\<bar> \<le> sp \<or> v_rate v \<le> 0"

lemma Tally_Ok:
  assumes S: "dec_laws S" and t: "Tally S c pb band cm = Ok (med, cm')"
  obtains sp where "fork_median c pb = Ok med" "StandardDeviation S pb med \<le> sp"
    "nearest sp (med * (band sdiv 2)) one_dec \<or> sp = StandardDeviation S pb med"
    "cm' = fold (add_win S) (filter (winning med sp) pb) cm"
proof -
  from t S obtain q where m: "fork_median c pb = Ok med"
    and q: "dec_mul S med (band sdiv 2) = Ok q"
    and l: "forEach (\<lambda>vote m. andThen (is_winner S med
        (if q < StandardDeviation S pb med then StandardDeviation S pb med else q) vote) (\<lambda>w.
      Ok (if w then add_win S vote m else m))) pb cm = Ok cm'"
    by (auto simp: Tally_def Let_def dec_quo_intI)
  let ?sp = "if q < StandardDeviation S pb med then StandardDeviation S pb med else q"
  have "(\<lambda>v. med - ?sp \<le> v_rate v \<and> v_rate v \<le> med + ?sp \<or> v_rate v \<le> 0) = winning med ?sp"
    by (rule ext) (auto simp: winning_def)
  with tally_loop [OF S l] have "cm' = fold (add_win S) (filter (winning med ?sp) pb) cm" by simp
  moreover have "StandardDeviation S pb med \<le> ?sp" by simp
  moreover have "nearest ?sp (med * (band sdiv 2)) one_dec \<or> ?sp = StandardDeviation S pb med"
    using dec_mulD [OF S q] by simp
  ultimately show thesis using that m by blast
qed

text \<open>How often a key wins, and that other claims and the fixed part of a claim stay.\<close>

definition wins_of :: "sdk \<Rightarrow> ballot \<Rightarrow> string \<Rightarrow> int" where
  "wins_of S pb k = int (length (filter (\<lambda>v. val_bech32 S (v_voter v) = k) pb))"

definition weight_of :: "sdk \<Rightarrow> ballot \<Rightarrow> string \<Rightarrow> int" where
  "weight_of S pb k = total_power (filter (\<lambda>v. val_bech32 S (v_voter v) = k) pb)"

lemma fold_add_win:
  assumes "\<forall>v\<in>set pb. 0 \<le> v_power v"
    and "0 \<le> c_wins (go_get no_claim cm k)" "c_wins (go_get no_claim cm k) + int (length pb) < 2 ^ 63"
    and "0 \<le> c_weight (go_get no_claim cm k)" "c_weight (go_get no_claim cm k) + total_power pb < 2 ^ 63"
  shows "go_get no_claim (fold (add_win S) pb cm) k =
    (go_get no_claim cm k)\<lparr>c_weight := c_weight (go_get no_claim cm k) + weight_of S pb k,
       c_wins := c_wins (go_get no_claim cm k) + wins_of S pb k\<rparr>"
  using assms
proof (induction pb arbitrary: cm)
  case Nil
  then show ?case by (simp add: wins_of_def weight_of_def)
next
  case (Cons v pb)
  let ?c = "go_get no_claim cm k" and ?cm = "add_win S v cm"
  have tp: "0 \<le> total_power pb" using Cons.prems(1) by (intro total_power_nonneg) auto
  show ?case
  proof (cases "val_bech32 S (v_voter v) = k")
    case True
    have "in_i64 (c_weight ?c + v_power v)" "in_i64 (c_wins ?c + 1)"
      using Cons.prems tp by (auto simp: in_i64_def)
    then have g: "go_get no_claim ?cm k = ?c\<lparr>c_weight := c_weight ?c + v_power v, c_wins := c_wins ?c + 1\<rparr>"
      using True by (simp add: add_win_def Let_def)
    have "go_get no_claim (fold (add_win S) pb ?cm) k =
      (go_get no_claim ?cm k)\<lparr>c_weight := c_weight (go_get no_claim ?cm k) + weight_of S pb k,
       c_wins := c_wins (go_get no_claim ?cm k) + wins_of S pb k\<rparr>"
      by (rule Cons.IH) (use Cons.prems g tp in auto)
    with g True show ?thesis by (simp add: wins_of_def weight_of_def algebra_simps)
  next
    case False
    then have g: "go_get no_claim ?cm k = ?c" by (auto simp: add_win_def Let_def)
    have "go_get no_claim (fold (add_win S) pb ?cm) k =
      (go_get no_claim ?cm k)\<lparr>c_weight := c_weight (go_get no_claim ?cm k) + weight_of S pb k,
       c_wins := c_wins (go_get no_claim ?cm k) + wins_of S pb k\<rparr>"
      by (rule Cons.IH) (use Cons.prems g tp in auto)
    with g False show ?thesis by (simp add: wins_of_def weight_of_def)
  qed
qed


section \<open>The reference denom\<close>

definition passing :: "int \<Rightarrow> ballot \<Rightarrow> bool" where
  "passing th pb \<longleftrightarrow> Power pb \<noteq> 0 \<and> th \<le> Power pb"

definition candidates :: "int \<Rightarrow> (denom, dec) gomap \<Rightarrow> (denom, ballot) gomap \<Rightarrow> (denom \<times> ballot) set" where
  "candidates th T L = {p \<in> set L. fst p \<in> keys T \<and> passing th (snd p)}"

definition best :: "(denom \<times> ballot) set \<Rightarrow> denom \<Rightarrow> int \<Rightarrow> bool" where
  "best C d w \<longleftrightarrow> (if C = {} then d = [] \<and> w = 0
    else (\<exists>pb. (d, pb) \<in> C \<and> Power pb = w)
      \<and> (\<forall>p\<in>C. Power (snd p) < w \<or> Power (snd p) = w \<and> d \<le> fst p))"

text \<open>What the state is after the ballots \<open>L\<close> have been visited.\<close>

definition picked :: "int \<Rightarrow> (denom, dec) gomap \<Rightarrow> (denom, ballot) gomap \<Rightarrow> (denom, ballot) gomap \<Rightarrow>
    pick_state \<Rightarrow> bool" where
  "picked th T V L s \<longleftrightarrow>
    (\<forall>d. map_of (pk_targets s) d =
      (if \<exists>pb. (d, pb) \<in> set L \<and> \<not> passing th pb then None else map_of T d))
    \<and> (\<forall>d. map_of (pk_votes s) d =
      (if \<exists>pb. (d, pb) \<in> set L \<and> (d, pb) \<notin> candidates th T L then None else map_of V d))
    \<and> best (candidates th T L) (pk_reference s) (pk_largest s)"

lemma keys_map_of: "k \<in> keys m \<longleftrightarrow> map_of m k \<noteq> None"
  by (simp add: map_of_eq_None_iff)

lemma candidates_snoc:
  "candidates th T (L @ [p]) = (if fst p \<in> keys T \<and> passing th (snd p)
    then insert p (candidates th T L) else candidates th T L)"
  by (auto simp: candidates_def)

lemma best_insert:
  fixes d :: denom and pb :: ballot
  assumes b: "best C (pk_reference s) (pk_largest s)" and C: "\<forall>p\<in>C. 0 < Power (snd p)"
  defines "t \<equiv> (if pk_largest s < Power pb \<or> pk_largest s = 0
         then s\<lparr>pk_reference := d, pk_largest := Power pb\<rparr>
       else if pk_largest s = Power pb \<and> d < pk_reference s then s\<lparr>pk_reference := d\<rparr> else s)"
  shows "best (insert (d, pb) C) (pk_reference t) (pk_largest t)"
proof (cases "C = {}")
  case True
  with b show ?thesis by (simp add: best_def t_def)
next
  case False
  with b obtain qb where q: "(pk_reference s, qb) \<in> C" "Power qb = pk_largest s"
    and dom: "\<forall>p\<in>C. Power (snd p) < pk_largest s \<or> Power (snd p) = pk_largest s \<and> pk_reference s \<le> fst p"
    by (auto simp: best_def)
  have nz: "pk_largest s \<noteq> 0" using C q by force
  consider "pk_largest s < Power pb" | "pk_largest s = Power pb" "d < pk_reference s"
    | "\<not> pk_largest s < Power pb" "\<not> (pk_largest s = Power pb \<and> d < pk_reference s)" by blast
  then show ?thesis
  proof cases
    case 1
    then have "t = s\<lparr>pk_reference := d, pk_largest := Power pb\<rparr>" by (simp add: t_def)
    with 1 dom show ?thesis by (force simp: best_def)
  next
    case 2
    then have "t = s\<lparr>pk_reference := d\<rparr>" using nz by (simp add: t_def)
    with 2 dom show ?thesis by (force simp: best_def)
  next
    case 3
    then have t: "t = s" using nz by (auto simp: t_def)
    from 3 have "Power pb < pk_largest s \<or> Power pb = pk_largest s \<and> pk_reference s \<le> d"
      by (meson linorder_neqE not_le)
    with t q dom show ?thesis unfolding best_def by auto
  qed
qed

lemma pick_step_picked:
  assumes p: "picked th T V L s" and new: "d \<notin> keys L" and pos: "0 \<le> Power pb"
    and C: "\<forall>p\<in>candidates th T L. 0 < Power (snd p)"
  shows "picked th T V (L @ [(d, pb)]) (pick_step th (d, pb) s)"
proof -
  have fresh: "(d, x) \<notin> set L" for x using new by force
  have tgt: "d \<in> keys (pk_targets s) \<longleftrightarrow> d \<in> keys T"
    using p fresh by (simp add: keys_map_of picked_def)
  have cand: "(d, x) \<notin> candidates th T L" for x using fresh by (simp add: candidates_def)
  have b: "best (candidates th T L) (pk_reference s) (pk_largest s)" using p by (simp add: picked_def)
  have T: "map_of (pk_targets s) e =
      (if \<exists>x. (e, x) \<in> set L \<and> \<not> passing th x then None else map_of T e)"
    and V: "map_of (pk_votes s) e =
      (if \<exists>x. (e, x) \<in> set L \<and> (e, x) \<notin> candidates th T L then None else map_of V e)" for e
    using p by (simp_all add: picked_def)
  have Td: "map_of (pk_targets s) d = map_of T d" using T [of d] fresh by simp
  let ?s = "pick_step th (d, pb) s" and ?L = "L @ [(d, pb)]"
  show ?thesis
  proof (cases "d \<in> keys T \<and> passing th pb")
    case False
    then have c: "candidates th T ?L = candidates th T L" by (auto simp: candidates_snoc)
    from False have st: "?s = s\<lparr>pk_targets := (if d \<in> keys T then go_del d (pk_targets s) else pk_targets s),
        pk_votes := go_del d (pk_votes s)\<rparr>"
      using tgt by (auto simp: pick_step_def Let_def ballotIsPassing_def passing_def)
    have dT: "map_of T d = None" if "d \<notin> keys T" using that by (simp add: keys_map_of)
    have "map_of (pk_targets ?s) e =
        (if \<exists>x. (e, x) \<in> set ?L \<and> \<not> passing th x then None else map_of T e)" for e
      using T [of e] fresh Td dT False by (cases "e = d") (auto simp: st)
    moreover have "map_of (pk_votes ?s) e =
        (if \<exists>x. (e, x) \<in> set ?L \<and> (e, x) \<notin> candidates th T ?L then None else map_of V e)" for e
      using V [of e] fresh cand by (cases "e = d") (simp_all add: st c)
    ultimately show ?thesis using b st by (simp add: picked_def c)
  next
    case pass: True
    then have c: "candidates th T ?L = insert (d, pb) (candidates th T L)"
      by (simp add: candidates_snoc)
    have st: "?s = (if pk_largest s < Power pb \<or> pk_largest s = 0
         then s\<lparr>pk_reference := d, pk_largest := Power pb\<rparr>
       else if pk_largest s = Power pb \<and> d < pk_reference s then s\<lparr>pk_reference := d\<rparr> else s)"
      using pass tgt by (simp add: pick_step_def Let_def ballotIsPassing_def passing_def)
    have "best (insert (d, pb) (candidates th T L)) (pk_reference ?s) (pk_largest ?s)"
      unfolding st using C by (rule best_insert [OF b])
    moreover have same: "pk_targets ?s = pk_targets s" "pk_votes ?s = pk_votes s" using st by simp_all
    moreover have "map_of (pk_targets ?s) e =
        (if \<exists>x. (e, x) \<in> set ?L \<and> \<not> passing th x then None else map_of T e)" for e
      using T [of e] fresh pass by (cases "e = d") (auto simp: same)
    moreover have "map_of (pk_votes ?s) e =
        (if \<exists>x. (e, x) \<in> set ?L \<and> (e, x) \<notin> candidates th T ?L then None else map_of V e)" for e
      using V [of e] fresh by (cases "e = d") (auto simp: same c)
    ultimately show ?thesis by (simp add: picked_def c)
  qed
qed

lemma pick_fold:
  assumes "go_map L" "\<forall>p\<in>set L. 0 \<le> Power (snd p)"
  shows "picked th T V L (fold (pick_step th) L
      \<lparr>pk_targets = T, pk_votes = V, pk_largest = 0, pk_reference = []\<rparr>)"
  using assms
proof (induction L rule: rev_induct)
  case Nil
  then show ?case by (simp add: picked_def candidates_def best_def)
next
  case (snoc p L)
  obtain d pb where p: "p = (d, pb)" by (cases p)
  have "\<forall>q\<in>candidates th T L. 0 < Power (snd q)"
    using snoc.prems(2) by (force simp: candidates_def passing_def)
  then show ?case
    using snoc p by (auto intro!: pick_step_picked)
qed

section \<open>Properties\<close>

text \<open>
  C14: on a sorted, non-empty ballot whose powers are non-negative and sum to an \<open>int64\<close>, the
  asserting median does not panic and is the least rate up to which at least half of the power
  voted. It is the same for every sorted arrangement of the votes, so the unstable \<open>sort.Sort\<close>
  cannot change it; and it is positive once abstentions carry no power and the total power is at
  least two.
\<close>

theorem median_correct:
  assumes wf: "ballot_wf pb" and ne: "pb \<noteq> []" and srt: "sorted (map v_rate pb)"
  shows "WeightedMedianWithAssertion pb = Ok (WeightedMedian pb) \<and> is_median pb (WeightedMedian pb)
    \<and> (\<forall>pb'. mset pb' = mset pb \<and> sorted (map v_rate pb') \<longrightarrow> WeightedMedian pb' = WeightedMedian pb)
    \<and> ((\<forall>v\<in>set pb. v_rate v \<le> 0 \<longrightarrow> v_power v = 0) \<and> 2 \<le> total_power pb \<longrightarrow> 0 < WeightedMedian pb)"
proof (intro conjI allI impI)
  show "WeightedMedianWithAssertion pb = Ok (WeightedMedian pb)"
    using srt by (simp add: WeightedMedianWithAssertion_def WeightedMedian_def)
  show "is_median pb (WeightedMedian pb)" by (rule WeightedMedian_is_median [OF assms])
  fix pb' assume "mset pb' = mset pb \<and> sorted (map v_rate pb')"
  then show "WeightedMedian pb' = WeightedMedian pb"
    using median_sort_invariant [OF wf srt, of pb'] by simp
next
  assume "(\<forall>v\<in>set pb. v_rate v \<le> 0 \<longrightarrow> v_power v = 0) \<and> 2 \<le> total_power pb"
  then show "0 < WeightedMedian pb" using median_positive [OF wf srt] by blast
qed

definition vote_at :: "dec \<Rightarrow> addr \<Rightarrow> int \<Rightarrow> vote_for_tally" where
  "vote_at r a p = NewVoteForTally r ''uusd'' a p"

lemmas vote_at_simps = vote_at_def NewVoteForTally_def

theorem median_correct_witness:
  "WeightedMedianWithAssertion [vote_at 0 ''a'' 0, vote_at 5 ''b'' 10, vote_at 7 ''c'' 20, vote_at 9 ''d'' 5]
     = Ok 7 \<and> is_median [vote_at 0 ''a'' 0, vote_at 5 ''b'' 10, vote_at 7 ''c'' 20, vote_at 9 ''d'' 5] 7"
proof -
  let ?pb = "[vote_at 0 ''a'' 0, vote_at 5 ''b'' 10, vote_at 7 ''c'' 20, vote_at 9 ''d'' 5]"
  have "ballot_wf ?pb" "sorted (map v_rate ?pb)" by (simp_all add: vote_at_simps ballot_wf_def)
  note m = median_correct [OF this(1) _ this(2)]
  have w: "WeightedMedian ?pb = 7"
    by (simp add: vote_at_simps WeightedMedian_def Power_def in_i64_def sdiv_nonneg Let_def)
  from m show ?thesis unfolding w by blast
qed

text \<open>
  converting a ballot with positive reference rates gives, when it returns, a sorted ballot
  with the same voters and denoms: a vote with a positive rate whose voter has a reference rate
  keeps its power and becomes the quotient of the two rates, every other vote becomes an
  abstention without power. Its median is then taken without a panic and is not negative.
\<close>

theorem cross_rate_correct:
  assumes S: "dec_laws S" and wf: "ballot_wf pb" and ne: "pb \<noteq> []"
    and cb: "ToCrossRateWithSort S (ToMap rt) pb = Ok cb"
  shows "\<exists>ws. list_all2 (crossed S (ToMap rt)) pb ws \<and> mset cb = mset ws \<and> ballot_wf cb
    \<and> WeightedMedianWithAssertion cb = Ok (WeightedMedian cb) \<and> 0 \<le> WeightedMedian cb"
proof -
  from cb obtain ws where ws: "list_all2 (crossed S (ToMap rt)) pb ws" "cb = sort_ballot ws"
    by (rule ToCrossRateWithSort_Ok)
  have wf': "ballot_wf cb" using ballot_wf_mset [of ws cb] crossed_wf [OF ws(1) wf] ws(2) by simp
  have ne': "cb \<noteq> []"
    using ws ne by (metis list_all2_Nil2 mset.simps(1) mset_sort_ballot mset_zero_iff)
  have "\<forall>w\<in>set ws. 0 \<le> v_rate w"
    using ws(1) crossed_nonneg [OF S ToMap_positive, of rt]
    by (induction rule: list_all2_induct) auto
  with ws(2) have "\<forall>w\<in>set cb. 0 \<le> v_rate w" by simp
  moreover have "WeightedMedian cb \<in> v_rate ` set cb"
    using WeightedMedian_is_median [OF wf' ne'] ws(2) by (simp add: is_median_def)
  ultimately have "0 \<le> WeightedMedian cb" by auto
  moreover have "WeightedMedianWithAssertion cb = Ok (WeightedMedian cb)"
    using ws(2) by (simp add: WeightedMedianWithAssertion_def WeightedMedian_def)
  ultimately show ?thesis using ws wf' by auto
qed

theorem cross_rate_correct_witness:
  "\<exists>cb. ToCrossRateWithSort sdk_ref (ToMap [vote_at (4 * one_dec) ''b'' 10])
      [vote_at (2 * one_dec) ''a'' 3, vote_at (2 * one_dec) ''b'' 10] = Ok cb
    \<and> WeightedMedianWithAssertion cb = Ok (2 * one_dec)"
proof -
  let ?rt = "[vote_at (4 * one_dec) ''b'' 10]"
  let ?pb = "[vote_at (2 * one_dec) ''a'' 3, vote_at (2 * one_dec) ''b'' 10]"
  let ?cb = "[vote_at 0 ''a'' 0, vote_at (2 * one_dec) ''b'' 10]"
  have cb: "ToCrossRateWithSort sdk_ref (ToMap ?rt) ?pb = Ok ?cb"
    by (simp add: ToCrossRateWithSort_def ToMap_def cross_vote_def vote_at_simps ref_eval sort_ballot_def)
  have "ballot_wf ?pb" by (simp add: ballot_wf_def vote_at_simps)
  then have "WeightedMedianWithAssertion ?cb = Ok (WeightedMedian ?cb)"
    using cross_rate_correct [OF dec_laws_sdk_ref _ _ cb] by blast
  moreover have "WeightedMedian ?cb = 2 * one_dec"
    by (simp add: WeightedMedian_def Power_def vote_at_simps in_i64_def sdiv_nonneg Let_def)
  ultimately show ?thesis using cb by (simp only:) blast
qed

text \<open>
  a tally returns the fork's median and adds, for every voter, one win and the vote's power for
  each of the voter's votes that lies within the reward spread of the median or abstains; the
  spread is at least the standard deviation. Claims of voters without such a vote do not change.
\<close>

theorem tally_awards_winners:
  assumes S: "dec_laws S" and t: "Tally S c pb band cm = Ok (med, cm')" and wf: "ballot_wf pb"
    and "0 \<le> c_wins (go_get no_claim cm k)" "c_wins (go_get no_claim cm k) + int (length pb) < 2 ^ 63"
    and "0 \<le> c_weight (go_get no_claim cm k)" "c_weight (go_get no_claim cm k) + total_power pb < 2 ^ 63"
  shows "fork_median c pb = Ok med \<and> (\<exists>sp. StandardDeviation S pb med \<le> sp
    \<and> go_get no_claim cm' k = (go_get no_claim cm k)\<lparr>
        c_weight := c_weight (go_get no_claim cm k) + weight_of S (filter (winning med sp) pb) k,
        c_wins := c_wins (go_get no_claim cm k) + wins_of S (filter (winning med sp) pb) k\<rparr>)"
proof -
  obtain sp where sp: "fork_median c pb = Ok med" "StandardDeviation S pb med \<le> sp"
    "cm' = fold (add_win S) (filter (winning med sp) pb) cm"
    using Tally_Ok [OF S t] by metis
  have "total_power (filter P pb) \<le> total_power pb" for P
    using wf by (induction pb) (auto simp: ballot_wf_def dest: total_power_nonneg)
  note tp = this [of "winning med sp"]
  have len: "int (length (filter (winning med sp) pb)) \<le> int (length pb)" by simp
  have nn: "\<forall>v\<in>set (filter (winning med sp) pb). 0 \<le> v_power v" using wf by (simp add: ballot_wf_def)
  have "go_get no_claim cm' k = (go_get no_claim cm k)\<lparr>
        c_weight := c_weight (go_get no_claim cm k) + weight_of S (filter (winning med sp) pb) k,
        c_wins := c_wins (go_get no_claim cm k) + wins_of S (filter (winning med sp) pb) k\<rparr>"
    unfolding sp(3) by (rule fold_add_win [OF nn]) (use assms(4-7) tp len in linarith)+
  with sp show ?thesis by blast
qed

definition late :: ctx where
  "late = \<lparr>ctx_height = 8000000, ctx_chain = ''columbus-5''\<rparr>"

theorem tally_awards_winners_witness:
  "\<exists>cm'. Tally sdk_ref late [vote_at (2 * one_dec) ''a'' 3] 20000000000000000
      [(''terravaloper1a'', NewClaim 3 0 0 ''a'')] = Ok (2 * one_dec, cm')
    \<and> c_wins (go_get no_claim cm' ''terravaloper1a'') = 1
    \<and> c_weight (go_get no_claim cm' ''terravaloper1a'') = 3"
proof -
  let ?pb = "[vote_at (2 * one_dec) ''a'' 3]"
    and ?cm = "[(''terravaloper1a'', NewClaim 3 0 0 ''a'')]" and ?k = "''terravaloper1a''"
  have m: "fork_median late ?pb = Ok (2 * one_dec)"
    by (simp add: fork_median_def before_sort_fork_def late_def ColumbusChainID_def
        BombayChainID_def WeightedMedianWithAssertion_def Power_def vote_at_simps in_i64_def
        sdiv_nonneg)
  have sd: "StandardDeviation sdk_ref ?pb (2 * one_dec) = 0"
    by (simp add: StandardDeviation_def vote_at_simps ref_eval)
  have t: "Tally sdk_ref late ?pb 20000000000000000 ?cm = Ok (2 * one_dec, add_win sdk_ref (vote_at (2 * one_dec) ''a'' 3) ?cm)"
  proof -
    have "dec_quo_int sdk_ref 20000000000000000 2 = Ok 10000000000000000"
      "dec_mul sdk_ref (2 * one_dec) 10000000000000000 = Ok 20000000000000000"
      "is_winner sdk_ref (2 * one_dec) 20000000000000000 (vote_at (2 * one_dec) ''a'' 3) = Ok True"
      by (simp_all add: is_winner_def vote_at_simps ref_eval)
    then show ?thesis by (simp add: Tally_def m sd Let_def del: sdk_ref_sel)
  qed
  have wf: "ballot_wf ?pb" by (simp add: ballot_wf_def vote_at_simps)
  have g: "go_get no_claim ?cm ?k = NewClaim 3 0 0 ''a''" by (simp add: go_get_def)
  have "\<exists>sp. StandardDeviation sdk_ref ?pb (2 * one_dec) \<le> sp
    \<and> go_get no_claim (add_win sdk_ref (vote_at (2 * one_dec) ''a'' 3) ?cm) ?k = (go_get no_claim ?cm ?k)\<lparr>
        c_weight := c_weight (go_get no_claim ?cm ?k) + weight_of sdk_ref (filter (winning (2 * one_dec) sp) ?pb) ?k,
        c_wins := c_wins (go_get no_claim ?cm ?k) + wins_of sdk_ref (filter (winning (2 * one_dec) sp) ?pb) ?k\<rparr>"
    by (rule conjunct2 [OF tally_awards_winners [OF dec_laws_sdk_ref t wf]])
      (simp_all add: go_get_def NewClaim_def vote_at_simps)
  then obtain sp where "0 \<le> sp"
    and c: "go_get no_claim (add_win sdk_ref (vote_at (2 * one_dec) ''a'' 3) ?cm) ?k = (go_get no_claim ?cm ?k)\<lparr>
        c_weight := c_weight (go_get no_claim ?cm ?k) + weight_of sdk_ref (filter (winning (2 * one_dec) sp) ?pb) ?k,
        c_wins := c_wins (go_get no_claim ?cm ?k) + wins_of sdk_ref (filter (winning (2 * one_dec) sp) ?pb) ?k\<rparr>"
    unfolding sd by blast
  then have "filter (winning (2 * one_dec) sp) ?pb = ?pb" by (simp add: winning_def vote_at_simps)
  then have "c_wins (go_get no_claim (add_win sdk_ref (vote_at (2 * one_dec) ''a'' 3) ?cm) ?k) = 1
      \<and> c_weight (go_get no_claim (add_win sdk_ref (vote_at (2 * one_dec) ''a'' 3) ?cm) ?k) = 3"
    unfolding c g by (simp add: NewClaim_def weight_of_def wins_of_def vote_at_simps)
  with t show ?thesis by blast
qed

lemma PickReferenceTerra_picked:
  assumes S: "dec_laws S" and V: "go_map V" and pos: "\<forall>p\<in>set V. ballot_wf (snd p)"
    and r: "PickReferenceTerra S threshold bonded T V = Ok s"
  obtains th where "nearest th (threshold * bonded) one_dec" "picked th T V V s"
proof -
  from r S obtain th where t: "dec_round S (threshold * bonded) = Ok th"
    and s: "s = fold (pick_step th) V \<lparr>pk_targets = T, pk_votes = V, pk_largest = 0, pk_reference = []\<rparr>"
    by (auto simp: PickReferenceTerra_def dec_mul_intI)
  have nn: "\<forall>p\<in>set V. 0 \<le> Power (snd p)"
    using pos by (auto simp: Power_total ballot_wf_def intro!: total_power_nonneg)
  from pick_fold [OF V nn, of th T V] have "picked th T V V s" by (simp add: s)
  with dec_roundD [OF S t] show thesis by (rule that)
qed

lemma picked_votes:
  assumes V: "go_map V" and p: "picked th T V V s"
  shows "d \<in> keys (pk_votes s) \<longleftrightarrow> (\<exists>pb. (d, pb) \<in> candidates th T V)"
    and "map_of (pk_votes s) d = Some pb \<Longrightarrow> map_of V d = Some pb"
proof -
  have v: "map_of (pk_votes s) d =
      (if \<exists>pb. (d, pb) \<in> set V \<and> (d, pb) \<notin> candidates th T V then None else map_of V d)"
    using p by (simp add: picked_def)
  then show "map_of (pk_votes s) d = Some pb \<Longrightarrow> map_of V d = Some pb" by (simp split: if_splits)
  show "d \<in> keys (pk_votes s) \<longleftrightarrow> (\<exists>pb. (d, pb) \<in> candidates th T V)"
  proof (cases "map_of V d")
    case None
    then have "(d, pb) \<notin> set V" for pb using V by (metis map_of_is_SomeI option.distinct(1))
    with None v show ?thesis by (simp add: keys_map_of candidates_def)
  next
    case (Some pb)
    then have "(d, x) \<in> set V \<longleftrightarrow> x = pb" for x using V by (metis map_of_eq_Some_iff option.inject)
    with Some v show ?thesis by (auto simp: keys_map_of candidates_def)
  qed
qed

text \<open>
  the reference denom is empty exactly when no vote target has a passing ballot; otherwise it
  is the passing target with the largest power and, among equals, the first in alphabetical order,
  whatever order the map is visited in. The ballots left are those of passing targets, and a target
  is dropped exactly when it has a ballot that fails.
\<close>

theorem reference_terra_correct:
  assumes S: "dec_laws S" and V: "go_map V" and pos: "\<forall>p\<in>set V. ballot_wf (snd p)"
    and r: "PickReferenceTerra S threshold bonded T V = Ok s"
  shows "\<exists>th. nearest th (threshold * bonded) one_dec
    \<and> best (candidates th T V) (pk_reference s) (pk_largest s)
    \<and> (\<forall>d. d \<in> keys (pk_votes s) \<longleftrightarrow> (\<exists>pb. (d, pb) \<in> candidates th T V))
    \<and> (\<forall>d. map_of (pk_targets s) d =
        (if \<exists>pb. (d, pb) \<in> set V \<and> \<not> passing th pb then None else map_of T d))"
proof -
  obtain th where th: "nearest th (threshold * bonded) one_dec" and p: "picked th T V V s"
    by (rule PickReferenceTerra_picked [OF S V pos r])
  with picked_votes(1) [OF V p] show ?thesis by (auto simp: picked_def)
qed

theorem reference_terra_correct_witness:
  "\<exists>s. PickReferenceTerra sdk_ref 500000000000000000 10 [(''uusd'', 0), (''ukrw'', 0), (''umnt'', 0)]
      [(''uusd'', [vote_at 5 ''a'' 6]), (''umnt'', [vote_at 5 ''b'' 2]), (''ukrw'', [vote_at 5 ''a'' 6])] = Ok s
    \<and> pk_reference s = ''ukrw'' \<and> map_of (pk_targets s) ''umnt'' = None"
proof -
  let ?T = "[(''uusd'', 0), (''ukrw'', 0), (''umnt'', 0)] :: (denom, dec) gomap"
  let ?V = "[(''uusd'', [vote_at 5 ''a'' 6]), (''umnt'', [vote_at 5 ''b'' 2]), (''ukrw'', [vote_at 5 ''a'' 6])]"
  have "\<exists>s. PickReferenceTerra sdk_ref 500000000000000000 10 ?T ?V = Ok s"
    by (simp add: PickReferenceTerra_def ref_eval)
  then obtain s where s: "PickReferenceTerra sdk_ref 500000000000000000 10 ?T ?V = Ok s" by blast
  have pw: "Power [vote_at 5 a n] = n" if "0 \<le> n" "n < 100" for a n
    using that by (simp add: Power_def vote_at_simps in_i64_def)
  have wf: "\<forall>p\<in>set ?V. ballot_wf (snd p)" by (simp add: ballot_wf_def vote_at_simps)
  have gm: "go_map ?V" by simp
  obtain th where th: "nearest th (500000000000000000 * 10) one_dec"
    and b: "best (candidates th ?T ?V) (pk_reference s) (pk_largest s)"
    and t: "\<forall>d. map_of (pk_targets s) d =
        (if \<exists>pb. (d, pb) \<in> set ?V \<and> \<not> passing th pb then None else map_of ?T d)"
    using reference_terra_correct [OF dec_laws_sdk_ref gm wf s] by blast
  from th have th5: "th = 5" by (simp add: nearest_def one_dec_def abs_if split: if_splits)
  have C: "candidates th ?T ?V = {(''uusd'', [vote_at 5 ''a'' 6]), (''ukrw'', [vote_at 5 ''a'' 6])}"
    by (auto simp: candidates_def passing_def pw th5)
  have u: "(''ukrw'' :: denom) \<le> ''uusd''" "\<not> (''uusd'' :: denom) \<le> ''ukrw''"
    by (simp_all add: less_char_def)
  have "Power [vote_at 5 ''a'' 6] = 6" by (rule pw) simp_all
  with b u have "pk_reference s = ''ukrw''"
    unfolding C by (auto simp: best_def)
  moreover have "map_of (pk_targets s) ''umnt'' = None"
    using pw [of 2 "''b''"] by (simp add: t passing_def th5)
  ultimately show ?thesis using s by blast
qed

text \<open>
  A rate that the message check admits can stop the tally: when a voter's reference rate has
  the largest bit length the decimals hold and the same voter's rate for another denom is the
  smallest unit, the quotient does not fit and the conversion to cross rates panics.
\<close>

theorem cross_rate_overflow_panics:
  assumes S: "dec_laws S"
  shows "bit_len (2 ^ (dec_bits S - 1)) \<le> dec_bits S
    \<and> ToCrossRateWithSort S (ToMap [vote_at (2 ^ (dec_bits S - 1)) voter p]) [vote_at 1 voter p] = Panic"
proof
  let ?n = "dec_bits S"
  have n: "255 \<le> ?n" using dec_bitsD [OF S] by simp
  then show "bit_len (2 ^ (?n - 1)) \<le> ?n" by (simp add: bit_len_le_iff)
  have two: "(2::int) ^ ?n = 2 * 2 ^ (?n - 1)" using n by (metis power_Suc Suc_diff_1 le_neq_implies_less
      less_le_trans zero_less_numeral)
  obtain q where q: "within_unit q (2 ^ (?n - 1) * one_dec) 1" "dec_quo S (2 ^ (?n - 1)) 1 = chk ?n q"
    by (rule dec_quoE [OF S, of 1 "2 ^ (?n - 1)"]) simp
  from q(1) have "q = 2 ^ (?n - 1) * one_dec" by (simp add: within_unit_def)
  moreover have "(2::int) ^ ?n \<le> 2 ^ (?n - 1) * one_dec" unfolding two by (simp add: one_dec_def)
  ultimately have "dec_quo S (2 ^ (?n - 1)) 1 = Panic"
    using q(2) by (simp add: chk_eval)
  then show "ToCrossRateWithSort S (ToMap [vote_at (2 ^ (?n - 1)) voter p]) [vote_at 1 voter p] = Panic"
    by (simp add: ToCrossRateWithSort_def ToMap_def cross_vote_def vote_at_simps)
qed

theorem cross_rate_overflow_panics_witness:
  "ToCrossRateWithSort sdk_ref (ToMap [vote_at (2 ^ (dec_bits sdk_ref - 1)) ''a'' 1])
     [vote_at 1 ''a'' 1] = Panic"
  by (rule conjunct2 [OF cross_rate_overflow_panics [OF dec_laws_sdk_ref]])

end
