(* ===== verification/OracleKeeper.thy ===== *)
theory OracleKeeper
  imports OracleBallot
begin

text \<open>
  The oracle module's store and messages: \<open>src/x/oracle/keeper/keeper.go\<close>, \<open>vote_target.go\<close>,
  \<open>params.go\<close>, \<open>msg_server.go\<close>, \<open>types/vote.go\<close>, \<open>types/hash.go\<close>, \<open>types/msgs.go\<close>, \<open>types/params.go\<close> and
  \<open>genesis.go\<close>. The staking keeper's look-up of a validator and the hash function are arguments.
  Events are not part of the state and are left out.
\<close>

section \<open>Data\<close>

record exchange_rate_tuple =
  t_denom :: denom
  t_rate :: dec

record aggregate_prevote =
  pv_hash :: string
  pv_voter :: string
  pv_block :: u64

record aggregate_vote =
  av_tuples :: "exchange_rate_tuple list"
  av_voter :: string

record denom_item =
  di_name :: denom
  di_tobin :: dec

record oracle_params =
  VotePeriod :: u64
  VoteThreshold :: dec
  RewardBand :: dec
  RewardDistributionWindow :: u64
  Whitelist :: "denom_item list"
  SlashFraction :: dec
  SlashWindow :: u64
  MinValidPerWindow :: dec

record oracle_state =
  or_rates :: "(denom, dec) gomap"
  or_feeders :: "(addr, addr) gomap"
  or_miss :: "(addr, u64) gomap"
  or_prevotes :: "(addr, aggregate_prevote) gomap"
  or_votes :: "(addr, aggregate_vote) gomap"
  or_tobin :: "(denom, dec) gomap"
  or_params :: oracle_params

text \<open>What the module reads of a staking validator.\<close>

record validator =
  val_operator :: addr
  val_bonded :: bool
  val_jailed :: bool
  val_power :: int

type_synonym validators = "addr \<Rightarrow> validator option"


section \<open>Store\<close>

definition GetLunaExchangeRate :: "oracle_state \<Rightarrow> denom \<Rightarrow> dec outcome" where
  "GetLunaExchangeRate k d =
    (if d = MicroLunaDenom then Ok one_dec
     else case map_of (or_rates k) d of None \<Rightarrow> Err (ErrUnknownDenom d) | Some r \<Rightarrow> Ok r)"

definition SetLunaExchangeRate :: "denom \<Rightarrow> dec \<Rightarrow> oracle_state \<Rightarrow> oracle_state" where
  "SetLunaExchangeRate d r k = k\<lparr>or_rates := go_put d r (or_rates k)\<rparr>"

definition DeleteLunaExchangeRate :: "denom \<Rightarrow> oracle_state \<Rightarrow> oracle_state" where
  "DeleteLunaExchangeRate d k = k\<lparr>or_rates := go_del d (or_rates k)\<rparr>"

definition GetFeederDelegation :: "oracle_state \<Rightarrow> addr \<Rightarrow> addr" where
  "GetFeederDelegation k operator = go_get operator (or_feeders k) operator"

definition SetFeederDelegation :: "addr \<Rightarrow> addr \<Rightarrow> oracle_state \<Rightarrow> oracle_state" where
  "SetFeederDelegation operator feeder k = k\<lparr>or_feeders := go_put operator feeder (or_feeders k)\<rparr>"

definition GetMissCounter :: "oracle_state \<Rightarrow> addr \<Rightarrow> u64" where
  "GetMissCounter k operator = go_get 0 (or_miss k) operator"

definition SetMissCounter :: "addr \<Rightarrow> u64 \<Rightarrow> oracle_state \<Rightarrow> oracle_state" where
  "SetMissCounter operator n k = k\<lparr>or_miss := go_put operator n (or_miss k)\<rparr>"

definition DeleteMissCounter :: "addr \<Rightarrow> oracle_state \<Rightarrow> oracle_state" where
  "DeleteMissCounter operator k = k\<lparr>or_miss := go_del operator (or_miss k)\<rparr>"

definition GetAggregateExchangeRatePrevote :: "oracle_state \<Rightarrow> addr \<Rightarrow> aggregate_prevote outcome" where
  "GetAggregateExchangeRatePrevote k voter =
    (case map_of (or_prevotes k) voter of None \<Rightarrow> Err ErrNoAggregatePrevote | Some p \<Rightarrow> Ok p)"

definition SetAggregateExchangeRatePrevote :: "addr \<Rightarrow> aggregate_prevote \<Rightarrow> oracle_state \<Rightarrow> oracle_state" where
  "SetAggregateExchangeRatePrevote voter p k = k\<lparr>or_prevotes := go_put voter p (or_prevotes k)\<rparr>"

definition DeleteAggregateExchangeRatePrevote :: "addr \<Rightarrow> oracle_state \<Rightarrow> oracle_state" where
  "DeleteAggregateExchangeRatePrevote voter k = k\<lparr>or_prevotes := go_del voter (or_prevotes k)\<rparr>"

definition GetAggregateExchangeRateVote :: "oracle_state \<Rightarrow> addr \<Rightarrow> aggregate_vote outcome" where
  "GetAggregateExchangeRateVote k voter =
    (case map_of (or_votes k) voter of None \<Rightarrow> Err ErrNoAggregateVote | Some v \<Rightarrow> Ok v)"

definition SetAggregateExchangeRateVote :: "addr \<Rightarrow> aggregate_vote \<Rightarrow> oracle_state \<Rightarrow> oracle_state" where
  "SetAggregateExchangeRateVote voter v k = k\<lparr>or_votes := go_put voter v (or_votes k)\<rparr>"

definition DeleteAggregateExchangeRateVote :: "addr \<Rightarrow> oracle_state \<Rightarrow> oracle_state" where
  "DeleteAggregateExchangeRateVote voter k = k\<lparr>or_votes := go_del voter (or_votes k)\<rparr>"

definition GetTobinTax :: "oracle_state \<Rightarrow> denom \<Rightarrow> dec outcome" where
  "GetTobinTax k d = (case map_of (or_tobin k) d of None \<Rightarrow> Err (ErrNoTobinTax d) | Some t \<Rightarrow> Ok t)"

definition SetTobinTax :: "denom \<Rightarrow> dec \<Rightarrow> oracle_state \<Rightarrow> oracle_state" where
  "SetTobinTax d t k = k\<lparr>or_tobin := go_put d t (or_tobin k)\<rparr>"

definition IterateTobinTaxes :: "oracle_state \<Rightarrow> (denom \<times> dec) list" where
  "IterateTobinTaxes k = kv_iter (or_tobin k)"

definition ClearTobinTaxes :: "oracle_state \<Rightarrow> oracle_state" where
  "ClearTobinTaxes k = k\<lparr>or_tobin := fold go_del (map fst (kv_iter (or_tobin k))) (or_tobin k)\<rparr>"

definition IsVoteTarget :: "oracle_state \<Rightarrow> denom \<Rightarrow> bool" where
  "IsVoteTarget k d = (case GetTobinTax k d of Ok _ \<Rightarrow> True | _ \<Rightarrow> False)"

definition GetVoteTargets :: "oracle_state \<Rightarrow> denom list" where
  "GetVoteTargets k = map fst (IterateTobinTaxes k)"

definition ValidateFeeder :: "validators \<Rightarrow> oracle_state \<Rightarrow> addr \<Rightarrow> addr \<Rightarrow> unit outcome" where
  "ValidateFeeder vals k feederAddr validatorAddr =
    andThen (if feederAddr \<noteq> validatorAddr
             then require (GetFeederDelegation k validatorAddr = feederAddr) ErrNoVotingPermission
             else Ok ()) (\<lambda>_.
    case vals validatorAddr of
      None \<Rightarrow> Err ErrNoValidatorFound
    | Some v \<Rightarrow> require (val_bonded v) ErrNoValidatorFound)"


section \<open>Hashes\<close>

text \<open>\<open>encoding/hex\<close>: two lower-case digits per byte; decoding accepts both cases.\<close>

definition hex_digits :: string where
  "hex_digits = ''0123456789abcdef''"

definition hex_byte :: "char \<Rightarrow> string" where
  "hex_byte c = [hex_digits ! (of_char c div 16), hex_digits ! (of_char c mod 16)]"

definition hex_encode :: "string \<Rightarrow> string" where
  "hex_encode bs = concat (map hex_byte bs)"

definition hex_val :: "char \<Rightarrow> nat option" where
  "hex_val c = (let n = of_char c in
     if 48 \<le> n \<and> n \<le> 57 then Some (n - 48)
     else if 97 \<le> n \<and> n \<le> 102 then Some (n - 87)
     else if 65 \<le> n \<and> n \<le> 70 then Some (n - 55)
     else None)"

fun hex_decode :: "string \<Rightarrow> string outcome" where
  "hex_decode [] = Ok []"
| "hex_decode [c] = Err (ErrMsg ''odd length hex string'')"
| "hex_decode (a # b # s) =
    (case (hex_val a, hex_val b) of
       (Some x, Some y) \<Rightarrow> andThen (hex_decode s) (\<lambda>bs. Ok (char_of (16 * x + y) # bs))
     | _ \<Rightarrow> Err (ErrMsg ''invalid byte''))"

definition GetAggregateVoteHash ::
  "sdk \<Rightarrow> (string \<Rightarrow> string) \<Rightarrow> string \<Rightarrow> string \<Rightarrow> addr \<Rightarrow> string" where
  "GetAggregateVoteHash S tmhash salt exchangeRatesStr voter =
    tmhash (salt @ '':'' @ exchangeRatesStr @ '':'' @ val_bech32 S voter)"

definition AggregateVoteHashFromHexString :: "string \<Rightarrow> string outcome" where
  "AggregateVoteHashFromHexString s = hex_decode s"

definition NewAggregateExchangeRatePrevote ::
  "sdk \<Rightarrow> string \<Rightarrow> addr \<Rightarrow> u64 \<Rightarrow> aggregate_prevote" where
  "NewAggregateExchangeRatePrevote S hash voter submitBlock =
    \<lparr>pv_hash = hex_encode hash, pv_voter = val_bech32 S voter, pv_block = submitBlock\<rparr>"

definition NewAggregateExchangeRateVote ::
  "sdk \<Rightarrow> exchange_rate_tuple list \<Rightarrow> addr \<Rightarrow> aggregate_vote" where
  "NewAggregateExchangeRateVote S tuples voter =
    \<lparr>av_tuples = tuples, av_voter = val_bech32 S voter\<rparr>"


section \<open>Parsing rates\<close>

text \<open>\<open>strings.TrimSpace\<close> on ASCII text, and \<open>strings.Split\<close> at a comma.\<close>

definition is_space :: "char \<Rightarrow> bool" where
  "is_space c = ((of_char c :: nat) \<in> set [9, 10, 11, 12, 13, 32])"

definition trim_space :: "string \<Rightarrow> string" where
  "trim_space s = rev (dropWhile is_space (rev (dropWhile is_space s)))"

fun split_comma :: "string \<Rightarrow> string list" where
  "split_comma [] = [[]]"
| "split_comma (c # s) =
    (if c = CHR '','' then [] # split_comma s
     else case split_comma s of [] \<Rightarrow> [[c]] | w # ws \<Rightarrow> (c # w) # ws)"

definition parse_step ::
  "sdk \<Rightarrow> string \<Rightarrow> exchange_rate_tuple list \<Rightarrow> exchange_rate_tuple list outcome" where
  "parse_step S tupleStr tuples =
    andThen (parse_dec_coin S tupleStr) (\<lambda>decCoin.
    if dc_denom decCoin \<in> t_denom ` set tuples then Err (ErrMsg ''duplicated denom'')
    else Ok (tuples @ [\<lparr>t_denom = dc_denom decCoin, t_rate = dc_amount decCoin\<rparr>]))"

definition ParseExchangeRateTuples :: "sdk \<Rightarrow> string \<Rightarrow> exchange_rate_tuple list outcome" where
  "ParseExchangeRateTuples S tuplesStr =
    (let s = trim_space tuplesStr in
     if s = [] then Ok [] else forEach (parse_step S) (split_comma s) [])"


section \<open>Messages\<close>

record msg_prevote =
  mp_hash :: string
  mp_feeder :: string
  mp_validator :: string

record msg_vote =
  mv_salt :: string
  mv_rates :: string
  mv_feeder :: string
  mv_validator :: string

record msg_delegate =
  md_operator :: string
  md_delegate :: string

definition TruncatedSize :: nat where
  "TruncatedSize = 20"

definition MsgPrevote_ValidateBasic :: "sdk \<Rightarrow> msg_prevote \<Rightarrow> unit outcome" where
  "MsgPrevote_ValidateBasic S msg =
    andThen (wrapErr ErrInvalidHash (AggregateVoteHashFromHexString (mp_hash msg))) (\<lambda>_.
    andThen (require (length (mp_hash msg) = TruncatedSize * 2) ErrInvalidHashLength) (\<lambda>_.
    andThen (wrapErr ErrInvalidAddress (acc_of_bech32 S (mp_feeder msg))) (\<lambda>_.
    andThen (wrapErr ErrInvalidAddress (val_of_bech32 S (mp_validator msg))) (\<lambda>_. Ok ()))))"

text \<open>\<open>255 + sdk.DecimalPrecisionBits\<close> is the argument \<open>rateBits\<close>.\<close>

definition MsgVote_ValidateBasic :: "sdk \<Rightarrow> nat \<Rightarrow> msg_vote \<Rightarrow> unit outcome" where
  "MsgVote_ValidateBasic S rateBits msg =
    andThen (wrapErr ErrInvalidAddress (acc_of_bech32 S (mv_feeder msg))) (\<lambda>_.
    andThen (wrapErr ErrInvalidAddress (val_of_bech32 S (mv_validator msg))) (\<lambda>_.
    if length (mv_rates msg) = 0 then Err ErrUnknownRequest
    else if 4096 < length (mv_rates msg) then Err ErrInvalidRequest
    else
    andThen (wrapErr ErrInvalidCoins (ParseExchangeRateTuples S (mv_rates msg))) (\<lambda>exchangeRates.
    andThen (forEach (\<lambda>t _. require (\<not> rateBits < bit_len (t_rate t)) ErrInvalidExchangeRate)
      exchangeRates ()) (\<lambda>_.
    require (\<not> (4 < length (mv_salt msg) \<or> length (mv_salt msg) < 1)) ErrInvalidSaltLength))))"

definition MsgDelegate_ValidateBasic :: "sdk \<Rightarrow> msg_delegate \<Rightarrow> unit outcome" where
  "MsgDelegate_ValidateBasic S msg =
    andThen (wrapErr ErrInvalidAddress (val_of_bech32 S (md_operator msg))) (\<lambda>_.
    andThen (wrapErr ErrInvalidAddress (acc_of_bech32 S (md_delegate msg))) (\<lambda>_. Ok ()))"

definition AggregateExchangeRatePrevote ::
  "sdk \<Rightarrow> validators \<Rightarrow> ctx \<Rightarrow> msg_prevote \<Rightarrow> oracle_state \<Rightarrow> oracle_state outcome" where
  "AggregateExchangeRatePrevote S vals c msg k =
    andThen (val_of_bech32 S (mp_validator msg)) (\<lambda>valAddr.
    andThen (acc_of_bech32 S (mp_feeder msg)) (\<lambda>feederAddr.
    andThen (ValidateFeeder vals k feederAddr valAddr) (\<lambda>_.
    andThen (wrapErr ErrInvalidHash (AggregateVoteHashFromHexString (mp_hash msg))) (\<lambda>voteHash.
    Ok (SetAggregateExchangeRatePrevote valAddr
      (NewAggregateExchangeRatePrevote S voteHash valAddr (word_of_int (ctx_height c))) k)))))"

definition AggregateExchangeRateVote ::
  "sdk \<Rightarrow> validators \<Rightarrow> (string \<Rightarrow> string) \<Rightarrow> ctx \<Rightarrow> msg_vote \<Rightarrow> oracle_state \<Rightarrow> oracle_state outcome" where
  "AggregateExchangeRateVote S vals tmhash c msg k =
    andThen (val_of_bech32 S (mv_validator msg)) (\<lambda>valAddr.
    andThen (acc_of_bech32 S (mv_feeder msg)) (\<lambda>feederAddr.
    andThen (ValidateFeeder vals k feederAddr valAddr) (\<lambda>_.
    andThen (wrapErr ErrNoAggregatePrevote (GetAggregateExchangeRatePrevote k valAddr)) (\<lambda>aggregatePrevote.
    let votePeriod = VotePeriod (or_params k) in
    if votePeriod = 0 then Panic
    else if word_of_int (ctx_height c) div votePeriod - pv_block aggregatePrevote div votePeriod \<noteq> 1
    then Err ErrRevealPeriodMissMatch
    else
    andThen (wrapErr ErrInvalidCoins (ParseExchangeRateTuples S (mv_rates msg))) (\<lambda>tuples.
    andThen (forEach (\<lambda>t _. require (IsVoteTarget k (t_denom t)) (ErrUnknownDenom (t_denom t))) tuples ()) (\<lambda>_.
    let hash = GetAggregateVoteHash S tmhash (mv_salt msg) (mv_rates msg) valAddr in
    if pv_hash aggregatePrevote \<noteq> hex_encode hash then Err ErrVerificationFailed
    else Ok (DeleteAggregateExchangeRatePrevote valAddr
      (SetAggregateExchangeRateVote valAddr (NewAggregateExchangeRateVote S tuples valAddr) k))))))))"

definition DelegateFeedConsent ::
  "sdk \<Rightarrow> validators \<Rightarrow> msg_delegate \<Rightarrow> oracle_state \<Rightarrow> oracle_state outcome" where
  "DelegateFeedConsent S vals msg k =
    andThen (val_of_bech32 S (md_operator msg)) (\<lambda>operatorAddr.
    andThen (acc_of_bech32 S (md_delegate msg)) (\<lambda>delegateAddr.
    case vals operatorAddr of
      None \<Rightarrow> Err ErrNoValidatorFound
    | Some _ \<Rightarrow> Ok (SetFeederDelegation operatorAddr delegateAddr k)))"

datatype oracle_msg =
    MsgDelegateFeedConsent msg_delegate
  | MsgAggregateExchangeRatePrevote msg_prevote
  | MsgAggregateExchangeRateVote msg_vote

fun oracle_handler ::
  "sdk \<Rightarrow> validators \<Rightarrow> (string \<Rightarrow> string) \<Rightarrow> ctx \<Rightarrow> oracle_msg \<Rightarrow> oracle_state \<Rightarrow> oracle_state outcome" where
  "oracle_handler S vals tmhash c (MsgDelegateFeedConsent m) k = DelegateFeedConsent S vals m k"
| "oracle_handler S vals tmhash c (MsgAggregateExchangeRatePrevote m) k =
    AggregateExchangeRatePrevote S vals c m k"
| "oracle_handler S vals tmhash c (MsgAggregateExchangeRateVote m) k =
    AggregateExchangeRateVote S vals tmhash c m k"

section \<open>Parameters\<close>

definition percent33 :: dec where
  "percent33 = 33 * 10 ^ 16"

definition oracle_DefaultParams :: oracle_params where
  "oracle_DefaultParams =
    (let tax = 25 * 10 ^ 14 in
     \<lparr>VotePeriod = BlocksPerMinute div 2, VoteThreshold = 50 * 10 ^ 16, RewardBand = 2 * 10 ^ 16,
      RewardDistributionWindow = BlocksPerYear,
      Whitelist = [\<lparr>di_name = MicroKRWDenom, di_tobin = tax\<rparr>, \<lparr>di_name = MicroSDRDenom, di_tobin = tax\<rparr>,
        \<lparr>di_name = MicroUSDDenom, di_tobin = tax\<rparr>, \<lparr>di_name = ''umnt'', di_tobin = tax * 8\<rparr>],
      SlashFraction = 10 ^ 14, SlashWindow = BlocksPerWeek, MinValidPerWindow = 5 * 10 ^ 16\<rparr>)"

definition whitelist_item_check :: "denom_item \<Rightarrow> unit outcome" where
  "whitelist_item_check d =
    (if one_dec < di_tobin d \<or> di_tobin d < 0 then Err (ErrMsg ''Whitelist Denom must have TobinTax between [0, 1]'')
     else if length (di_name d) = 0 then Err (ErrMsg ''Whitelist Denom must have name'')
     else Ok ())"

definition oracle_Params_Validate :: "oracle_params \<Rightarrow> unit outcome" where
  "oracle_Params_Validate p =
    (if VotePeriod p = 0 then Err (ErrMsg ''VotePeriod must be > 0'')
     else if VoteThreshold p \<le> percent33 then Err (ErrMsg ''VoteThreshold must be greater than 33 percent'')
     else if one_dec < RewardBand p \<or> RewardBand p < 0 then Err (ErrMsg ''RewardBand must be between [0, 1]'')
     else if RewardDistributionWindow p < VotePeriod p
       then Err (ErrMsg ''RewardDistributionWindow must be greater than or equal with VotePeriod'')
     else if one_dec < SlashFraction p \<or> SlashFraction p < 0
       then Err (ErrMsg ''SlashFraction must be between [0, 1]'')
     else if SlashWindow p < VotePeriod p
       then Err (ErrMsg ''SlashWindow must be greater than or equal with VotePeriod'')
     else if one_dec < MinValidPerWindow p \<or> MinValidPerWindow p < 0
       then Err (ErrMsg ''MinValidPerWindow must be between [0, 1]'')
     else forEach (\<lambda>d _. whitelist_item_check d) (Whitelist p) ())"

definition validateVotePeriod :: "u64 \<Rightarrow> unit outcome" where
  "validateVotePeriod v = require (v \<noteq> 0) (ErrMsg ''vote period must be positive'')"

definition validateVoteThreshold :: "dec \<Rightarrow> unit outcome" where
  "validateVoteThreshold v =
    (if v < percent33 then Err (ErrMsg ''vote threshold must be bigger than 33%'')
     else require (v \<le> one_dec) (ErrMsg ''vote threshold too large''))"

definition validateRewardBand :: "dec \<Rightarrow> unit outcome" where
  "validateRewardBand v =
    (if v < 0 then Err (ErrMsg ''reward band must be positive'')
     else require (v \<le> one_dec) (ErrMsg ''reward band is too large''))"

definition validateRewardDistributionWindow :: "u64 \<Rightarrow> unit outcome" where
  "validateRewardDistributionWindow v =
    require (v \<noteq> 0) (ErrMsg ''reward distribution window must be positive'')"

definition validateWhitelist :: "denom_item list \<Rightarrow> unit outcome" where
  "validateWhitelist v = forEach (\<lambda>d _. whitelist_item_check d) v ()"

definition validateSlashFraction :: "dec \<Rightarrow> unit outcome" where
  "validateSlashFraction v =
    (if v < 0 then Err (ErrMsg ''slash fraction must be positive'')
     else require (v \<le> one_dec) (ErrMsg ''slash fraction is too large''))"

definition validateSlashWindow :: "u64 \<Rightarrow> unit outcome" where
  "validateSlashWindow v = require (v \<noteq> 0) (ErrMsg ''slash window must be positive'')"

definition validateMinValidPerWindow :: "dec \<Rightarrow> unit outcome" where
  "validateMinValidPerWindow v =
    (if v < 0 then Err (ErrMsg ''min valid per window must be positive'')
     else require (v \<le> one_dec) (ErrMsg ''min valid per window is too large''))"

text \<open>The pairs of the parameter set with their validators, checked one after the other.\<close>

definition oracle_ParamSetPairs :: "oracle_params \<Rightarrow> unit outcome" where
  "oracle_ParamSetPairs p =
    andThen (validateVotePeriod (VotePeriod p)) (\<lambda>_.
    andThen (validateVoteThreshold (VoteThreshold p)) (\<lambda>_.
    andThen (validateRewardBand (RewardBand p)) (\<lambda>_.
    andThen (validateRewardDistributionWindow (RewardDistributionWindow p)) (\<lambda>_.
    andThen (validateWhitelist (Whitelist p)) (\<lambda>_.
    andThen (validateSlashFraction (SlashFraction p)) (\<lambda>_.
    andThen (validateSlashWindow (SlashWindow p)) (\<lambda>_.
    validateMinValidPerWindow (MinValidPerWindow p))))))))"

text \<open>The parameter store panics when a validator rejects a value.\<close>

definition oracle_SetParams :: "oracle_params \<Rightarrow> oracle_state \<Rightarrow> oracle_state outcome" where
  "oracle_SetParams p k = andThen (mustOk (oracle_ParamSetPairs p)) (\<lambda>_. Ok (k\<lparr>or_params := p\<rparr>))"


section \<open>Genesis\<close>

record feeder_delegation =
  fd_feeder :: string
  fd_validator :: string

record miss_counter =
  mc_validator :: string
  mc_counter :: u64

record oracle_genesis =
  og_params :: oracle_params
  og_rates :: "exchange_rate_tuple list"
  og_feeders :: "feeder_delegation list"
  og_miss :: "miss_counter list"
  og_prevotes :: "aggregate_prevote list"
  og_votes :: "aggregate_vote list"
  og_tobin :: "(denom \<times> dec) list"

definition oracle_DefaultGenesisState :: oracle_genesis where
  "oracle_DefaultGenesisState =
    \<lparr>og_params = oracle_DefaultParams, og_rates = [], og_feeders = [], og_miss = [], og_prevotes = [],
     og_votes = [], og_tobin = []\<rparr>"

definition oracle_ValidateGenesis :: "oracle_genesis \<Rightarrow> unit outcome" where
  "oracle_ValidateGenesis g = oracle_Params_Validate (og_params g)"

definition oracle_InitGenesis ::
  "sdk \<Rightarrow> bool \<Rightarrow> oracle_genesis \<Rightarrow> oracle_state \<Rightarrow> oracle_state outcome" where
  "oracle_InitGenesis S hasModuleAccount g k0 =
    andThen (forEach (\<lambda>d k.
        andThen (mustOk (val_of_bech32 S (fd_validator d))) (\<lambda>voter.
        andThen (mustOk (acc_of_bech32 S (fd_feeder d))) (\<lambda>feeder.
        Ok (SetFeederDelegation voter feeder k)))) (og_feeders g) k0) (\<lambda>k1.
    let k2 = fold (\<lambda>ex. SetLunaExchangeRate (t_denom ex) (t_rate ex)) (og_rates g) k1 in
    andThen (forEach (\<lambda>mc k.
        andThen (mustOk (val_of_bech32 S (mc_validator mc))) (\<lambda>operator.
        Ok (SetMissCounter operator (mc_counter mc) k))) (og_miss g) k2) (\<lambda>k3.
    andThen (forEach (\<lambda>ap k.
        andThen (mustOk (val_of_bech32 S (pv_voter ap))) (\<lambda>valAddr.
        Ok (SetAggregateExchangeRatePrevote valAddr ap k))) (og_prevotes g) k3) (\<lambda>k4.
    andThen (forEach (\<lambda>av k.
        andThen (mustOk (val_of_bech32 S (av_voter av))) (\<lambda>valAddr.
        Ok (SetAggregateExchangeRateVote valAddr av k))) (og_votes g) k4) (\<lambda>k5.
    let k6 = (if og_tobin g \<noteq> [] then fold (\<lambda>(d, t). SetTobinTax d t) (og_tobin g) k5
              else fold (\<lambda>item. SetTobinTax (di_name item) (di_tobin item)) (Whitelist (og_params g)) k5) in
    andThen (oracle_SetParams (og_params g) k6) (\<lambda>k7.
    if hasModuleAccount then Ok k7 else Panic)))))"

definition oracle_ExportGenesis :: "sdk \<Rightarrow> oracle_state \<Rightarrow> oracle_genesis" where
  "oracle_ExportGenesis S k =
    \<lparr>og_params = or_params k,
     og_rates = map (\<lambda>(d, r). \<lparr>t_denom = d, t_rate = r\<rparr>) (kv_iter (or_rates k)),
     og_feeders = map (\<lambda>(v, f). \<lparr>fd_feeder = acc_bech32 S f, fd_validator = val_bech32 S v\<rparr>)
       (kv_iter (or_feeders k)),
     og_miss = map (\<lambda>(v, n). \<lparr>mc_validator = val_bech32 S v, mc_counter = n\<rparr>) (kv_iter (or_miss k)),
     og_prevotes = map snd (kv_iter (or_prevotes k)),
     og_votes = map snd (kv_iter (or_votes k)),
     og_tobin = IterateTobinTaxes k\<rparr>"

definition empty_oracle :: oracle_state where
  "empty_oracle = \<lparr>or_rates = [], or_feeders = [], or_miss = [], or_prevotes = [], or_votes = [],
     or_tobin = [], or_params = oracle_DefaultParams\<rparr>"

section \<open>Hexadecimal and parsing\<close>

lemma hex_val_digit: "n < 16 \<Longrightarrow> hex_val (hex_digits ! n) = Some n"
proof -
  have "\<forall>n\<in>set [0..<16]. hex_val (hex_digits ! n) = Some n" by code_simp
  then show "n < 16 \<Longrightarrow> ?thesis" by simp
qed

lemma hex_roundtrip: "hex_decode (hex_encode bs) = Ok bs"
proof (induction bs)
  case Nil
  then show ?case by (simp add: hex_encode_def)
next
  case (Cons c bs)
  have n: "(of_char c :: nat) < 256" by simp
  then have d: "(of_char c :: nat) div 16 < 16" by (simp add: less_mult_imp_div_less)
  have "16 * ((of_char c :: nat) div 16) + of_char c mod 16 = of_char c" by simp
  then have "char_of (16 * ((of_char c :: nat) div 16) + of_char c mod 16) = c"
    by (simp only: char_of_char)
  with Cons d show ?case by (simp add: hex_encode_def hex_byte_def hex_val_digit)
qed

lemma parse_step_Ok:
  "parse_step S s ts = Ok ts' \<Longrightarrow> distinct (map t_denom ts) \<Longrightarrow> distinct (map t_denom ts')"
  by (auto simp: parse_step_def split: if_splits)

lemma ParseExchangeRateTuples_distinct:
  assumes "ParseExchangeRateTuples S s = Ok ts"
  shows "distinct (map t_denom ts)"
proof (cases "trim_space s = []")
  case True
  with assms show ?thesis by (simp add: ParseExchangeRateTuples_def)
next
  case False
  with assms have "forEach (parse_step S) (split_comma (trim_space s)) [] = Ok ts"
    by (simp add: ParseExchangeRateTuples_def Let_def)
  then show ?thesis
    by (rule forEach_invariant [where P = "\<lambda>ts. distinct (map t_denom ts)"])
      (auto dest: parse_step_Ok)
qed


section \<open>Feeders and votes\<close>

lemma ValidateFeeder_Ok:
  "ValidateFeeder vals k f v = Ok () \<longleftrightarrow>
    (f = v \<or> GetFeederDelegation k v = f) \<and> (\<exists>w. vals v = Some w \<and> val_bonded w)"
  by (auto simp: ValidateFeeder_def split: option.splits)

lemma IsVoteTarget_iff: "IsVoteTarget k d \<longleftrightarrow> d \<in> keys (or_tobin k)"
  by (auto simp: IsVoteTarget_def GetTobinTax_def map_of_eq_None_iff split: option.splits)
    (metis domI dom_map_of_conv_image_fst)

text \<open>
  What a revealed vote rests on: an authorised feeder of a bonded validator, a prevote of the
  preceding vote period whose hash the revealed salt and rates have, and rates for distinct vote
  targets only.
\<close>

definition reveal_ok ::
  "sdk \<Rightarrow> validators \<Rightarrow> (string \<Rightarrow> string) \<Rightarrow> ctx \<Rightarrow> msg_vote \<Rightarrow> oracle_state \<Rightarrow> addr \<Rightarrow>
    exchange_rate_tuple list \<Rightarrow> bool" where
  "reveal_ok S vals H c msg k v ts \<longleftrightarrow>
    val_of_bech32 S (mv_validator msg) = Ok v
    \<and> (\<exists>f. acc_of_bech32 S (mv_feeder msg) = Ok f \<and> ValidateFeeder vals k f v = Ok ())
    \<and> (\<exists>p. map_of (or_prevotes k) v = Some p
         \<and> pv_hash p = hex_encode (GetAggregateVoteHash S H (mv_salt msg) (mv_rates msg) v)
         \<and> VotePeriod (or_params k) \<noteq> 0
         \<and> word_of_int (ctx_height c) div VotePeriod (or_params k) = pv_block p div VotePeriod (or_params k) + 1)
    \<and> ParseExchangeRateTuples S (mv_rates msg) = Ok ts
    \<and> t_denom ` set ts \<subseteq> keys (or_tobin k)"

lemma GetPrevote_Ok: "GetAggregateExchangeRatePrevote k v = Ok p \<longleftrightarrow> map_of (or_prevotes k) v = Some p"
  by (simp add: GetAggregateExchangeRatePrevote_def split: option.splits)

lemma Vote_Ok_iff:
  "AggregateExchangeRateVote S vals H c msg k = Ok k' \<longleftrightarrow>
    (\<exists>v ts. reveal_ok S vals H c msg k v ts
      \<and> k' = k\<lparr>or_votes := go_put v \<lparr>av_tuples = ts, av_voter = val_bech32 S v\<rparr> (or_votes k),
               or_prevotes := go_del v (or_prevotes k)\<rparr>)"
proof -
  have sub: "(x::u64) - y \<noteq> 1 \<longleftrightarrow> x \<noteq> y + 1" for x y by (auto simp: algebra_simps)
  show ?thesis
    unfolding AggregateExchangeRateVote_def Let_def sub reveal_ok_def
    by (simp add: GetPrevote_Ok forEach_require IsVoteTarget_iff
        DeleteAggregateExchangeRatePrevote_def SetAggregateExchangeRateVote_def
        NewAggregateExchangeRateVote_def image_subset_iff) blast
qed

lemma Prevote_Ok_iff:
  "AggregateExchangeRatePrevote S vals c msg k = Ok k' \<longleftrightarrow>
    (\<exists>v f h. val_of_bech32 S (mp_validator msg) = Ok v \<and> acc_of_bech32 S (mp_feeder msg) = Ok f
      \<and> ValidateFeeder vals k f v = Ok () \<and> hex_decode (mp_hash msg) = Ok h
      \<and> k' = k\<lparr>or_prevotes := go_put v \<lparr>pv_hash = hex_encode h, pv_voter = val_bech32 S v,
           pv_block = word_of_int (ctx_height c)\<rparr> (or_prevotes k)\<rparr>)"
  by (auto simp: AggregateExchangeRatePrevote_def SetAggregateExchangeRatePrevote_def
      NewAggregateExchangeRatePrevote_def AggregateVoteHashFromHexString_def)

lemma Delegate_Ok_iff:
  "DelegateFeedConsent S vals msg k = Ok k' \<longleftrightarrow>
    (\<exists>v f w. val_of_bech32 S (md_operator msg) = Ok v \<and> acc_of_bech32 S (md_delegate msg) = Ok f
      \<and> vals v = Some w \<and> k' = k\<lparr>or_feeders := go_put v f (or_feeders k)\<rparr>)"
  by (auto simp: DelegateFeedConsent_def SetFeederDelegation_def split: option.splits)

lemmas oracle_msg_iffs = Vote_Ok_iff Prevote_Ok_iff Delegate_Ok_iff


section \<open>The store invariant\<close>

definition oracle_wf :: "sdk \<Rightarrow> oracle_state \<Rightarrow> bool" where
  "oracle_wf S k \<longleftrightarrow>
    go_map (or_rates k) \<and> go_map (or_feeders k) \<and> go_map (or_miss k) \<and> go_map (or_prevotes k)
    \<and> go_map (or_votes k) \<and> go_map (or_tobin k)
    \<and> go_all (\<lambda>v f. length v = 20 \<and> length f = 20) (or_feeders k)
    \<and> go_all (\<lambda>v n. length v = 20) (or_miss k)
    \<and> go_all (\<lambda>v p. length v = 20 \<and> pv_voter p = val_bech32 S v) (or_prevotes k)
    \<and> go_all (\<lambda>v a. length v = 20 \<and> av_voter a = val_bech32 S v
         \<and> distinct (map t_denom (av_tuples a))) (or_votes k)"

lemma val_length: "addr_laws S \<Longrightarrow> val_of_bech32 S s = Ok a \<Longrightarrow> length a = 20"
  unfolding addr_laws_def by blast

lemma acc_length: "addr_laws S \<Longrightarrow> acc_of_bech32 S s = Ok a \<Longrightarrow> length a = 20"
  unfolding addr_laws_def by blast

lemma oracle_handler_wf:
  assumes A: "addr_laws S" and wf: "oracle_wf S k"
    and h: "oracle_handler S vals H c msg k = Ok k'"
  shows "oracle_wf S k'"
proof (cases msg)
  case (MsgDelegateFeedConsent m)
  with h obtain v f where "k' = k\<lparr>or_feeders := go_put v f (or_feeders k)\<rparr>" "length v = 20" "length f = 20"
    using val_length [OF A] acc_length [OF A] by (auto simp: Delegate_Ok_iff)
  with wf show ?thesis by (simp add: oracle_wf_def)
next
  case (MsgAggregateExchangeRatePrevote m)
  with h obtain v p where "k' = k\<lparr>or_prevotes := go_put v p (or_prevotes k)\<rparr>" "length v = 20"
    "pv_voter p = val_bech32 S v"
    using val_length [OF A] by (auto simp: Prevote_Ok_iff)
  with wf show ?thesis by (simp add: oracle_wf_def)
next
  case (MsgAggregateExchangeRateVote m)
  with h obtain v ts where "reveal_ok S vals H c m k v ts"
    and k': "k' = k\<lparr>or_votes := go_put v \<lparr>av_tuples = ts, av_voter = val_bech32 S v\<rparr> (or_votes k),
               or_prevotes := go_del v (or_prevotes k)\<rparr>"
    by (auto simp: Vote_Ok_iff)
  then have "length v = 20" "distinct (map t_denom ts)"
    using val_length [OF A] ParseExchangeRateTuples_distinct by (auto simp: reveal_ok_def)
  with wf k' show ?thesis by (simp add: oracle_wf_def)
qed

section \<open>Genesis\<close>

text \<open>The store with its keys in iteration order: the same content, in the order an export lists it.\<close>

definition in_order :: "oracle_state \<Rightarrow> oracle_state" where
  "in_order k = k\<lparr>or_rates := kv_iter (or_rates k), or_feeders := kv_iter (or_feeders k),
     or_miss := kv_iter (or_miss k), or_prevotes := kv_iter (or_prevotes k),
     or_votes := kv_iter (or_votes k), or_tobin := kv_iter (or_tobin k)\<rparr>"

lemma in_order_content:
  assumes "oracle_wf S k"
  shows "map_of (or_rates (in_order k)) = map_of (or_rates k)"
    "map_of (or_feeders (in_order k)) = map_of (or_feeders k)"
    "map_of (or_miss (in_order k)) = map_of (or_miss k)"
    "map_of (or_prevotes (in_order k)) = map_of (or_prevotes k)"
    "map_of (or_votes (in_order k)) = map_of (or_votes k)"
    "map_of (or_tobin (in_order k)) = map_of (or_tobin k)"
  using assms by (simp_all add: in_order_def oracle_wf_def map_of_kv_iter)

lemma fold_SetLunaExchangeRate:
  "fold (\<lambda>ex. SetLunaExchangeRate (t_denom ex) (t_rate ex))
     (map (\<lambda>(d, r). \<lparr>t_denom = d, t_rate = r\<rparr>) xs) k
   = k\<lparr>or_rates := fold (\<lambda>(d, r). go_put d r) xs (or_rates k)\<rparr>"
  by (induction xs arbitrary: k) (auto simp: SetLunaExchangeRate_def)

lemma fold_SetTobinTax:
  "fold (\<lambda>(d, t). SetTobinTax d t) xs k = k\<lparr>or_tobin := fold (\<lambda>(d, t). go_put d t) xs (or_tobin k)\<rparr>"
  by (induction xs arbitrary: k) (auto simp: SetTobinTax_def)

lemma init_feeders:
  assumes A: "addr_laws S" and "go_all (\<lambda>v f. length v = 20 \<and> length f = 20) xs"
  shows "forEach (\<lambda>d k.
        andThen (mustOk (val_of_bech32 S (fd_validator d))) (\<lambda>voter.
        andThen (mustOk (acc_of_bech32 S (fd_feeder d))) (\<lambda>feeder.
        Ok (SetFeederDelegation voter feeder k))))
      (map (\<lambda>(v, f). \<lparr>fd_feeder = acc_bech32 S f, fd_validator = val_bech32 S v\<rparr>) xs) k
    = Ok (k\<lparr>or_feeders := fold (\<lambda>(v, f). go_put v f) xs (or_feeders k)\<rparr>)"
  using assms(2)
proof (induction xs arbitrary: k)
  case (Cons p xs)
  obtain v f where p: "p = (v, f)" by (cases p)
  with Cons.prems A have "val_of_bech32 S (val_bech32 S v) = Ok v" "acc_of_bech32 S (acc_bech32 S f) = Ok f"
    by (simp_all add: addr_laws_def)
  with Cons p show ?case by (simp add: SetFeederDelegation_def)
qed simp

lemma init_miss:
  assumes A: "addr_laws S" and "go_all (\<lambda>v n. length v = 20) xs"
  shows "forEach (\<lambda>mc k.
        andThen (mustOk (val_of_bech32 S (mc_validator mc))) (\<lambda>operator.
        Ok (SetMissCounter operator (mc_counter mc) k)))
      (map (\<lambda>(v, n). \<lparr>mc_validator = val_bech32 S v, mc_counter = n\<rparr>) xs) k
    = Ok (k\<lparr>or_miss := fold (\<lambda>(v, n). go_put v n) xs (or_miss k)\<rparr>)"
  using assms(2)
proof (induction xs arbitrary: k)
  case (Cons p xs)
  obtain v n where p: "p = (v, n)" by (cases p)
  with Cons.prems A have "val_of_bech32 S (val_bech32 S v) = Ok v" by (simp add: addr_laws_def)
  with Cons p show ?case by (simp add: SetMissCounter_def)
qed simp

lemma init_prevotes:
  assumes A: "addr_laws S" and "go_all (\<lambda>v p. length v = 20 \<and> pv_voter p = val_bech32 S v) xs"
  shows "forEach (\<lambda>ap k.
        andThen (mustOk (val_of_bech32 S (pv_voter ap))) (\<lambda>valAddr.
        Ok (SetAggregateExchangeRatePrevote valAddr ap k))) (map snd xs) k
    = Ok (k\<lparr>or_prevotes := fold (\<lambda>(v, p). go_put v p) xs (or_prevotes k)\<rparr>)"
  using assms(2)
proof (induction xs arbitrary: k)
  case (Cons p xs)
  obtain v a where p: "p = (v, a)" by (cases p)
  with Cons.prems A have "val_of_bech32 S (pv_voter a) = Ok v" by (simp add: addr_laws_def)
  with Cons p show ?case by (simp add: SetAggregateExchangeRatePrevote_def)
qed simp

lemma init_votes:
  assumes A: "addr_laws S" and "go_all (\<lambda>v a. length v = 20 \<and> av_voter a = val_bech32 S v
         \<and> distinct (map t_denom (av_tuples a))) xs"
  shows "forEach (\<lambda>av k.
        andThen (mustOk (val_of_bech32 S (av_voter av))) (\<lambda>valAddr.
        Ok (SetAggregateExchangeRateVote valAddr av k))) (map snd xs) k
    = Ok (k\<lparr>or_votes := fold (\<lambda>(v, a). go_put v a) xs (or_votes k)\<rparr>)"
  using assms(2)
proof (induction xs arbitrary: k)
  case (Cons p xs)
  obtain v a where p: "p = (v, a)" by (cases p)
  with Cons.prems A have "val_of_bech32 S (av_voter a) = Ok v" by (simp add: addr_laws_def)
  with Cons p show ?case by (simp add: SetAggregateExchangeRateVote_def)
qed simp

lemma go_all_kv_iter [simp]: "go_all P (kv_iter m) = go_all P m"
  by (simp add: go_all_def)

lemma copy_kv_iter: "go_map m \<Longrightarrow> fold (\<lambda>(k, v). go_put k v) (kv_iter m) [] = kv_iter m"
  using copy_map [of "kv_iter m" "[]"] by simp

lemma genesis_roundtrip:
  assumes A: "addr_laws S" and wf: "oracle_wf S k" and tob: "or_tobin k \<noteq> []"
    and par: "oracle_ParamSetPairs (or_params k) = Ok ()"
  shows "oracle_InitGenesis S True (oracle_ExportGenesis S k) empty_oracle = Ok (in_order k)"
proof -
  have "kv_iter (or_tobin k) \<noteq> []"
    using tob by (metis mset_kv_iter mset_zero_iff)
  with wf par show ?thesis
    unfolding oracle_InitGenesis_def oracle_ExportGenesis_def
    by (simp add: init_feeders [OF A] init_miss [OF A] init_prevotes [OF A] init_votes [OF A]
        fold_SetLunaExchangeRate fold_SetTobinTax oracle_wf_def copy_kv_iter empty_oracle_def
        oracle_SetParams_def IterateTobinTaxes_def in_order_def Let_def)
qed

section \<open>Properties\<close>

text \<open>
  C13: commit and reveal. A vote message is accepted exactly when its feeder may act for a bonded
  validator, the validator's prevote was submitted in the vote period just before this one and
  holds the hash of the revealed salt and rates, and every rate is for a different current vote
  target. The vote then replaces the prevote, and nothing else in the store changes.
\<close>

theorem reveal_accepted_iff:
  "AggregateExchangeRateVote S vals H c msg k = Ok k' \<longleftrightarrow>
    (\<exists>v ts. reveal_ok S vals H c msg k v ts \<and> distinct (map t_denom ts)
      \<and> k' = k\<lparr>or_votes := go_put v \<lparr>av_tuples = ts, av_voter = val_bech32 S v\<rparr> (or_votes k),
               or_prevotes := go_del v (or_prevotes k)\<rparr>)"
  using ParseExchangeRateTuples_distinct unfolding Vote_Ok_iff reveal_ok_def by blast

definition rates_sdk :: sdk where
  "rates_sdk = sdk_ref\<lparr>parse_dec_coin := (\<lambda>s. Ok \<lparr>dc_denom = ''uusd'', dc_amount = 7 * one_dec\<rparr>)\<rparr>"

definition sample_val :: addr where
  "sample_val = ''aaaaaaaaaaaaaaaaaaaa''"

definition sample_validator :: validator where
  "sample_validator = \<lparr>val_operator = sample_val, val_bonded = True, val_jailed = False, val_power = 1\<rparr>"

definition sample_oracle :: oracle_state where
  "sample_oracle = empty_oracle\<lparr>or_tobin := [(''uusd'', 0)]\<rparr>"

lemma addr_laws_rates_sdk: "addr_laws rates_sdk"
  using addr_laws_sdk_ref by (simp add: addr_laws_def rates_sdk_def)

text \<open>
  consent to a feeder is exclusive: after an operator has delegated to a feeder, exactly that
  feeder and the operator itself may vote for the operator, and only while the validator is bonded;
  the permissions of every other operator stay.
\<close>

theorem delegation_exclusive:
  assumes "DelegateFeedConsent S vals msg k = Ok k'" "val_of_bech32 S (md_operator msg) = Ok v"
    "acc_of_bech32 S (md_delegate msg) = Ok f"
  shows "(ValidateFeeder vals k' x v = Ok () \<longleftrightarrow>
      (x = v \<or> x = f) \<and> (\<exists>w. vals v = Some w \<and> val_bonded w))
    \<and> (u \<noteq> v \<longrightarrow> ValidateFeeder vals k' x u = ValidateFeeder vals k x u)"
proof -
  from assms have k': "k' = k\<lparr>or_feeders := go_put v f (or_feeders k)\<rparr>" by (auto simp: Delegate_Ok_iff)
  then have "ValidateFeeder vals k' x u = ValidateFeeder vals k x u" if "u \<noteq> v"
    using that by (simp add: ValidateFeeder_def GetFeederDelegation_def)
  moreover have "ValidateFeeder vals k' x v = Ok () \<longleftrightarrow>
      (x = v \<or> x = f) \<and> (\<exists>w. vals v = Some w \<and> val_bonded w)"
    using k' by (auto simp: ValidateFeeder_Ok GetFeederDelegation_def)
  ultimately show ?thesis by blast
qed

theorem delegation_exclusive_witness:
  "\<exists>k'. DelegateFeedConsent sdk_ref
      (\<lambda>_. Some sample_validator)
      \<lparr>md_operator = ''terravaloper1aaaaaaaaaaaaaaaaaaaa'', md_delegate = ''terra1bbbbbbbbbbbbbbbbbbbb''\<rparr>
      sample_oracle = Ok k'
    \<and> ValidateFeeder (\<lambda>_. Some sample_validator)
        k' ''bbbbbbbbbbbbbbbbbbbb'' sample_val = Ok ()"
proof -
  let ?vals = "\<lambda>_. Some sample_validator"
  let ?m = "\<lparr>md_operator = ''terravaloper1aaaaaaaaaaaaaaaaaaaa'', md_delegate = ''terra1bbbbbbbbbbbbbbbbbbbb''\<rparr>"
  have v: "val_of_bech32 sdk_ref (md_operator ?m) = Ok sample_val"
    and f: "acc_of_bech32 sdk_ref (md_delegate ?m) = Ok ''bbbbbbbbbbbbbbbbbbbb''"
    by (simp_all add: sample_val_def)
  then obtain k' where k': "DelegateFeedConsent sdk_ref ?vals ?m sample_oracle = Ok k'"
    by (auto simp: DelegateFeedConsent_def)
  from delegation_exclusive [OF k' v f, of "''bbbbbbbbbbbbbbbbbbbb''"] k' show ?thesis
    by (auto simp: sample_validator_def)
qed

text \<open>
  C32: a genesis export followed by an import into an empty store gives the same store content, with
  the same parameters, as long as there is a vote target and the parameters pass their validators.
\<close>

theorem oracle_genesis_roundtrip:
  assumes "addr_laws S" "oracle_wf S k" "or_tobin k \<noteq> []" "oracle_ParamSetPairs (or_params k) = Ok ()"
  shows "\<exists>k'. oracle_InitGenesis S True (oracle_ExportGenesis S k) empty_oracle = Ok k'
    \<and> or_params k' = or_params k \<and> map_of (or_rates k') = map_of (or_rates k)
    \<and> map_of (or_feeders k') = map_of (or_feeders k) \<and> map_of (or_miss k') = map_of (or_miss k)
    \<and> map_of (or_prevotes k') = map_of (or_prevotes k) \<and> map_of (or_votes k') = map_of (or_votes k)
    \<and> map_of (or_tobin k') = map_of (or_tobin k)"
  using genesis_roundtrip [OF assms] in_order_content [OF assms(2)] by (simp add: in_order_def)

lemma default_params_pass:
  "oracle_ParamSetPairs oracle_DefaultParams = Ok () \<and> oracle_Params_Validate oracle_DefaultParams = Ok ()"
  by (simp add: oracle_ParamSetPairs_def oracle_DefaultParams_def validateVotePeriod_def blocks_defs
      validateVoteThreshold_def percent33_def validateRewardBand_def validateRewardDistributionWindow_def
      validateWhitelist_def whitelist_item_check_def validateSlashFraction_def validateSlashWindow_def
      validateMinValidPerWindow_def oracle_Params_Validate_def one_dec_def Let_def MicroKRWDenom_def
      MicroSDRDenom_def MicroUSDDenom_def word_less_def uint_div)

theorem oracle_genesis_roundtrip_witness:
  "\<exists>k'. oracle_InitGenesis sdk_ref True
      (oracle_ExportGenesis sdk_ref (sample_oracle\<lparr>or_miss := [(sample_val, 3)]\<rparr>)) empty_oracle = Ok k'
    \<and> map_of (or_miss k') sample_val = Some 3"
proof -
  let ?k = "sample_oracle\<lparr>or_miss := [(sample_val, 3)]\<rparr>"
  have "oracle_wf sdk_ref ?k"
    by (simp add: oracle_wf_def sample_oracle_def empty_oracle_def sample_val_def)
  moreover have "or_tobin ?k \<noteq> []" "or_params ?k = oracle_DefaultParams"
    by (simp_all add: sample_oracle_def empty_oracle_def)
  ultimately have "\<exists>k'. oracle_InitGenesis sdk_ref True (oracle_ExportGenesis sdk_ref ?k) empty_oracle = Ok k'
      \<and> map_of (or_miss k') = map_of (or_miss ?k)"
    using oracle_genesis_roundtrip [OF addr_laws_sdk_ref, of ?k] default_params_pass by metis
  then show ?thesis by auto
qed

text \<open>
  The two parameter checks disagree about the vote threshold. For parameters that pass every
  other check, \<open>Validate\<close> demands more than 33 percent and sets no upper limit, while the validator
  of the parameter store accepts exactly 33 percent and nothing above one.
\<close>

theorem threshold_checks_disagree:
  assumes "oracle_Params_Validate (p\<lparr>VoteThreshold := one_dec\<rparr>) = Ok ()"
  shows "(oracle_Params_Validate (p\<lparr>VoteThreshold := t\<rparr>) = Ok () \<longleftrightarrow> percent33 < t)
    \<and> (oracle_ParamSetPairs (p\<lparr>VoteThreshold := t\<rparr>) = Ok () \<longleftrightarrow> percent33 \<le> t \<and> t \<le> one_dec)"
  using assms
  by (auto simp: oracle_Params_Validate_def oracle_ParamSetPairs_def validateVotePeriod_def
      validateVoteThreshold_def validateRewardBand_def validateRewardDistributionWindow_def
      validateWhitelist_def validateSlashFraction_def validateSlashWindow_def
      validateMinValidPerWindow_def not_less)

theorem threshold_checks_disagree_witness:
  "oracle_Params_Validate (oracle_DefaultParams\<lparr>VoteThreshold := 2 * one_dec\<rparr>) = Ok ()
   \<and> oracle_ParamSetPairs (oracle_DefaultParams\<lparr>VoteThreshold := 2 * one_dec\<rparr>) \<noteq> Ok ()
   \<and> oracle_ParamSetPairs (oracle_DefaultParams\<lparr>VoteThreshold := percent33\<rparr>) = Ok ()
   \<and> oracle_Params_Validate (oracle_DefaultParams\<lparr>VoteThreshold := percent33\<rparr>) \<noteq> Ok ()"
proof -
  have a: "oracle_Params_Validate (oracle_DefaultParams\<lparr>VoteThreshold := one_dec\<rparr>) = Ok ()"
    using default_params_pass by (simp add: oracle_Params_Validate_def percent33_def one_dec_def)
  show ?thesis
    using threshold_checks_disagree [OF a, of "2 * one_dec"] threshold_checks_disagree [OF a, of percent33]
    by (simp add: percent33_def one_dec_def)
qed

end
