(* ===== verification/OracleEndBlock.thy ===== *)
theory OracleEndBlock
  imports OracleKeeper
begin

text \<open>
  The end of an oracle block: \<open>src/x/oracle/abci.go\<close> with \<open>keeper/ballot.go\<close> (ballots from votes,
  clearing, whitelist), \<open>keeper/reward.go\<close> (rewards of ballot winners) and \<open>keeper/slash.go\<close> (slashing
  and reset of miss counters). The staking, bank and distribution keepers are the fields of the
  record \<open>env\<close>, functions on an unspecified state \<open>'x\<close>; \<open>rewards_law\<close> and the other law predicates
  state what the code relies on.
\<close>

section \<open>The keepers the module calls\<close>

record denom_metadata =
  dm_description :: string
  dm_units :: "(string \<times> nat \<times> string list) list"
  dm_base :: string
  dm_display :: string
  dm_name :: string
  dm_symbol :: string

record 'x env =
  env_max_validators :: "'x \<Rightarrow> nat"
  env_power_order :: "'x \<Rightarrow> addr list"
  env_validator :: "'x \<Rightarrow> validators"
  env_bonded_power :: "'x \<Rightarrow> int"
  env_cons_addr :: "'x \<Rightarrow> validator \<Rightarrow> addr outcome"
  env_slash :: "addr \<Rightarrow> int \<Rightarrow> int \<Rightarrow> dec \<Rightarrow> 'x \<Rightarrow> 'x"
  env_jail :: "addr \<Rightarrow> 'x \<Rightarrow> 'x"
  env_pool :: "'x \<Rightarrow> denom \<Rightarrow> int"
  env_all_balances :: "'x \<Rightarrow> coins"
  env_allocate :: "validator \<Rightarrow> dec_coins \<Rightarrow> 'x \<Rightarrow> 'x"
  env_send_to_distr :: "coins \<Rightarrow> 'x \<Rightarrow> 'x outcome"
  env_has_metadata :: "'x \<Rightarrow> denom \<Rightarrow> bool"
  env_set_metadata :: "denom_metadata \<Rightarrow> 'x \<Rightarrow> 'x"


section \<open>Ballots\<close>

definition collect_tuple :: "addr \<Rightarrow> int \<Rightarrow> exchange_rate_tuple \<Rightarrow> (denom, ballot) gomap \<Rightarrow> (denom, ballot) gomap" where
  "collect_tuple voterAddr pw t votes =
    (let tmpPower = (if 0 < t_rate t then pw else 0) in
     go_put (t_denom t) (go_get [] votes (t_denom t) @ [NewVoteForTally (t_rate t) (t_denom t) voterAddr tmpPower]) votes)"

definition collect_vote :: "claims \<Rightarrow> addr \<times> aggregate_vote \<Rightarrow> (denom, ballot) gomap \<Rightarrow> (denom, ballot) gomap" where
  "collect_vote validatorClaimMap p votes =
    (case map_of validatorClaimMap (av_voter (snd p)) of
       Some claim \<Rightarrow> fold (collect_tuple (fst p) (c_power claim)) (av_tuples (snd p)) votes
     | None \<Rightarrow> votes)"

definition OrganizeBallotByDenom :: "oracle_state \<Rightarrow> claims \<Rightarrow> (denom, ballot) gomap" where
  "OrganizeBallotByDenom k validatorClaimMap =
    (let votes = fold (collect_vote validatorClaimMap) (kv_iter (or_votes k)) []
     in map (\<lambda>(d, pb). (d, sort_ballot pb)) votes)"

definition ClearBallots :: "ctx \<Rightarrow> u64 \<Rightarrow> oracle_state \<Rightarrow> oracle_state" where
  "ClearBallots c votePeriod k =
    (let k1 = fold (\<lambda>(voterAddr, p) k.
        if sint (pv_block p + votePeriod) < ctx_height c
        then DeleteAggregateExchangeRatePrevote voterAddr k else k) (kv_iter (or_prevotes k)) k
     in fold (\<lambda>(voterAddr, v) k. DeleteAggregateExchangeRateVote voterAddr k) (kv_iter (or_votes k1)) k1)"

definition to_upper :: "char \<Rightarrow> char" where
  "to_upper ch = (let n = of_char ch in if 97 \<le> n \<and> n \<le> 122 then char_of (n - 32 :: nat) else ch)"

text \<open>The bank metadata of a whitelisted denom; slicing \<open>base[1:]\<close> and \<open>display[:len-1]\<close> panics when too short.\<close>

definition whitelist_metadata :: "denom \<Rightarrow> denom_metadata outcome" where
  "whitelist_metadata base =
    (if length base < 2 then Panic
     else let display = tl base in
     Ok \<lparr>dm_description = ''The native stable token of the Terra Columbus.'',
         dm_units = [(''u'' @ display, 0, [''micro'' @ display]), (''m'' @ display, 3, [''milli'' @ display]),
           (display, 6, [])],
         dm_base = base, dm_display = display, dm_name = map to_upper display @ '' TERRA'',
         dm_symbol = map to_upper (butlast display) @ ''T''\<rparr>)"

definition whitelist_step ::
  "'x env \<Rightarrow> denom_item \<Rightarrow> oracle_state \<times> 'x \<Rightarrow> (oracle_state \<times> 'x) outcome" where
  "whitelist_step E item s =
    (let k = SetTobinTax (di_name item) (di_tobin item) (fst s) in
     if env_has_metadata E (snd s) (di_name item) then Ok (k, snd s)
     else andThen (whitelist_metadata (di_name item)) (\<lambda>md. Ok (k, env_set_metadata E md (snd s))))"

definition whitelist_update_required :: "denom_item list \<Rightarrow> (denom, dec) gomap \<Rightarrow> bool" where
  "whitelist_update_required whitelist voteTargets =
    (if length voteTargets \<noteq> length whitelist then True
     else list_ex (\<lambda>item. map_of voteTargets (di_name item) \<noteq> Some (di_tobin item)) whitelist)"

definition ApplyWhitelist ::
  "'x env \<Rightarrow> denom_item list \<Rightarrow> (denom, dec) gomap \<Rightarrow> oracle_state \<times> 'x \<Rightarrow> (oracle_state \<times> 'x) outcome" where
  "ApplyWhitelist E whitelist voteTargets s =
    (if whitelist_update_required whitelist voteTargets
     then forEach (whitelist_step E) whitelist (ClearTobinTaxes (fst s), snd s)
     else Ok s)"


section \<open>Rewards\<close>

definition before_reward_fork :: "ctx \<Rightarrow> bool" where
  "before_reward_fork c \<longleftrightarrow>
    ctx_chain c = ColumbusChainID \<and> ctx_height c < 5100000
    \<or> ctx_chain c = BombayChainID \<and> ctx_height c < 6200000"

definition ballot_power_sum :: "claims \<Rightarrow> int" where
  "ballot_power_sum ballotWinners = fold (\<lambda>p s. i64 (s + c_weight (snd p))) ballotWinners 0"

definition legacy_reward_step ::
  "sdk \<Rightarrow> 'x env \<Rightarrow> dec \<Rightarrow> int \<Rightarrow> string \<times> claim \<Rightarrow> coins \<times> 'x \<Rightarrow> (coins \<times> 'x) outcome" where
  "legacy_reward_step S E periodRewards ballotPowerSum p s =
    (let winner = snd p; receiverVal = env_validator E (snd s) (c_recipient winner) in
     andThen (dec_quo_int S periodRewards ballotPowerSum) (\<lambda>share.
     andThen (dec_mul_int S share (c_weight winner)) (\<lambda>reward.
     andThen (dec_trunc S reward) (\<lambda>rewardAmt.
     andThen (new_coin S MicroLunaDenom rewardAmt) (\<lambda>rewardCoin.
     case receiverVal of
       Some v \<Rightarrow>
         if coins_is_zero S [rewardCoin] then Ok s
         else andThen (coins_add S (fst s) [rewardCoin]) (\<lambda>distributed.
              Ok (distributed, env_allocate E v (dec_coins_of_coins S [rewardCoin]) (snd s)))
     | None \<Rightarrow> Ok s)))))"

definition RewardBallotWinnersLegacy ::
  "sdk \<Rightarrow> 'x env \<Rightarrow> int \<Rightarrow> int \<Rightarrow> claims \<Rightarrow> 'x \<Rightarrow> 'x outcome" where
  "RewardBallotWinnersLegacy S E votePeriod rewardDistributionWindow ballotWinners x =
    (let ballotPowerSum = ballot_power_sum ballotWinners in
     if ballotPowerSum = 0 then Ok x
     else let rewardPool = env_all_balances E x in
     if coins_is_zero S rewardPool then Ok x
     else
     andThen (dec_mul_int S (dec_of_int (amt rewardPool MicroLunaDenom)) votePeriod) (\<lambda>m.
     andThen (dec_quo_int S m rewardDistributionWindow) (\<lambda>periodRewards.
     andThen (forEach (legacy_reward_step S E periodRewards ballotPowerSum) ballotWinners ([], x)) (\<lambda>s.
     mustOk (env_send_to_distr E (fst s) (snd s))))))"

definition period_reward_step ::
  "sdk \<Rightarrow> 'x env \<Rightarrow> 'x \<Rightarrow> dec \<Rightarrow> denom \<Rightarrow> dec_coins \<Rightarrow> dec_coins outcome" where
  "period_reward_step S E x distributionRatio d periodRewards =
    (let pool = env_pool E x d in
     if pool = 0 then Ok periodRewards
     else
     andThen (dec_mul S (dec_of_int pool) distributionRatio) (\<lambda>r.
     andThen (new_dec_coin S d r) (\<lambda>dc. dec_coins_add S periodRewards [dc])))"

definition reward_step ::
  "sdk \<Rightarrow> 'x env \<Rightarrow> dec_coins \<Rightarrow> int \<Rightarrow> string \<times> claim \<Rightarrow> coins \<times> 'x \<Rightarrow> (coins \<times> 'x) outcome" where
  "reward_step S E periodRewards ballotPowerSum p s =
    (let winner = snd p; receiverVal = env_validator E (snd s) (c_recipient winner) in
     andThen (dec_quo_int S (dec_of_int (c_weight winner)) ballotPowerSum) (\<lambda>share.
     andThen (dec_coins_mul S periodRewards share) (\<lambda>rewards.
     andThen (dec_coins_trunc S rewards) (\<lambda>rewardCoins.
     case receiverVal of
       Some v \<Rightarrow>
         if coins_is_zero S rewardCoins then Ok s
         else andThen (coins_add S (fst s) rewardCoins) (\<lambda>distributed.
              Ok (distributed, env_allocate E v (dec_coins_of_coins S rewardCoins) (snd s)))
     | None \<Rightarrow> Ok s))))"

definition RewardBallotWinners ::
  "sdk \<Rightarrow> 'x env \<Rightarrow> ctx \<Rightarrow> int \<Rightarrow> int \<Rightarrow> (denom, dec) gomap \<Rightarrow> claims \<Rightarrow> 'x \<Rightarrow> 'x outcome" where
  "RewardBallotWinners S E c votePeriod rewardDistributionWindow voteTargets ballotWinners x =
    (if before_reward_fork c
     then RewardBallotWinnersLegacy S E votePeriod rewardDistributionWindow ballotWinners x
     else
     let rewardDenoms = MicroLunaDenom # map fst voteTargets;
         ballotPowerSum = ballot_power_sum ballotWinners in
     if ballotPowerSum = 0 then Ok x
     else
     andThen (dec_quo_int S (dec_of_int votePeriod) rewardDistributionWindow) (\<lambda>distributionRatio.
     andThen (forEach (period_reward_step S E x distributionRatio) rewardDenoms []) (\<lambda>periodRewards.
     andThen (forEach (reward_step S E periodRewards ballotPowerSum) ballotWinners ([], x)) (\<lambda>s.
     mustOk (env_send_to_distr E (fst s) (snd s))))))"


section \<open>Slashing\<close>

definition vote_periods_per_window :: "sdk \<Rightarrow> oracle_params \<Rightarrow> u64 outcome" where
  "vote_periods_per_window S p =
    andThen (dec_quo_int S (dec_of_int (sint (SlashWindow p))) (sint (VotePeriod p))) (\<lambda>q.
    andThen (dec_trunc S q) (\<lambda>t. if in_i64 t then Ok (word_of_int t) else Panic))"

definition slash_step ::
  "sdk \<Rightarrow> 'x env \<Rightarrow> int \<Rightarrow> u64 \<Rightarrow> dec \<Rightarrow> dec \<Rightarrow> addr \<times> u64 \<Rightarrow> oracle_state \<times> 'x \<Rightarrow> (oracle_state \<times> 'x) outcome" where
  "slash_step S E distributionHeight votePeriodsPerWindow minValidPerWindow slashFraction p s =
    (let operator = fst p; missCounter = snd p in
     andThen (dec_quo_int S (dec_of_int (sint (votePeriodsPerWindow - missCounter)))
       (sint votePeriodsPerWindow)) (\<lambda>validVoteRate.
     andThen
       (if validVoteRate < minValidPerWindow
        then case env_validator E (snd s) operator of
            None \<Rightarrow> Panic
          | Some v \<Rightarrow>
             if val_bonded v \<and> \<not> val_jailed v
             then andThen (mustOk (env_cons_addr E (snd s) v)) (\<lambda>consAddr.
               Ok (env_jail E consAddr
                 (env_slash E consAddr distributionHeight (val_power v) slashFraction (snd s))))
             else Ok (snd s)
        else Ok (snd s)) (\<lambda>x.
     Ok (DeleteMissCounter operator (fst s), x))))"

text \<open>\<open>sdk.ValidatorUpdateDelay\<close> is one block.\<close>

definition SlashAndResetMissCounters ::
  "sdk \<Rightarrow> 'x env \<Rightarrow> ctx \<Rightarrow> oracle_state \<times> 'x \<Rightarrow> (oracle_state \<times> 'x) outcome" where
  "SlashAndResetMissCounters S E c s =
    (let p = or_params (fst s); distributionHeight = i64 (ctx_height c - 1 - 1) in
     andThen (vote_periods_per_window S p) (\<lambda>votePeriodsPerWindow.
     forEach (slash_step S E distributionHeight votePeriodsPerWindow (MinValidPerWindow p) (SlashFraction p))
       (kv_iter (or_miss (fst s))) s))"


section \<open>The end blocker\<close>

text \<open>Claims for the first bonded validators by power, at most the maximum number.\<close>

fun claim_loop :: "sdk \<Rightarrow> validators \<Rightarrow> nat \<Rightarrow> addr list \<Rightarrow> claims \<Rightarrow> claims outcome" where
  "claim_loop S vals n [] m = Ok m"
| "claim_loop S vals n (a # as) m =
    (if n = 0 then Ok m
     else case vals a of
         None \<Rightarrow> Panic
       | Some v \<Rightarrow>
          if val_bonded v
          then claim_loop S vals (n - 1) as
            (go_put (val_bech32 S (val_operator v)) (NewClaim (val_power v) 0 0 (val_operator v)) m)
          else claim_loop S vals n as m)"

definition clear_rates :: "oracle_state \<Rightarrow> oracle_state" where
  "clear_rates k = fold (\<lambda>(d, r). DeleteLunaExchangeRate d) (kv_iter (or_rates k)) k"

definition tally_step ::
  "sdk \<Rightarrow> ctx \<Rightarrow> dec \<Rightarrow> denom \<Rightarrow> (addr, dec) gomap \<Rightarrow> dec \<Rightarrow> denom \<times> ballot \<Rightarrow>
    claims \<times> oracle_state \<Rightarrow> (claims \<times> oracle_state) outcome" where
  "tally_step S c rewardBand referenceTerra voteMapRT exchangeRateRT p s =
    (let d = fst p in
     andThen (if d \<noteq> referenceTerra
              then if before_sort_fork c then ToCrossRate S voteMapRT (snd p)
                   else ToCrossRateWithSort S voteMapRT (snd p)
              else Ok (snd p)) (\<lambda>ballot.
     andThen (Tally S c ballot rewardBand (fst s)) (\<lambda>(rate, cm).
     andThen (if d \<noteq> referenceTerra then dec_quo S exchangeRateRT rate else Ok rate) (\<lambda>exchangeRate.
     Ok (cm, SetLunaExchangeRate d exchangeRate (snd s))))))"

definition tally_votes ::
  "sdk \<Rightarrow> ctx \<Rightarrow> dec \<Rightarrow> pick_state \<Rightarrow> claims \<Rightarrow> oracle_state \<Rightarrow> (claims \<times> oracle_state) outcome" where
  "tally_votes S c rewardBand pk cm k =
    (let referenceTerra = pk_reference pk in
     if referenceTerra = [] then Ok (cm, k)
     else
     let ballotRT = go_get [] (pk_votes pk) referenceTerra; voteMapRT = ToMap ballotRT in
     andThen (fork_median c ballotRT) (\<lambda>exchangeRateRT.
     forEach (tally_step S c rewardBand referenceTerra voteMapRT exchangeRateRT) (pk_votes pk) (cm, k)))"

definition count_miss :: "nat \<Rightarrow> string \<times> claim \<Rightarrow> oracle_state \<Rightarrow> oracle_state" where
  "count_miss voteTargetsLen p k =
    (let claim = snd p in
     if c_wins claim = int voteTargetsLen then k
     else SetMissCounter (c_recipient claim) (GetMissCounter k (c_recipient claim) + 1) k)"

definition vote_period_end ::
  "sdk \<Rightarrow> 'x env \<Rightarrow> ctx \<Rightarrow> oracle_state \<times> 'x \<Rightarrow> (oracle_state \<times> 'x) outcome" where
  "vote_period_end S E c s =
    (let k = fst s; x = snd s; params = or_params k in
     andThen (claim_loop S (env_validator E x) (env_max_validators E x) (env_power_order E x) []) (\<lambda>claims0.
     let voteTargets = fold (\<lambda>(d, t) m. go_put d t m) (IterateTobinTaxes k) [];
         k1 = clear_rates k;
         voteMap = OrganizeBallotByDenom k1 claims0 in
     andThen (PickReferenceTerra S (VoteThreshold params) (env_bonded_power E x) voteTargets voteMap) (\<lambda>pk.
     andThen (tally_votes S c (RewardBand params) pk claims0 k1) (\<lambda>(claims1, k2).
     let k3 = fold (count_miss (length (pk_targets pk))) claims1 k2 in
     andThen (RewardBallotWinners S E c (sint (VotePeriod params)) (sint (RewardDistributionWindow params))
       (pk_targets pk) claims1 x) (\<lambda>x1.
     let k4 = ClearBallots c (VotePeriod params) k3 in
     ApplyWhitelist E (Whitelist params) (pk_targets pk) (k4, x1))))))"

definition oracle_EndBlocker ::
  "sdk \<Rightarrow> 'x env \<Rightarrow> ctx \<Rightarrow> oracle_state \<times> 'x \<Rightarrow> (oracle_state \<times> 'x) outcome" where
  "oracle_EndBlocker S E c s =
    (let params = or_params (fst s) in
     andThen (IsPeriodLastBlock c (VotePeriod params)) (\<lambda>voteEnd.
     andThen (if voteEnd then vote_period_end S E c s else Ok s) (\<lambda>s1.
     andThen (IsPeriodLastBlock c (SlashWindow params)) (\<lambda>slashEnd.
     if slashEnd then SlashAndResetMissCounters S E c s1 else Ok s1))))"

section \<open>Ballots from votes\<close>

text \<open>The votes for one denom, in the order of the voters' addresses.\<close>

definition votes_for :: "claims \<Rightarrow> (addr \<times> aggregate_vote) list \<Rightarrow> denom \<Rightarrow> ballot" where
  "votes_for cm vs d = concat (map (\<lambda>(a, v). case map_of cm (av_voter v) of
     None \<Rightarrow> []
   | Some c \<Rightarrow> map (\<lambda>t. \<lparr>v_denom = d, v_rate = t_rate t, v_voter = a,
         v_power = (if 0 < t_rate t then c_power c else 0)\<rparr>)
       (filter (\<lambda>t. t_denom t = d) (av_tuples v))) vs)"

definition collected :: "(denom, ballot) gomap \<Rightarrow> (denom \<Rightarrow> ballot) \<Rightarrow> bool" where
  "collected m f \<longleftrightarrow> go_map m \<and> (\<forall>d. map_of m d = (if f d = [] then None else Some (f d)))"

lemma collected_get: "collected m f \<Longrightarrow> go_get [] m d = f d"
  by (simp add: collected_def go_get_def)

lemma collect_tuple_collected:
  assumes "collected m f"
  shows "collected (collect_tuple a pw t m) (\<lambda>d. f d @ (if t_denom t = d
    then [\<lparr>v_denom = d, v_rate = t_rate t, v_voter = a, v_power = (if 0 < t_rate t then pw else 0)\<rparr>] else []))"
  using assms collected_get [OF assms]
  by (auto simp: collected_def collect_tuple_def NewVoteForTally_def Let_def)

lemma collect_tuples_collected:
  "collected m f \<Longrightarrow> collected (fold (collect_tuple a pw) ts m) (\<lambda>d. f d @
    map (\<lambda>t. \<lparr>v_denom = d, v_rate = t_rate t, v_voter = a, v_power = (if 0 < t_rate t then pw else 0)\<rparr>)
      (filter (\<lambda>t. t_denom t = d) ts))"
proof (induction ts arbitrary: m f)
  case (Cons t ts)
  from Cons.IH [OF collect_tuple_collected [OF Cons.prems, of a pw t]] show ?case
    by (simp add: collected_def)
qed simp

lemma collect_votes_collected:
  "collected m f \<Longrightarrow> collected (fold (collect_vote cm) vs m) (\<lambda>d. f d @ votes_for cm vs d)"
proof (induction vs arbitrary: m f)
  case Nil
  then show ?case by (simp add: votes_for_def)
next
  case (Cons p vs)
  obtain a v where p: "p = (a, v)" by (cases p)
  have "collected (collect_vote cm p m) (\<lambda>d. f d @ votes_for cm [p] d)"
    using collect_tuples_collected [OF Cons.prems] Cons.prems
    by (cases "map_of cm (av_voter v)") (simp_all add: p collect_vote_def votes_for_def)
  from Cons.IH [OF this] show ?case by (simp add: votes_for_def)
qed

lemma map_of_OrganizeBallotByDenom:
  "go_map (OrganizeBallotByDenom k cm) \<and> map_of (OrganizeBallotByDenom k cm) d =
    (let pb = votes_for cm (kv_iter (or_votes k)) d in if pb = [] then None else Some (sort_ballot pb))"
proof -
  have mo: "map_of (map (\<lambda>(d, pb). (d, g pb)) m) d = map_option g (map_of m d)" for g and m :: "(denom, ballot) gomap"
    by (induction m) auto
  have mf: "map fst (map (\<lambda>(d, pb). (d, g pb)) m) = map fst m" for g and m :: "(denom, ballot) gomap"
    by (induction m) auto
  have "collected ([] :: (denom, ballot) gomap) (\<lambda>_. [])" by (simp add: collected_def)
  from collect_votes_collected [OF this, of cm "kv_iter (or_votes k)"] show ?thesis
    unfolding OrganizeBallotByDenom_def Let_def mo mf by (simp add: collected_def)
qed

lemma votes_for_wf:
  assumes pos: "\<And>a v c. (a, v) \<in> set vs \<Longrightarrow> map_of cm (av_voter v) = Some c \<Longrightarrow> 0 \<le> c_power c"
    and w: "w \<in> set (votes_for cm vs d)"
  shows "0 \<le> v_power w \<and> v_denom w = d \<and> (v_rate w \<le> 0 \<longrightarrow> v_power w = 0)"
  using w pos by (fastforce simp: votes_for_def split: option.splits)

section \<open>Clearing\<close>

lemma clear_rates_eq [simp]: "clear_rates k = k\<lparr>or_rates := []\<rparr>"
proof -
  have "fold (\<lambda>(d, r). DeleteLunaExchangeRate d) xs k
      = k\<lparr>or_rates := fold go_del (map fst xs) (or_rates k)\<rparr>" for xs :: "(denom \<times> dec) list" and k
    by (induction xs arbitrary: k) (auto simp: DeleteLunaExchangeRate_def)
  moreover have "fold go_del (map fst (kv_iter (or_rates k))) (or_rates k) = []"
    by (rule fold_del_all) simp
  ultimately show ?thesis by (simp add: clear_rates_def)
qed

lemma ClearTobinTaxes_eq [simp]: "ClearTobinTaxes k = k\<lparr>or_tobin := []\<rparr>"
  using fold_del_all [of "or_tobin k" "map fst (kv_iter (or_tobin k))"] by (simp add: ClearTobinTaxes_def)

text \<open>The prevotes that survive: those that are not yet a full vote period old.\<close>

definition live_prevote :: "ctx \<Rightarrow> u64 \<Rightarrow> aggregate_prevote \<Rightarrow> bool" where
  "live_prevote c vp p \<longleftrightarrow> ctx_height c \<le> sint (pv_block p + vp)"

lemma fold_DeletePrevote:
  "fold (\<lambda>(a, p) k. if sint (pv_block p + vp) < ctx_height c
        then DeleteAggregateExchangeRatePrevote a k else k) xs k
   = k\<lparr>or_prevotes := fold go_del (map fst (filter (\<lambda>(a, p). \<not> live_prevote c vp p) xs)) (or_prevotes k)\<rparr>"
  by (induction xs arbitrary: k) (auto simp: DeleteAggregateExchangeRatePrevote_def live_prevote_def)

lemma fold_DeleteVote:
  "fold (\<lambda>(a, v) k. DeleteAggregateExchangeRateVote a k) xs k
   = k\<lparr>or_votes := fold go_del (map fst xs) (or_votes k)\<rparr>"
  by (induction xs arbitrary: k) (auto simp: DeleteAggregateExchangeRateVote_def)

lemma ClearBallots_eq:
  "ClearBallots c vp k = k\<lparr>or_prevotes := fold go_del (map fst
     (filter (\<lambda>(a, p). \<not> live_prevote c vp p) (kv_iter (or_prevotes k)))) (or_prevotes k), or_votes := []\<rparr>"
  using fold_del_all [of "or_votes k" "map fst (kv_iter (or_votes k))"]
  by (simp add: ClearBallots_def fold_DeletePrevote fold_DeleteVote Let_def)

lemma go_map_fold_del: "go_map m \<Longrightarrow> go_map (fold go_del ks m)"
  by (induction ks arbitrary: m) auto

lemma set_fold_del: "set (fold go_del ks m) \<subseteq> set m"
proof (induction ks arbitrary: m)
  case (Cons k ks)
  have "set (go_del k m) \<subseteq> set m" by (auto simp: AList.delete_eq)
  with Cons.IH [of "go_del k m"] show ?case by simp
qed simp

lemma map_of_prevotes_ClearBallots:
  assumes "go_map (or_prevotes k)"
  shows "map_of (or_prevotes (ClearBallots c vp k)) a =
    (case map_of (or_prevotes k) a of
       Some p \<Rightarrow> if live_prevote c vp p then Some p else None | None \<Rightarrow> None)"
proof (cases "map_of (or_prevotes k) a")
  case None
  then show ?thesis by (simp add: ClearBallots_eq map_of_fold_del)
next
  case (Some p)
  then have "(a, q) \<in> set (or_prevotes k) \<longleftrightarrow> q = p" for q
    by (simp flip: map_of_eq_Some_iff [OF assms]) auto
  then have "a \<in> fst ` {x \<in> set (or_prevotes k). case x of (a, p) \<Rightarrow> \<not> live_prevote c vp p} \<longleftrightarrow> \<not> live_prevote c vp p"
    by force
  with Some show ?thesis by (simp add: ClearBallots_eq map_of_fold_del)
qed


section \<open>Whitelist\<close>

definition whitelist_map :: "denom_item list \<Rightarrow> (denom, dec) gomap" where
  "whitelist_map wl = fold (\<lambda>i m. go_put (di_name i) (di_tobin i) m) wl []"

lemma whitelist_step_Ok:
  "whitelist_step E i (k, x) = Ok s \<Longrightarrow> fst s = k\<lparr>or_tobin := go_put (di_name i) (di_tobin i) (or_tobin k)\<rparr>"
  by (auto simp: whitelist_step_def Let_def SetTobinTax_def split: if_splits)

lemma whitelist_loop:
  "forEach (whitelist_step E) wl (k, x) = Ok (k', x') \<Longrightarrow>
    k' = k\<lparr>or_tobin := fold (\<lambda>i m. go_put (di_name i) (di_tobin i) m) wl (or_tobin k)\<rparr>"
proof (induction wl arbitrary: k x)
  case (Cons i wl)
  from Cons.prems obtain s where s: "whitelist_step E i (k, x) = Ok s"
    "forEach (whitelist_step E) wl s = Ok (k', x')" by auto
  obtain k1 x1 where s1: "s = (k1, x1)" by (cases s)
  show ?case using Cons.IH [of k1 x1] s s1 whitelist_step_Ok [OF s(1)] by simp
qed simp

lemma ApplyWhitelist_Ok:
  "ApplyWhitelist E wl T (k, x) = Ok (k', x') \<Longrightarrow>
    k' = k\<lparr>or_tobin := if whitelist_update_required wl T then whitelist_map wl else or_tobin k\<rparr>"
  using whitelist_loop [of E wl "k\<lparr>or_tobin := []\<rparr>" x k' x']
  by (cases "whitelist_update_required wl T") (simp_all add: ApplyWhitelist_def whitelist_map_def)

lemma map_of_whitelist_map:
  assumes "distinct (map di_name wl)"
  shows "map_of (whitelist_map wl) = map_of (map (\<lambda>i. (di_name i, di_tobin i)) wl)"
proof -
  have "fold (\<lambda>i m. go_put (di_name i) (di_tobin i) m) wl m
      = fold (\<lambda>(d, t) m. go_put d t m) (map (\<lambda>i. (di_name i, di_tobin i)) wl) m" for m
    by (induction wl arbitrary: m) auto
  with assms show ?thesis
    using copy_map [of "map (\<lambda>i. (di_name i, di_tobin i)) wl" "[]"]
    by (simp add: whitelist_map_def comp_def)
qed

lemma whitelist_unchanged:
  assumes d: "distinct (map di_name wl)" "go_map T" and n: "\<not> whitelist_update_required wl T"
  shows "map_of T = map_of (map (\<lambda>i. (di_name i, di_tobin i)) wl)"
proof -
  let ?w = "map (\<lambda>i. (di_name i, di_tobin i)) wl"
  have len: "length T = length wl" and mem: "\<forall>i\<in>set wl. map_of T (di_name i) = Some (di_tobin i)"
    using n by (auto simp: whitelist_update_required_def Bex_set [symmetric] split: if_splits)
  have sub: "set ?w \<subseteq> set T" using mem by (auto dest: map_of_SomeD)
  have dw: "go_map ?w" using d(1) by (simp add: comp_def)
  then have "card (set ?w) = length ?w" by (metis distinct_card distinct_map)
  moreover have "card (set T) = length T" using d(2) by (metis distinct_card distinct_map)
  ultimately have "set ?w = set T" using sub len by (intro card_subset_eq) simp_all
  with dw d(2) show ?thesis by (metis map_of_inject_set)
qed

section \<open>Claims during a tally\<close>

text \<open>
  A tally only raises the weight and the wins of claims that exist: the keys, the recipients and the
  powers stay.
\<close>

definition same_claims :: "claims \<Rightarrow> claims \<Rightarrow> bool" where
  "same_claims cm cm' \<longleftrightarrow> map fst cm' = map fst cm
    \<and> map (\<lambda>p. (c_power (snd p), c_recipient (snd p))) cm' = map (\<lambda>p. (c_power (snd p), c_recipient (snd p))) cm"

lemma same_claims_refl [simp]: "same_claims cm cm"
  by (simp add: same_claims_def)

lemma same_claims_trans: "same_claims a b \<Longrightarrow> same_claims b c \<Longrightarrow> same_claims a c"
  by (simp add: same_claims_def)

lemma same_claims_recipients:
  "same_claims a b \<Longrightarrow> map (\<lambda>p. c_recipient (snd p)) b = map (\<lambda>p. c_recipient (snd p)) a"
  unfolding same_claims_def by (metis (no_types, lifting) comp_apply map_eq_conv map_map snd_conv)

lemma same_claims_keys: "same_claims a b \<Longrightarrow> keys b = keys a"
  unfolding same_claims_def by (metis list.set_map)

lemma add_win_same:
  "val_bech32 S (v_voter v) \<in> keys cm \<Longrightarrow> same_claims cm (add_win S v cm)"
proof -
  have "k \<in> keys cm \<Longrightarrow> c_power c = c_power (go_get no_claim cm k) \<Longrightarrow>
      c_recipient c = c_recipient (go_get no_claim cm k) \<Longrightarrow> same_claims cm (go_put k c cm)" for k c
  proof (induction cm)
    case (Cons p cm)
    obtain k' c' where p: "p = (k', c')" by (cases p)
    show ?case
    proof (cases "k' = k")
      case True
      with Cons.prems show ?thesis by (simp add: p same_claims_def go_get_Cons)
    next
      case False
      with Cons.prems have "k \<in> keys cm" by (auto simp: p)
      with False Cons.IH Cons.prems have "same_claims cm (go_put k c cm)" by (simp add: p go_get_Cons)
      with False show ?thesis by (simp add: p same_claims_def)
    qed
  qed simp
  then show "val_bech32 S (v_voter v) \<in> keys cm \<Longrightarrow> same_claims cm (add_win S v cm)"
    by (simp add: add_win_def Let_def)
qed

lemma fold_add_win_same:
  "\<forall>v\<in>set pb. val_bech32 S (v_voter v) \<in> keys cm \<Longrightarrow> same_claims cm (fold (add_win S) pb cm)"
proof (induction pb arbitrary: cm)
  case (Cons v pb)
  then have s: "same_claims cm (add_win S v cm)" by (simp add: add_win_same)
  with Cons have "same_claims (add_win S v cm) (fold (add_win S) pb (add_win S v cm))"
    by (simp add: same_claims_keys)
  with s show ?case by (simp add: same_claims_trans)
qed simp

text \<open>The ballots hold votes of validators with a claim only.\<close>

definition claimed :: "sdk \<Rightarrow> claims \<Rightarrow> ballot \<Rightarrow> bool" where
  "claimed S cm pb \<longleftrightarrow> (\<forall>v\<in>set pb. val_bech32 S (v_voter v) \<in> keys cm)"

lemma votes_for_claimed:
  assumes "\<And>a v. (a, v) \<in> set vs \<Longrightarrow> av_voter v = val_bech32 S a"
  shows "claimed S cm (votes_for cm vs d)"
  using assms
proof (induction vs)
  case (Cons p vs)
  obtain a v where p: "p = (a, v)" by (cases p)
  have "claimed S cm (votes_for cm vs d)" using Cons.IH Cons.prems by (meson list.set_intros(2))
  moreover have "claimed S cm (votes_for cm [p] d)"
    using Cons.prems [of a v]
    by (cases "map_of cm (av_voter v)") (auto simp: p claimed_def votes_for_def keys_map_of)
  moreover have "votes_for cm (p # vs) d = votes_for cm [p] d @ votes_for cm vs d"
    by (simp add: votes_for_def)
  ultimately show ?case by (auto simp: claimed_def)
qed (simp add: claimed_def votes_for_def)

lemma crossed_claimed:
  "list_all2 (crossed S' bases) pb ws \<Longrightarrow> claimed S cm pb \<Longrightarrow> claimed S cm ws"
  by (induction rule: list_all2_induct) (auto simp: claimed_def crossed_def)

lemma cross_ballot_claimed:
  assumes "claimed S cm pb"
    and "(if b then ToCrossRate S m pb else ToCrossRateWithSort S m pb) = Ok cb"
  shows "claimed S cm cb"
proof (cases b)
  case True
  with assms ToCrossRate_Ok [of S m pb cb] show ?thesis by (auto intro: crossed_claimed)
next
  case False
  with assms obtain ws where "list_all2 (crossed S m) pb ws" "cb = sort_ballot ws"
    using ToCrossRateWithSort_Ok [of S m pb cb] by auto
  with assms(1) crossed_claimed [of S m pb ws] show ?thesis by (simp add: claimed_def)
qed

lemma Tally_same:
  assumes "dec_laws S" "Tally S c pb band cm = Ok (r, cm')" "claimed S cm pb"
  shows "same_claims cm cm'"
proof -
  obtain sp where "cm' = fold (add_win S) (filter (winning r sp) pb) cm"
    by (rule Tally_Ok [OF assms(1,2)])
  with assms(3) show ?thesis by (auto simp: claimed_def intro: fold_add_win_same)
qed

lemma tally_step_Ok:
  assumes S: "dec_laws S" and cl: "claimed S (fst s) (snd p)"
    and t: "tally_step S c band ref m xr p s = Ok s'"
  shows "same_claims (fst s) (fst s')" "\<exists>r. snd s' = SetLunaExchangeRate (fst p) r (snd s)"
proof -
  from t obtain pb r cm r' where
    pb: "(if fst p \<noteq> ref then if before_sort_fork c then ToCrossRate S m (snd p)
           else ToCrossRateWithSort S m (snd p) else Ok (snd p)) = Ok pb"
    and ta: "Tally S c pb band (fst s) = Ok (r, cm)"
    and s': "s' = (cm, SetLunaExchangeRate (fst p) r' (snd s))"
    unfolding tally_step_def Let_def andThen_Ok_iff by (auto split: prod.splits)
  have "claimed S (fst s) pb"
    using pb cl cross_ballot_claimed [OF cl, of "before_sort_fork c" m pb] by (cases "fst p = ref") simp_all
  from Tally_same [OF S ta this] s' show "same_claims (fst s) (fst s')" by simp
  from s' show "\<exists>r. snd s' = SetLunaExchangeRate (fst p) r (snd s)" by auto
qed

lemma tally_loop_Ok:
  assumes S: "dec_laws S" and cl: "\<forall>p\<in>set ps. claimed S (fst s) (snd p)"
    and t: "forEach (tally_step S c band ref m xr) ps s = Ok s'" and g: "go_map (or_rates (snd s))"
  shows "same_claims (fst s) (fst s') \<and> (\<exists>rs. snd s' = (snd s)\<lparr>or_rates := rs\<rparr> \<and> go_map rs
    \<and> keys rs = keys (or_rates (snd s)) \<union> keys ps)"
  using cl t g
proof (induction ps arbitrary: s)
  case Nil
  then show ?case by (auto intro: exI [of _ "or_rates (snd s)"])
next
  case (Cons p ps)
  from Cons.prems(2) obtain s1 where s1: "tally_step S c band ref m xr p s = Ok s1"
    "forEach (tally_step S c band ref m xr) ps s1 = Ok s'" by auto
  have "claimed S (fst s) (snd p)" using Cons.prems(1) by simp
  from tally_step_Ok [OF S this s1(1)] obtain r where sc: "same_claims (fst s) (fst s1)"
    and r: "snd s1 = SetLunaExchangeRate (fst p) r (snd s)" by blast
  have "\<forall>p\<in>set ps. claimed S (fst s1) (snd p)"
    using Cons.prems(1) same_claims_keys [OF sc] by (simp add: claimed_def)
  moreover have "go_map (or_rates (snd s1))" using Cons.prems(3) r by (simp add: SetLunaExchangeRate_def)
  ultimately obtain rs where "same_claims (fst s1) (fst s')" "snd s' = (snd s1)\<lparr>or_rates := rs\<rparr>" "go_map rs"
    "keys rs = keys (or_rates (snd s1)) \<union> keys ps" using Cons.IH s1(2) by blast
  with sc r show ?case
    by (auto intro!: exI [of _ rs] simp: SetLunaExchangeRate_def intro: same_claims_trans)
qed

lemma tally_votes_Ok:
  assumes S: "dec_laws S" and cl: "\<forall>p\<in>set (pk_votes pk). claimed S cm (snd p)"
    and t: "tally_votes S c band pk cm k = Ok (cm', k')" and e: "or_rates k = []"
    and b: "pk_reference pk = [] \<longrightarrow> pk_votes pk = []"
  shows "same_claims cm cm' \<and> (\<exists>rs. k' = k\<lparr>or_rates := rs\<rparr> \<and> go_map rs \<and> keys rs = keys (pk_votes pk))"
proof (cases "pk_reference pk = []")
  case True
  with t b e show ?thesis by (auto simp: tally_votes_def intro: exI [of _ "[]"])
next
  case False
  with t obtain m xr where "forEach (tally_step S c band (pk_reference pk) m xr) (pk_votes pk) (cm, k) = Ok (cm', k')"
    by (auto simp: tally_votes_def Let_def)
  from tally_loop_Ok [OF S _ this] cl e show ?thesis by auto
qed

section \<open>Who wins a target\<close>

text \<open>The ballot that is tallied for a denom: its votes as cross rates, except for the reference.\<close>

definition tallied_ballot :: "sdk \<Rightarrow> ctx \<Rightarrow> denom \<Rightarrow> (addr, dec) gomap \<Rightarrow> denom \<Rightarrow> ballot \<Rightarrow> ballot outcome" where
  "tallied_ballot S c ref m d pb =
    (if d \<noteq> ref then if before_sort_fork c then ToCrossRate S m pb else ToCrossRateWithSort S m pb else Ok pb)"

text \<open>A vote wins inside the reward spread around the median, or as an abstention.\<close>

definition wins_ballot :: "sdk \<Rightarrow> ctx \<Rightarrow> dec \<Rightarrow> ballot \<Rightarrow> vote_for_tally \<Rightarrow> bool" where
  "wins_ballot S c band pb v \<longleftrightarrow> (\<exists>med q. fork_median c pb = Ok med \<and> dec_mul S med (band sdiv 2) = Ok q
    \<and> winning med (max q (StandardDeviation S pb med)) v)"

definition wins_denom :: "sdk \<Rightarrow> ctx \<Rightarrow> dec \<Rightarrow> denom \<Rightarrow> (addr, dec) gomap \<Rightarrow> addr \<Rightarrow> denom \<times> ballot \<Rightarrow> bool" where
  "wins_denom S c band ref m a p \<longleftrightarrow> (\<exists>pb. tallied_ballot S c ref m (fst p) (snd p) = Ok pb
    \<and> (\<exists>v\<in>set pb. v_voter v = a \<and> wins_ballot S c band pb v))"

lemma Tally_exact:
  assumes S: "dec_laws S" and t: "Tally S c pb band cm = Ok (med, cm')"
  shows "fork_median c pb = Ok med \<and> cm' = fold (add_win S) (filter (wins_ballot S c band pb) pb) cm"
proof -
  from t S obtain q where m: "fork_median c pb = Ok med"
    and q: "dec_mul S med (band sdiv 2) = Ok q"
    and l: "forEach (\<lambda>vote m. andThen (is_winner S med
        (if q < StandardDeviation S pb med then StandardDeviation S pb med else q) vote) (\<lambda>w.
      Ok (if w then add_win S vote m else m))) pb cm = Ok cm'"
    by (auto simp: Tally_def Let_def dec_quo_intI)
  have "(if q < StandardDeviation S pb med then StandardDeviation S pb med else q)
    = max q (StandardDeviation S pb med)" by simp
  note l' = tally_loop [OF S l [unfolded this]]
  have "(\<lambda>v. med - max q (StandardDeviation S pb med) \<le> v_rate v \<and> v_rate v \<le> med + max q (StandardDeviation S pb med)
      \<or> v_rate v \<le> 0) = wins_ballot S c band pb"
    using m q by (intro ext) (auto simp: wins_ballot_def winning_def)
  with l' m show ?thesis by simp
qed

lemma fold_add_win_wins:
  assumes "0 \<le> c_wins (go_get no_claim cm k)" "c_wins (go_get no_claim cm k) + wins_of S pb k < 2 ^ 63"
  shows "c_wins (go_get no_claim (fold (add_win S) pb cm) k) = c_wins (go_get no_claim cm k) + wins_of S pb k"
  using assms
proof (induction pb arbitrary: cm)
  case (Cons v pb)
  have "0 \<le> wins_of S pb k" by (simp add: wins_of_def)
  show ?case
  proof (cases "val_bech32 S (v_voter v) = k")
    case True
    then have w: "wins_of S (v # pb) k = 1 + wins_of S pb k" by (simp add: wins_of_def)
    have "in_i64 (c_wins (go_get no_claim cm k) + 1)"
      using Cons.prems w \<open>0 \<le> wins_of S pb k\<close> by (auto simp: in_i64_def)
    then have g: "c_wins (go_get no_claim (add_win S v cm) k) = c_wins (go_get no_claim cm k) + 1"
      using True by (simp add: add_win_def Let_def)
    show ?thesis using Cons.IH [of "add_win S v cm"] Cons.prems g w by simp
  next
    case False
    then have "wins_of S (v # pb) k = wins_of S pb k" "go_get no_claim (add_win S v cm) k = go_get no_claim cm k"
      by (auto simp: wins_of_def add_win_def Let_def)
    then show ?thesis using Cons.IH [of "add_win S v cm"] Cons.prems by simp
  qed
qed (simp add: wins_of_def)

text \<open>A ballot holds at most one vote of a validator.\<close>

definition one_vote_each :: "ballot \<Rightarrow> bool" where
  "one_vote_each pb \<longleftrightarrow> distinct (map v_voter pb) \<and> (\<forall>v\<in>set pb. length (v_voter v) = 20)"

lemma tallied_one_vote_each:
  assumes "one_vote_each pb" "tallied_ballot S c ref m d pb = Ok cb"
  shows "one_vote_each cb"
proof -
  have cr: "one_vote_each ws" if "list_all2 (crossed S m) pb ws" for ws
  proof -
    from that have "map v_voter ws = map v_voter pb"
      by (induction rule: list_all2_induct) (auto simp: crossed_def)
    moreover from this have "v_voter ` set ws = v_voter ` set pb" by (metis list.set_map)
    ultimately show ?thesis using assms(1) unfolding one_vote_each_def by (metis (no_types, lifting) imageE imageI)
  qed
  have st: "one_vote_each (sort_ballot ws)" if "one_vote_each ws" for ws
    using that by (simp add: one_vote_each_def sort_ballot_def distinct_map)
  show ?thesis
    using assms cr st ToCrossRate_Ok [of S m pb cb]
    by (auto simp: tallied_ballot_def split: if_splits elim!: ToCrossRateWithSort_Ok)
qed

lemma wins_of_one:
  assumes A: "addr_laws S" and o: "one_vote_each pb" and a: "length a = 20"
  shows "wins_of S (filter P pb) (val_bech32 S a) = of_bool (\<exists>v\<in>set pb. v_voter v = a \<and> P v)"
proof -
  have inj: "val_bech32 S (v_voter v) = val_bech32 S a \<longleftrightarrow> v_voter v = a" if "v \<in> set pb" for v
    using A o a that unfolding addr_laws_def one_vote_each_def by (metis outcome.inject(1))
  have "filter (\<lambda>v. val_bech32 S (v_voter v) = val_bech32 S a) (filter P pb)
      = filter (\<lambda>v. v_voter v = a \<and> P v) pb"
    using inj by (auto intro: filter_cong)
  moreover have "length (filter (\<lambda>v. v_voter v = a \<and> P v) pb) = of_bool (\<exists>v\<in>set pb. v_voter v = a \<and> P v)"
    using o [unfolded one_vote_each_def, THEN conjunct1]
  proof (induction pb)
    case (Cons v pb)
    have "\<forall>w\<in>set pb. v_voter w \<noteq> v_voter v" using Cons.prems by (fastforce simp: image_iff)
    with Cons show ?case by (auto simp: filter_empty_conv)
  qed simp
  ultimately show ?thesis by (simp add: wins_of_def)
qed

lemma tally_step_stages:
  assumes "tally_step S c band ref m xr p s = Ok s'"
  obtains pb med cm r where "tallied_ballot S c ref m (fst p) (snd p) = Ok pb"
    "Tally S c pb band (fst s) = Ok (med, cm)"
    "(if fst p \<noteq> ref then dec_quo S xr med else Ok med) = Ok r"
    "s' = (cm, SetLunaExchangeRate (fst p) r (snd s))"
  using assms unfolding tally_step_def tallied_ballot_def Let_def andThen_Ok_iff by (auto split: prod.splits)

lemma tally_step_wins:
  assumes S: "dec_laws S" and A: "addr_laws S" and o: "one_vote_each (snd p)" and a: "length a = 20"
    and t: "tally_step S c band ref m xr p s = Ok s'"
    and w: "0 \<le> c_wins (go_get no_claim (fst s) (val_bech32 S a))"
      "c_wins (go_get no_claim (fst s) (val_bech32 S a)) + 1 < 2 ^ 63"
  shows "c_wins (go_get no_claim (fst s') (val_bech32 S a))
    = c_wins (go_get no_claim (fst s) (val_bech32 S a)) + of_bool (wins_denom S c band ref m a p)"
proof -
  obtain pb med cm r where pb: "tallied_ballot S c ref m (fst p) (snd p) = Ok pb"
    and ta: "Tally S c pb band (fst s) = Ok (med, cm)" and s': "s' = (cm, SetLunaExchangeRate (fst p) r (snd s))"
    by (rule tally_step_stages [OF t])
  let ?w = "\<exists>v\<in>set pb. v_voter v = a \<and> wins_ballot S c band pb v"
  have w1: "wins_of S (filter (wins_ballot S c band pb) pb) (val_bech32 S a) = of_bool ?w"
    by (rule wins_of_one [OF A tallied_one_vote_each [OF o pb] a])
  have "of_bool ?w \<le> (1::int)" by simp
  then have "c_wins (go_get no_claim (fst s) (val_bech32 S a))
      + wins_of S (filter (wins_ballot S c band pb) pb) (val_bech32 S a) < 2 ^ 63"
    using w(2) unfolding w1 by linarith
  from fold_add_win_wins [OF w(1) this] Tally_exact [OF S ta] s' w1 pb show ?thesis
    by (simp add: wins_denom_def)
qed

lemma tally_loop_wins:
  assumes S: "dec_laws S" and A: "addr_laws S" and a: "length a = 20"
    and "\<forall>p\<in>set ps. one_vote_each (snd p)" "forEach (tally_step S c band ref m xr) ps s = Ok s'"
    and "0 \<le> c_wins (go_get no_claim (fst s) (val_bech32 S a))"
      "c_wins (go_get no_claim (fst s) (val_bech32 S a)) + int (length ps) < 2 ^ 63"
  shows "c_wins (go_get no_claim (fst s') (val_bech32 S a)) = c_wins (go_get no_claim (fst s) (val_bech32 S a))
    + int (length (filter (wins_denom S c band ref m a) ps))"
  using assms(4-)
proof (induction ps arbitrary: s)
  case (Cons p ps)
  from Cons.prems(2) obtain s1 where s1: "tally_step S c band ref m xr p s = Ok s1"
    "forEach (tally_step S c band ref m xr) ps s1 = Ok s'" by auto
  have "c_wins (go_get no_claim (fst s1) (val_bech32 S a))
    = c_wins (go_get no_claim (fst s) (val_bech32 S a)) + of_bool (wins_denom S c band ref m a p)"
    by (rule tally_step_wins [OF S A _ a s1(1)]) (use Cons.prems in auto)
  moreover have "of_bool (wins_denom S c band ref m a p) \<le> (1::int)" by simp
  ultimately show ?case using Cons.IH [of s1] Cons.prems s1(2) by auto
qed simp

lemma tally_loop_rates:
  assumes "dec_laws S" "go_map ps" "forEach (tally_step S c band ref m xr) ps s = Ok s'"
  shows "(\<forall>p\<in>set ps. \<exists>pb med r. tallied_ballot S c ref m (fst p) (snd p) = Ok pb \<and> fork_median c pb = Ok med
      \<and> (if fst p \<noteq> ref then dec_quo S xr med else Ok med) = Ok r \<and> map_of (or_rates (snd s')) (fst p) = Some r)
    \<and> (\<forall>d. d \<notin> keys ps \<longrightarrow> map_of (or_rates (snd s')) d = map_of (or_rates (snd s)) d)"
  using assms(2,3)
proof (induction ps arbitrary: s)
  case (Cons p ps)
  from Cons.prems(2) obtain s1 where s1: "tally_step S c band ref m xr p s = Ok s1"
    "forEach (tally_step S c band ref m xr) ps s1 = Ok s'" by auto
  obtain pb med cm r where p: "tallied_ballot S c ref m (fst p) (snd p) = Ok pb"
    "Tally S c pb band (fst s) = Ok (med, cm)" "(if fst p \<noteq> ref then dec_quo S xr med else Ok med) = Ok r"
    "s1 = (cm, SetLunaExchangeRate (fst p) r (snd s))"
    by (rule tally_step_stages [OF s1(1)])
  have med: "fork_median c pb = Ok med" using Tally_exact [OF assms(1) p(2)] by simp
  have np: "fst p \<notin> keys ps" and g: "go_map ps" using Cons.prems(1) by simp_all
  note IH = Cons.IH [OF g s1(2)]
  have "map_of (or_rates (snd s')) (fst p) = Some r"
    using IH np p(4) by (simp add: SetLunaExchangeRate_def)
  with p(1,3) med IH p(4) show ?case by (auto simp: SetLunaExchangeRate_def)
qed simp

section \<open>Claims of a vote period\<close>

definition claim_of :: "sdk \<Rightarrow> validators \<Rightarrow> string \<Rightarrow> claim \<Rightarrow> bool" where
  "claim_of S vals k c \<longleftrightarrow> (\<exists>a v. vals a = Some v \<and> val_bonded v
    \<and> k = val_bech32 S (val_operator v) \<and> c = NewClaim (val_power v) 0 0 (val_operator v))"

lemma claim_loop_Ok:
  "claim_loop S vals n as m = Ok cm \<Longrightarrow> go_map m \<Longrightarrow> go_all (claim_of S vals) m \<Longrightarrow>
    go_map cm \<and> go_all (claim_of S vals) cm"
proof (induction S vals n as m rule: claim_loop.induct)
  case (2 S vals n a as m)
  show ?case
  proof (cases "n = 0")
    case True
    with 2 show ?thesis by simp
  next
    case False
    with 2 obtain v where v: "vals a = Some v" by (auto split: option.splits)
    let ?p = "go_put (val_bech32 S (val_operator v)) (NewClaim (val_power v) 0 0 (val_operator v)) m"
    have "claim_of S vals (val_bech32 S (val_operator v)) (NewClaim (val_power v) 0 0 (val_operator v))"
      if "val_bonded v" using that v by (auto simp: claim_of_def)
    then have "go_map ?p" "val_bonded v \<Longrightarrow> go_all (claim_of S vals) ?p" using "2.prems" by auto
    with 2 False v show ?thesis by (cases "val_bonded v") simp_all
  qed
qed simp

text \<open>
  What the end blocker relies on of the staking keeper: operator addresses have the application's
  length, powers are not negative and the powers of the claims sum to an \<open>int64\<close>.
\<close>

definition staking_law :: "sdk \<Rightarrow> 'x env \<Rightarrow> 'x \<Rightarrow> bool" where
  "staking_law S E x \<longleftrightarrow>
    (\<forall>a v. env_validator E x a = Some v \<longrightarrow> length (val_operator v) = 20 \<and> 0 \<le> val_power v)
    \<and> (\<forall>cm. claim_loop S (env_validator E x) (env_max_validators E x) (env_power_order E x) [] = Ok cm
         \<longrightarrow> sum_map c_power cm < 2 ^ 63)"

lemma votes_for_Cons: "votes_for cm (p # vs) d = votes_for cm [p] d @ votes_for cm vs d"
  by (simp add: votes_for_def)

lemma filter_distinct_le1:
  assumes "distinct (map t_denom ts)"
  shows "filter (\<lambda>t. t_denom t = d) ts = [] \<or> (\<exists>t. filter (\<lambda>t. t_denom t = d) ts = [t])"
proof -
  have "distinct (map t_denom (filter (\<lambda>t. t_denom t = d) ts))" using assms by (rule distinct_map_filter)
  then show ?thesis
    by (cases "filter (\<lambda>t. t_denom t = d) ts" rule: remdups_adj.cases)
      (auto dest: filter_eq_ConsD simp: Cons_eq_filter_iff)
qed

lemma one_vote_power:
  assumes "distinct (map t_denom (av_tuples v))" "\<And>c. map_of cm (av_voter v) = Some c \<Longrightarrow> 0 \<le> c_power c"
  shows "total_power (votes_for cm [(a, v)] d)
    \<le> (if av_voter v \<in> keys cm then c_power (go_get no_claim cm (av_voter v)) else 0)"
proof (cases "map_of cm (av_voter v)")
  case None
  then show ?thesis by (simp add: votes_for_def keys_map_of)
next
  case (Some c)
  then have "av_voter v \<in> keys cm" by (simp add: keys_map_of)
  with filter_distinct_le1 [OF assms(1), of d] Some assms(2) [OF Some] show ?thesis
    by (auto simp: votes_for_def go_get_def)
qed

lemma votes_for_power:
  assumes "\<And>p. p \<in> set vs \<Longrightarrow> distinct (map t_denom (av_tuples (snd p)))"
    and "distinct (map (av_voter \<circ> snd) vs)"
    and "\<And>k c. map_of cm k = Some c \<Longrightarrow> 0 \<le> c_power c"
  shows "total_power (votes_for cm vs d)
    \<le> (\<Sum>k\<in>(av_voter \<circ> snd) ` set vs \<inter> keys cm. c_power (go_get no_claim cm k))"
  using assms(1,2)
proof (induction vs)
  case Nil
  then show ?case by (simp add: votes_for_def)
next
  case (Cons p vs)
  let ?f = "\<lambda>k. c_power (go_get no_claim cm k)" and ?k = "av_voter (snd p)"
  have "total_power (votes_for cm [p] d) \<le> (if ?k \<in> keys cm then ?f ?k else 0)"
    using one_vote_power [of "snd p" cm "fst p" d] Cons.prems(1) [of p] assms(3) by simp
  moreover have "total_power (votes_for cm vs d) \<le> (\<Sum>k\<in>(av_voter \<circ> snd) ` set vs \<inter> keys cm. ?f k)"
    using Cons by simp
  moreover have "?k \<notin> (av_voter \<circ> snd) ` set vs" using Cons.prems(2) by auto
  ultimately show ?case
    by (cases "?k \<in> keys cm") (simp_all add: votes_for_Cons [of cm p vs] Int_insert_left)
qed

lemma sum_keys: "go_map m \<Longrightarrow> (\<Sum>k\<in>keys m. f (go_get z m k)) = sum_map f m"
proof (induction m)
  case (Cons p m)
  obtain k v where p: "p = (k, v)" by (cases p)
  with Cons.prems have "(\<Sum>k\<in>keys m. f (go_get z (p # m) k)) = (\<Sum>k\<in>keys m. f (go_get z m k))"
    by (intro sum.cong) (auto simp: go_get_Cons)
  with Cons p show ?case by (simp add: go_get_Cons)
qed simp

lemma votes_for_ballot_wf:
  assumes A: "addr_laws S" and wf: "oracle_wf S k" and cm: "go_map cm"
    and pos: "\<And>k c. map_of cm k = Some c \<Longrightarrow> 0 \<le> c_power c" and s: "sum_map c_power cm < 2 ^ 63"
  shows "ballot_wf (votes_for cm (kv_iter (or_votes k)) d)"
proof -
  let ?vs = "kv_iter (or_votes k)"
  have all: "go_all (\<lambda>v a. length v = 20 \<and> av_voter a = val_bech32 S v \<and> distinct (map t_denom (av_tuples a))) ?vs"
    and g: "go_map ?vs" using wf by (simp_all add: oracle_wf_def)
  have inj: "a = b" if "val_bech32 S a = val_bech32 S b" "length a = 20" "length b = 20" for a b
    using that A unfolding addr_laws_def by (metis outcome.inject(1))
  have "distinct (map (av_voter \<circ> snd) ?vs)"
  proof -
    have "map (av_voter \<circ> snd) ?vs = map (val_bech32 S) (map fst ?vs)"
      using all by (auto simp: go_all_def)
    moreover have "inj_on (val_bech32 S) (set (map fst ?vs))"
      using all inj by (auto simp: inj_on_def go_all_def)
    moreover have "distinct (map (val_bech32 S) (map fst ?vs)) \<longleftrightarrow> go_map ?vs \<and> inj_on (val_bech32 S) (set (map fst ?vs))"
      by (rule distinct_map)
    ultimately show ?thesis using g by presburger
  qed
  then have "total_power (votes_for cm ?vs d)
      \<le> (\<Sum>k\<in>(av_voter \<circ> snd) ` set ?vs \<inter> keys cm. c_power (go_get no_claim cm k))"
    using all pos by (intro votes_for_power) (auto simp: go_all_def)
  also have "\<dots> \<le> (\<Sum>k\<in>keys cm. c_power (go_get no_claim cm k))"
    using pos by (intro sum_mono2) (auto simp: go_get_def no_claim_def split: option.splits)
  also have "\<dots> < 2 ^ 63" using s by (simp add: sum_keys [OF cm])
  finally have "total_power (votes_for cm ?vs d) < 2 ^ 63" .
  moreover have "0 \<le> v_power w" if "w \<in> set (votes_for cm ?vs d)" for w
    using votes_for_wf [OF _ that] pos by blast
  ultimately show ?thesis by (simp add: ballot_wf_def)
qed


section \<open>Miss counters\<close>

lemma count_miss_eq:
  "count_miss n p k = (if c_wins (snd p) = int n then k
    else k\<lparr>or_miss := go_put (c_recipient (snd p)) (go_get 0 (or_miss k) (c_recipient (snd p)) + 1) (or_miss k)\<rparr>)"
  by (simp add: count_miss_def SetMissCounter_def GetMissCounter_def Let_def)

lemma fold_count_miss:
  assumes "distinct (map (\<lambda>p. c_recipient (snd p)) cs)"
  shows "\<exists>ms. fold (count_miss n) cs k = k\<lparr>or_miss := ms\<rparr>
    \<and> (go_map (or_miss k) \<longrightarrow> go_map ms)
    \<and> (go_all (\<lambda>v n. length v = 20) (or_miss k) \<and> (\<forall>p\<in>set cs. length (c_recipient (snd p)) = 20)
        \<longrightarrow> go_all (\<lambda>v n. length v = 20) ms)
    \<and> (\<forall>a. go_get 0 ms a = go_get 0 (or_miss k) a +
        (if \<exists>p\<in>set cs. c_recipient (snd p) = a \<and> c_wins (snd p) \<noteq> int n then 1 else 0))"
  using assms
proof (induction cs arbitrary: k)
  case Nil
  then show ?case by (auto intro: exI [of _ "or_miss k"])
next
  case (Cons p cs)
  let ?r = "c_recipient (snd p)"
  let ?m = "or_miss (count_miss n p k)"
  from Cons.prems have nr: "\<forall>q\<in>set cs. c_recipient (snd q) \<noteq> ?r" by (force simp: image_iff)
  obtain ms where ms: "fold (count_miss n) cs (count_miss n p k) = (count_miss n p k)\<lparr>or_miss := ms\<rparr>"
    "go_map ?m \<longrightarrow> go_map ms"
    "go_all (\<lambda>v n. length v = 20) ?m \<and> (\<forall>p\<in>set cs. length (c_recipient (snd p)) = 20)
        \<longrightarrow> go_all (\<lambda>v n. length v = 20) ms"
    "\<forall>a. go_get 0 ms a = go_get 0 ?m a +
        (if \<exists>p\<in>set cs. c_recipient (snd p) = a \<and> c_wins (snd p) \<noteq> int n then 1 else 0)"
    using Cons by fastforce
  show ?case
  proof (intro exI [of _ ms] conjI impI allI)
    show "fold (count_miss n) (p # cs) k = k\<lparr>or_miss := ms\<rparr>" using ms(1) by (simp add: count_miss_eq)
    show "go_map ms" if "go_map (or_miss k)" using that ms(2) by (simp add: count_miss_eq)
    show "go_all (\<lambda>v n. length v = 20) ms"
      if "go_all (\<lambda>v n. length v = 20) (or_miss k) \<and> (\<forall>p\<in>set (p # cs). length (c_recipient (snd p)) = 20)"
      using that ms(3) by (simp add: count_miss_eq)
    show "go_get 0 ms a = go_get 0 (or_miss k) a +
        (if \<exists>p\<in>set (p # cs). c_recipient (snd p) = a \<and> c_wins (snd p) \<noteq> int n then 1 else 0)" for a
      using ms(4) nr by (cases "a = ?r") (auto simp: count_miss_eq)
  qed
qed

section \<open>The end of a vote period\<close>

lemma pick_fold_go_map:
  "go_map (pk_targets s) \<Longrightarrow> go_map (pk_targets (fold (pick_step th) L s))"
proof (induction L arbitrary: s)
  case (Cons p L)
  have "go_map (pk_targets (pick_step th p s))"
    using Cons.prems by (auto simp: pick_step_def ballotIsPassing_def Let_def)
  with Cons show ?case by simp
qed simp

text \<open>The targets that are left: those without a ballot and those whose ballot passes.\<close>

definition kept_targets :: "int \<Rightarrow> oracle_state \<Rightarrow> claims \<Rightarrow> denom set" where
  "kept_targets th k cm = {d \<in> keys (or_tobin k).
     votes_for cm (kv_iter (or_votes k)) d = [] \<or> passing th (sort_ballot (votes_for cm (kv_iter (or_votes k)) d))}"

definition rated :: "int \<Rightarrow> oracle_state \<Rightarrow> claims \<Rightarrow> denom set" where
  "rated th k cm = {d \<in> keys (or_tobin k). passing th (sort_ballot (votes_for cm (kv_iter (or_votes k)) d))}"

lemma picked_from_votes:
  assumes g: "go_map (or_tobin k)"
    and p: "picked th (kv_iter (or_tobin k)) (OrganizeBallotByDenom k cm) (OrganizeBallotByDenom k cm) pk"
    and gt: "go_map (pk_targets pk)"
  shows "keys (pk_votes pk) = rated th k cm" "length (pk_targets pk) = card (kept_targets th k cm)"
    "\<And>q. q \<in> set (pk_votes pk) \<Longrightarrow> go_map (pk_votes pk) \<Longrightarrow> snd q = sort_ballot (votes_for cm (kv_iter (or_votes k)) (fst q))"
proof -
  let ?V = "OrganizeBallotByDenom k cm" and ?f = "votes_for cm (kv_iter (or_votes k))"
  note mo = map_of_OrganizeBallotByDenom [THEN conjunct2, of k cm, unfolded Let_def]
  have V: "go_map ?V" using map_of_OrganizeBallotByDenom by blast
  have mem: "(d, pb) \<in> set ?V \<longleftrightarrow> ?f d \<noteq> [] \<and> pb = sort_ballot (?f d)" for d pb
    using mo [of d] by (auto simp flip: map_of_eq_Some_iff [OF V] split: if_splits)
  have np: "\<not> passing th (sort_ballot [])" by (simp add: passing_def Power_def sort_ballot_def)
  show "keys (pk_votes pk) = rated th k cm"
    using picked_votes(1) [OF V p] np
    by (auto simp: set_eq_iff candidates_def mem rated_def)
  have "keys (pk_targets pk) = kept_targets th k cm"
  proof (intro set_eqI)
    fix d
    have "map_of (pk_targets pk) d = (if \<exists>pb. (d, pb) \<in> set ?V \<and> \<not> passing th pb then None
        else map_of (kv_iter (or_tobin k)) d)" using p by (simp add: picked_def)
    then show "d \<in> keys (pk_targets pk) \<longleftrightarrow> d \<in> kept_targets th k cm"
      by (auto simp: keys_map_of mem kept_targets_def map_of_kv_iter [OF g] split: if_splits)
  qed
  moreover have "length (pk_targets pk) = card (keys (pk_targets pk))"
    using gt distinct_card [of "map fst (pk_targets pk)"] by simp
  ultimately show "length (pk_targets pk) = card (kept_targets th k cm)" by simp
  fix q assume q: "q \<in> set (pk_votes pk)" "go_map (pk_votes pk)"
  then have "map_of (pk_votes pk) (fst q) = Some (snd q)" by simp
  from picked_votes(2) [OF V p this] mo [of "fst q"] show "snd q = sort_ballot (?f (fst q))"
    by (simp split: if_splits)
qed

lemma pick_votes_go_map:
  "go_map (pk_votes s) \<Longrightarrow> go_map (pk_votes (fold (pick_step th) L s))"
proof (induction L arbitrary: s)
  case (Cons p L)
  have "go_map (pk_votes (pick_step th p s))"
    using Cons.prems by (auto simp: pick_step_def ballotIsPassing_def Let_def)
  with Cons show ?case by simp
qed simp

lemma PickReferenceTerra_go_map:
  assumes "dec_laws S" "PickReferenceTerra S t b T V = Ok pk" "go_map T" "go_map V"
  shows "go_map (pk_targets pk)" "go_map (pk_votes pk)"
proof -
  from assms(2) obtain th where
    "pk = fold (pick_step th) V \<lparr>pk_targets = T, pk_votes = V, pk_largest = 0, pk_reference = []\<rparr>"
    by (auto simp: PickReferenceTerra_def)
  with assms(3,4) show "go_map (pk_targets pk)" "go_map (pk_votes pk)"
    by (simp_all add: pick_fold_go_map pick_votes_go_map)
qed

lemma claims_facts:
  assumes st: "staking_law S E x"
    and l: "claim_loop S (env_validator E x) (env_max_validators E x) (env_power_order E x) [] = Ok cm"
  shows "go_map cm" "go_all (\<lambda>k c. k = val_bech32 S (c_recipient c) \<and> length (c_recipient c) = 20
      \<and> 0 \<le> c_power c \<and> c_wins c = 0 \<and> c_weight c = 0) cm"
    "sum_map c_power cm < 2 ^ 63" "distinct (map (\<lambda>p. c_recipient (snd p)) cm)"
proof -
  have "go_map cm \<and> go_all (claim_of S (env_validator E x)) cm" by (rule claim_loop_Ok [OF l]) simp_all
  then show g: "go_map cm" and a: "go_all (\<lambda>k c. k = val_bech32 S (c_recipient c) \<and> length (c_recipient c) = 20
      \<and> 0 \<le> c_power c \<and> c_wins c = 0 \<and> c_weight c = 0) cm"
    using st by (auto simp: go_all_def claim_of_def staking_law_def NewClaim_def)
  show "sum_map c_power cm < 2 ^ 63" using st l by (simp add: staking_law_def)
  have "map fst cm = map (\<lambda>p. val_bech32 S (c_recipient (snd p))) cm"
    using a by (auto simp: go_all_def)
  then have "map fst cm = map (val_bech32 S) (map (\<lambda>p. c_recipient (snd p)) cm)" by (simp add: comp_def)
  with g show "distinct (map (\<lambda>p. c_recipient (snd p)) cm)" using distinct_map [of "val_bech32 S"] by metis
qed

text \<open>
  The stages of the end of a vote period, as the code composes them: claims, choice of the ballots,
  tally, rewards, whitelist.
\<close>

lemma vote_period_stages:
  assumes "vote_period_end S E c (k, x) = Ok s'"
  obtains cm pk cm' k2 x1 where
    "claim_loop S (env_validator E x) (env_max_validators E x) (env_power_order E x) [] = Ok cm"
    "PickReferenceTerra S (VoteThreshold (or_params k)) (env_bonded_power E x)
       (fold (\<lambda>(d, t) m. go_put d t m) (IterateTobinTaxes k) [])
       (OrganizeBallotByDenom (k\<lparr>or_rates := []\<rparr>) cm) = Ok pk"
    "tally_votes S c (RewardBand (or_params k)) pk cm (k\<lparr>or_rates := []\<rparr>) = Ok (cm', k2)"
    "RewardBallotWinners S E c (sint (VotePeriod (or_params k)))
       (sint (RewardDistributionWindow (or_params k))) (pk_targets pk) cm' x = Ok x1"
    "ApplyWhitelist E (Whitelist (or_params k)) (pk_targets pk)
       (ClearBallots c (VotePeriod (or_params k)) (fold (count_miss (length (pk_targets pk))) cm' k2), x1) = Ok s'"
proof -
  from assms obtain cm pk y x1 where
    1: "claim_loop S (env_validator E x) (env_max_validators E x) (env_power_order E x) [] = Ok cm"
    "PickReferenceTerra S (VoteThreshold (or_params k)) (env_bonded_power E x)
       (fold (\<lambda>(d, t) m. go_put d t m) (IterateTobinTaxes k) [])
       (OrganizeBallotByDenom (k\<lparr>or_rates := []\<rparr>) cm) = Ok pk"
    and y: "tally_votes S c (RewardBand (or_params k)) pk cm (k\<lparr>or_rates := []\<rparr>) = Ok y"
    and 2: "(case y of (cm', k2) \<Rightarrow>
      andThen (RewardBallotWinners S E c (sint (VotePeriod (or_params k)))
       (sint (RewardDistributionWindow (or_params k))) (pk_targets pk) cm' x) (\<lambda>x1.
      ApplyWhitelist E (Whitelist (or_params k)) (pk_targets pk)
       (ClearBallots c (VotePeriod (or_params k)) (fold (count_miss (length (pk_targets pk))) cm' k2), x1))) = Ok s'"
    unfolding vote_period_end_def Let_def fst_conv snd_conv clear_rates_eq andThen_Ok_iff by blast
  obtain cm' k2 where "y = (cm', k2)" by (cases y)
  with 1 y 2 that show thesis by auto
qed

lemma Organize_rates [simp]: "OrganizeBallotByDenom (k\<lparr>or_rates := r\<rparr>) cm = OrganizeBallotByDenom k cm"
  by (simp add: OrganizeBallotByDenom_def)

lemma ballots_wf:
  assumes "addr_laws S" "oracle_wf S k" "staking_law S E x"
    "claim_loop S (env_validator E x) (env_max_validators E x) (env_power_order E x) [] = Ok cm"
  shows "\<forall>p\<in>set (OrganizeBallotByDenom k cm). ballot_wf (snd p) \<and> claimed S cm (snd p)"
proof
  let ?V = "OrganizeBallotByDenom k cm" and ?f = "votes_for cm (kv_iter (or_votes k))"
  fix p assume "p \<in> set ?V"
  moreover have V: "go_map ?V" using map_of_OrganizeBallotByDenom by blast
  ultimately have "map_of ?V (fst p) = Some (snd p)" by simp
  then have p: "snd p = sort_ballot (?f (fst p))"
    using map_of_OrganizeBallotByDenom [of k cm "fst p"] by (auto simp: Let_def split: if_splits)
  note cf = claims_facts [OF assms(3,4)]
  have "0 \<le> c_power c" if "map_of cm kk = Some c" for kk c
    using go_all_get [OF cf(2) that] by simp
  then have "ballot_wf (?f (fst p))" by (intro votes_for_ballot_wf [OF assms(1,2) cf(1) _ cf(3)])
  moreover have "claimed S cm (?f (fst p))"
    using assms(2) by (intro votes_for_claimed) (auto simp: oracle_wf_def go_all_def)
  ultimately show "ballot_wf (snd p) \<and> claimed S cm (snd p)"
    using ballot_wf_mset [of "snd p" "?f (fst p)"] by (simp add: p claimed_def)
qed

lemma go_all_subset: "set m' \<subseteq> set m \<Longrightarrow> go_all P m \<Longrightarrow> go_all P m'"
  by (auto simp: go_all_def)

lemma whitelist_map_go_map: "go_map (whitelist_map wl)"
proof -
  have "go_map m \<Longrightarrow> go_map (fold (\<lambda>i m. go_put (di_name i) (di_tobin i) m) wl m)" for m :: "(denom, dec) gomap"
    by (induction wl arbitrary: m) simp_all
  then show ?thesis by (simp add: whitelist_map_def)
qed

text \<open>The ballot of a denom, and whether a validator wins it against the reference denom.\<close>

definition ballot_for :: "oracle_state \<Rightarrow> claims \<Rightarrow> denom \<Rightarrow> ballot" where
  "ballot_for k cm d = sort_ballot (votes_for cm (kv_iter (or_votes k)) d)"

definition wins_target :: "sdk \<Rightarrow> ctx \<Rightarrow> oracle_state \<Rightarrow> claims \<Rightarrow> denom \<Rightarrow> addr \<Rightarrow> denom \<Rightarrow> bool" where
  "wins_target S c k cm ref a d \<longleftrightarrow>
    wins_denom S c (RewardBand (or_params k)) ref (ToMap (ballot_for k cm ref)) a (d, ballot_for k cm d)"

lemma one_vote_each_votes_for:
  assumes "go_map vs" "go_all (\<lambda>v a. length v = 20 \<and> distinct (map t_denom (av_tuples a))) vs"
  shows "one_vote_each (votes_for cm vs d) \<and> v_voter ` set (votes_for cm vs d) \<subseteq> keys vs"
  using assms
proof (induction vs)
  case (Cons p vs)
  obtain a v where p: "p = (a, v)" by (cases p)
  have d: "distinct (map t_denom (av_tuples v))" and l: "length a = 20" and n: "a \<notin> keys vs"
    using Cons.prems by (simp_all add: p)
  have "votes_for cm [p] d = [] \<or> (\<exists>w. votes_for cm [p] d = [w] \<and> v_voter w = a)"
    using filter_distinct_le1 [OF d, of d]
    by (cases "map_of cm (av_voter v)") (auto simp: p votes_for_def)
  then consider "votes_for cm [p] d = []" | w where "votes_for cm [p] d = [w]" "v_voter w = a" by blast
  moreover have "one_vote_each (votes_for cm vs d) \<and> v_voter ` set (votes_for cm vs d) \<subseteq> keys vs"
    using Cons by simp
  moreover have "keys (p # vs) = insert a (keys vs)" by (simp add: p)
  ultimately show ?case
    unfolding votes_for_Cons [of cm p vs] using n l by (cases; auto simp: one_vote_each_def)
qed (simp_all add: votes_for_def one_vote_each_def)

lemma one_vote_each_ballot_for: "oracle_wf S k \<Longrightarrow> one_vote_each (ballot_for k cm d)"
proof -
  assume wf: "oracle_wf S k"
  then have "go_all (\<lambda>v a. length v = 20 \<and> distinct (map t_denom (av_tuples a))) (or_votes k)"
    by (auto simp: oracle_wf_def go_all_def)
  with wf have "one_vote_each (votes_for cm (kv_iter (or_votes k)) d)"
    by (intro one_vote_each_votes_for [THEN conjunct1]) (simp_all add: oracle_wf_def)
  then show ?thesis by (simp add: ballot_for_def one_vote_each_def sort_ballot_def distinct_map)
qed

lemma filter_card:
  assumes "go_map ps" "\<forall>q\<in>set ps. snd q = f (fst q)"
  shows "length (filter W ps) = card {d \<in> keys ps. W (d, f d)}"
proof -
  have "distinct (map fst (filter W ps))" using assms(1) by (rule distinct_map_filter)
  moreover have W: "W q = W (fst q, f (fst q))" if "q \<in> set ps" for q using assms(2) that by (metis prod.collapse)
  have "set (map fst (filter W ps)) = {d \<in> keys ps. W (d, f d)}" using W by auto
  ultimately show ?thesis by (metis distinct_card length_map)
qed

lemma wins_target_rated:
  assumes "d \<in> kept_targets th k cm" "wins_target S c k cm ref a d"
  shows "d \<in> rated th k cm"
proof (rule ccontr)
  assume "d \<notin> rated th k cm"
  with assms(1) have "ballot_for k cm d = []"
    by (auto simp: kept_targets_def rated_def ballot_for_def sort_ballot_def)
  with assms(2) show False
    by (auto simp: wins_target_def wins_denom_def tallied_ballot_def ToCrossRate_def ToCrossRateWithSort_def
        sort_ballot_def split: if_splits)
qed

lemma rated_kept: "rated th k cm \<subseteq> kept_targets th k cm" "finite (kept_targets th k cm)"
  by (auto simp: rated_def kept_targets_def)

text \<open>Counting wins is the same as asking for a win of every target.\<close>

lemma wins_count:
  "card {d \<in> rated th k cm. wins_target S c k cm ref a d} = card (kept_targets th k cm)
    \<longleftrightarrow> (\<forall>d\<in>kept_targets th k cm. wins_target S c k cm ref a d)" (is "card ?X = card ?K \<longleftrightarrow> ?all")
proof
  assume c: "card ?X = card ?K"
  have "?X \<subseteq> ?K" using rated_kept(1) by blast
  from card_subset_eq [OF rated_kept(2) this c] show ?all by blast
next
  assume ?all
  then have "?X = ?K" using wins_target_rated rated_kept(1) by blast
  then show "card ?X = card ?K" by simp
qed

text \<open>What the tally of the chosen ballots writes and counts.\<close>

definition rate_of :: "sdk \<Rightarrow> ctx \<Rightarrow> oracle_state \<Rightarrow> claims \<Rightarrow> denom \<Rightarrow> denom \<Rightarrow> dec \<Rightarrow> bool" where
  "rate_of S c k cm ref d r \<longleftrightarrow> (\<exists>xr pb med. fork_median c (ballot_for k cm ref) = Ok xr
    \<and> tallied_ballot S c ref (ToMap (ballot_for k cm ref)) d (ballot_for k cm d) = Ok pb
    \<and> fork_median c pb = Ok med \<and> (if d \<noteq> ref then dec_quo S xr med else Ok med) = Ok r)"

lemma no_wins: "go_all (\<lambda>k c. c_wins c = 0) cm \<Longrightarrow> c_wins (go_get no_claim cm x) = 0"
  by (cases "map_of cm x") (auto simp: go_get_def no_claim_def dest: go_all_get)

lemma tally_votes_exact:
  assumes S: "dec_laws S" and A: "addr_laws S" and wf: "oracle_wf S k" and g: "go_map (pk_votes pk)"
    and f: "\<forall>q\<in>set (pk_votes pk). snd q = ballot_for k cm (fst q)"
    and e: "if pk_reference pk = [] then pk_votes pk = [] else pk_reference pk \<in> keys (pk_votes pk)"
    and z: "go_all (\<lambda>k c. c_wins c = 0) cm"
    and t: "tally_votes S c (RewardBand (or_params k)) pk cm k0 = Ok (cm', k2)"
  shows "(\<forall>d\<in>keys (pk_votes pk). \<exists>r. map_of (or_rates k2) d = Some r \<and> rate_of S c k cm (pk_reference pk) d r)
    \<and> (\<forall>a. length a = 20 \<and> int (length (pk_votes pk)) < 2 ^ 63 \<longrightarrow> c_wins (go_get no_claim cm' (val_bech32 S a))
        = int (card {d \<in> keys (pk_votes pk). wins_target S c k cm (pk_reference pk) a d}))"
proof (cases "pk_reference pk = []")
  case True
  have "c_wins (go_get no_claim cm x) = 0" for x by (rule no_wins [OF z])
  with e t True show ?thesis by (simp add: tally_votes_def)
next
  case False
  let ?R = "pk_reference pk" and ?V = "pk_votes pk"
  have "map_of ?V ?R \<noteq> None" using e False by (simp add: map_of_eq_None_iff)
  then obtain rb where rb: "map_of ?V ?R = Some rb" by blast
  then have "rb = ballot_for k cm ?R" using f by (auto dest!: map_of_SomeD)
  with rb have R: "go_get [] ?V ?R = ballot_for k cm ?R" by (simp add: go_get_def)
  from t False obtain xr where xr: "fork_median c (ballot_for k cm ?R) = Ok xr"
    and l: "forEach (tally_step S c (RewardBand (or_params k)) ?R (ToMap (ballot_for k cm ?R)) xr) ?V (cm, k0) = Ok (cm', k2)"
    by (auto simp: tally_votes_def Let_def R)
  have o: "\<forall>q\<in>set ?V. one_vote_each (snd q)" using f one_vote_each_ballot_for [OF wf] by simp
  have "c_wins (go_get no_claim cm' (val_bech32 S a)) = int (card {d \<in> keys ?V. wins_target S c k cm ?R a d})"
    if "length a = 20" "int (length ?V) < 2 ^ 63" for a
    using tally_loop_wins [OF S A that(1) o l] that(2) no_wins [OF z]
      filter_card [OF g f, of "wins_denom S c (RewardBand (or_params k)) ?R (ToMap (ballot_for k cm ?R)) a"]
    by (simp add: wins_target_def)
  moreover have "\<exists>r. map_of (or_rates k2) d = Some r \<and> rate_of S c k cm ?R d r" if "d \<in> keys ?V" for d
    using tally_loop_rates [OF S g l] that f xr by (fastforce simp: rate_of_def)
  ultimately show ?thesis by blast
qed

text \<open>The choice of the ballots to tally, in terms of the votes.\<close>

lemma candidates_rated:
  "candidates th (kv_iter (or_tobin k)) (OrganizeBallotByDenom k cm) = (\<lambda>d. (d, ballot_for k cm d)) ` rated th k cm"
proof -
  let ?V = "OrganizeBallotByDenom k cm" and ?f = "votes_for cm (kv_iter (or_votes k))"
  have V: "go_map ?V" using map_of_OrganizeBallotByDenom by blast
  have mem: "p \<in> set ?V \<longleftrightarrow> ?f (fst p) \<noteq> [] \<and> snd p = ballot_for k cm (fst p)" for p
    using map_of_OrganizeBallotByDenom [THEN conjunct2, of k cm "fst p"] map_of_eq_Some_iff [OF V, of "fst p" "snd p"]
    by (auto simp: Let_def ballot_for_def split: if_splits)
  have np: "?f d \<noteq> []" if "passing th (ballot_for k cm d)" for d
    using that by (auto simp: passing_def Power_def sort_ballot_def ballot_for_def)
  have "p \<in> candidates th (kv_iter (or_tobin k)) ?V
      \<longleftrightarrow> fst p \<in> rated th k cm \<and> snd p = ballot_for k cm (fst p)" for p
    using np [of "fst p"] by (auto simp: candidates_def mem rated_def ballot_for_def)
  then show ?thesis by (auto simp: set_eq_iff image_iff)
qed

lemma vote_period_picked:
  assumes S: "dec_laws S" and A: "addr_laws S" and wf: "oracle_wf S k" and st: "staking_law S E x"
    and ne: "[] \<notin> keys (or_tobin k)" and v: "vote_period_end S E c (k, x) = Ok (k', x')"
  obtains cm th pk cm' k2 x1 where
    "claim_loop S (env_validator E x) (env_max_validators E x) (env_power_order E x) [] = Ok cm"
    "nearest th (VoteThreshold (or_params k) * env_bonded_power E x) one_dec"
    "best ((\<lambda>d. (d, ballot_for k cm d)) ` rated th k cm) (pk_reference pk) (pk_largest pk)"
    "go_map (pk_votes pk)" "keys (pk_votes pk) = rated th k cm" "length (pk_targets pk) = card (kept_targets th k cm)"
    "\<forall>q\<in>set (pk_votes pk). claimed S cm (snd q) \<and> snd q = ballot_for k cm (fst q)"
    "tally_votes S c (RewardBand (or_params k)) pk cm (k\<lparr>or_rates := []\<rparr>) = Ok (cm', k2)"
    "ApplyWhitelist E (Whitelist (or_params k)) (pk_targets pk)
       (ClearBallots c (VotePeriod (or_params k)) (fold (count_miss (length (pk_targets pk))) cm' k2), x1) = Ok (k', x')"
proof -
  let ?T = "fold (\<lambda>(d, t) m. go_put d t m) (IterateTobinTaxes k) []"
  obtain cm pk cm' k2 x1 where
    cl: "claim_loop S (env_validator E x) (env_max_validators E x) (env_power_order E x) [] = Ok cm" and
    pk: "PickReferenceTerra S (VoteThreshold (or_params k)) (env_bonded_power E x) ?T
       (OrganizeBallotByDenom k cm) = Ok pk" and
    ta: "tally_votes S c (RewardBand (or_params k)) pk cm (k\<lparr>or_rates := []\<rparr>) = Ok (cm', k2)" and
    wl: "ApplyWhitelist E (Whitelist (or_params k)) (pk_targets pk)
       (ClearBallots c (VotePeriod (or_params k)) (fold (count_miss (length (pk_targets pk))) cm' k2), x1) = Ok (k', x')"
    by (rule vote_period_stages [OF v]) simp
  let ?V = "OrganizeBallotByDenom k cm"
  have gt: "go_map (or_tobin k)" using wf by (simp add: oracle_wf_def)
  then have T: "?T = kv_iter (or_tobin k)" by (simp add: IterateTobinTaxes_def copy_kv_iter)
  have V: "go_map ?V" using map_of_OrganizeBallotByDenom by blast
  note bw = ballots_wf [OF A wf st cl]
  obtain th where th: "nearest th (VoteThreshold (or_params k) * env_bonded_power E x) one_dec"
    and p: "picked th ?T ?V ?V pk"
    by (rule PickReferenceTerra_picked [OF S V _ pk]) (use bw in auto)
  have gp: "go_map (pk_targets pk)" "go_map (pk_votes pk)"
    by (rule PickReferenceTerra_go_map [OF S pk]; use gt V T in simp)+
  note pf = picked_from_votes [OF gt p [unfolded T] gp(1)]
  have all: "\<forall>q\<in>set (pk_votes pk). claimed S cm (snd q) \<and> snd q = ballot_for k cm (fst q)"
  proof
    fix q assume q: "q \<in> set (pk_votes pk)"
    with gp(2) have "map_of (pk_votes pk) (fst q) = Some (snd q)" by simp
    from picked_votes(2) [OF V p this] have "(fst q, snd q) \<in> set ?V" by (rule map_of_SomeD)
    with bw pf(3) [OF q gp(2)] show "claimed S cm (snd q) \<and> snd q = ballot_for k cm (fst q)"
      by (fastforce simp: ballot_for_def)
  qed
  from p have "best ((\<lambda>d. (d, ballot_for k cm d)) ` rated th k cm) (pk_reference pk) (pk_largest pk)"
    by (simp add: picked_def T candidates_rated)
  with that cl th gp(2) pf(1,2) all ta wl show thesis by blast
qed

lemma same_claims_members:
  assumes "same_claims a b"
  shows "(\<lambda>p. (fst p, c_recipient (snd p))) ` set b = (\<lambda>p. (fst p, c_recipient (snd p))) ` set a"
proof -
  have "map (\<lambda>p. (fst p, c_recipient (snd p))) m = zip (map fst m) (map (\<lambda>p. c_recipient (snd p)) m)" for m :: claims
    by (induction m) simp_all
  then have "map (\<lambda>p. (fst p, c_recipient (snd p))) b = map (\<lambda>p. (fst p, c_recipient (snd p))) a"
    using assms same_claims_recipients [OF assms] by (simp add: same_claims_def)
  then show ?thesis by (metis list.set_map)
qed

text \<open>A validator with a claim misses the period unless it wins every target that is left.\<close>

definition misses :: "sdk \<Rightarrow> ctx \<Rightarrow> oracle_state \<Rightarrow> claims \<Rightarrow> int \<Rightarrow> denom \<Rightarrow> addr \<Rightarrow> bool" where
  "misses S c k cm th ref a \<longleftrightarrow> (\<exists>p\<in>set cm. c_recipient (snd p) = a)
    \<and> \<not> (\<forall>d\<in>kept_targets th k cm. wins_target S c k cm ref a d)"

lemma misses_iff:
  assumes st: "staking_law S E x"
    and cl: "claim_loop S (env_validator E x) (env_max_validators E x) (env_power_order E x) [] = Ok cm"
    and sc: "same_claims cm cm'"
    and w: "\<And>a. length a = 20 \<Longrightarrow> c_wins (go_get no_claim cm' (val_bech32 S a))
        = int (card {d \<in> rated th k cm. wins_target S c k cm ref a d})"
  shows "(\<exists>p\<in>set cm'. c_recipient (snd p) = a \<and> c_wins (snd p) \<noteq> int (card (kept_targets th k cm)))
    \<longleftrightarrow> misses S c k cm th ref a"
proof -
  note cf = claims_facts [OF st cl]
  have g: "go_map cm'" using cf(1) sc by (simp add: same_claims_def)
  have "fst p = val_bech32 S (c_recipient (snd p)) \<and> length (c_recipient (snd p)) = 20
      \<and> c_wins (snd p) = c_wins (go_get no_claim cm' (fst p))" if "p \<in> set cm'" for p
  proof -
    have "(fst p, c_recipient (snd p)) \<in> (\<lambda>p. (fst p, c_recipient (snd p))) ` set cm"
      using that same_claims_members [OF sc] by blast
    then have "fst p = val_bech32 S (c_recipient (snd p)) \<and> length (c_recipient (snd p)) = 20"
      using cf(2) by (fastforce simp: go_all_def)
    moreover have "map_of cm' (fst p) = Some (snd p)" using g that by simp
    ultimately show ?thesis by (simp add: go_get_def)
  qed
  then have c: "c_wins (snd p) \<noteq> int (card (kept_targets th k cm)) \<longleftrightarrow>
      \<not> (\<forall>d\<in>kept_targets th k cm. wins_target S c k cm ref (c_recipient (snd p)) d)" if "p \<in> set cm'" for p
    using w [of "c_recipient (snd p)"] that wins_count [of th k cm S c ref "c_recipient (snd p)"] by simp
  have "(\<lambda>p. c_recipient (snd p)) ` set cm' = (\<lambda>p. c_recipient (snd p)) ` set cm"
    using same_claims_recipients [OF sc] by (metis list.set_map)
  moreover have "(\<exists>p\<in>set m. c_recipient (snd p) = a) \<longleftrightarrow> a \<in> (\<lambda>p. c_recipient (snd p)) ` set m" for m :: claims
    by auto
  ultimately have r: "(\<exists>p\<in>set cm. c_recipient (snd p) = a) \<longleftrightarrow> (\<exists>p\<in>set cm'. c_recipient (snd p) = a)"
    by simp
  show ?thesis unfolding misses_def r using c by auto
qed

lemma vote_period_store:
  assumes S: "dec_laws S" and A: "addr_laws S" and wf: "oracle_wf S k" and st: "staking_law S E x"
    and ne: "[] \<notin> keys (or_tobin k)" and v: "vote_period_end S E c (k, x) = Ok (k', x')"
  obtains cm th ref w rs ms where
    "claim_loop S (env_validator E x) (env_max_validators E x) (env_power_order E x) [] = Ok cm"
    "nearest th (VoteThreshold (or_params k) * env_bonded_power E x) one_dec"
    "best ((\<lambda>d. (d, ballot_for k cm d)) ` rated th k cm) ref w" "go_map rs" "keys rs = rated th k cm"
    "\<forall>d\<in>rated th k cm. \<exists>r. map_of rs d = Some r \<and> rate_of S c k cm ref d r" "go_map ms"
    "go_all (\<lambda>v n. length v = 20) ms"
    "int (length (or_tobin k)) < 2 ^ 63 \<Longrightarrow>
      \<forall>a. go_get 0 ms a = go_get 0 (or_miss k) a + of_bool (misses S c k cm th ref a)"
    "k' = ClearBallots c (VotePeriod (or_params k)) (k\<lparr>or_rates := rs, or_miss := ms\<rparr>)\<lparr>or_tobin := or_tobin k'\<rparr>"
    "go_map (or_tobin k')"
proof -
  obtain cm th pk cm' k2 x1 where
    cl: "claim_loop S (env_validator E x) (env_max_validators E x) (env_power_order E x) [] = Ok cm" and
    th: "nearest th (VoteThreshold (or_params k) * env_bonded_power E x) one_dec" and
    be: "best ((\<lambda>d. (d, ballot_for k cm d)) ` rated th k cm) (pk_reference pk) (pk_largest pk)" and
    V: "go_map (pk_votes pk)" "keys (pk_votes pk) = rated th k cm" "length (pk_targets pk) = card (kept_targets th k cm)"
      "\<forall>q\<in>set (pk_votes pk). claimed S cm (snd q) \<and> snd q = ballot_for k cm (fst q)" and
    ta: "tally_votes S c (RewardBand (or_params k)) pk cm (k\<lparr>or_rates := []\<rparr>) = Ok (cm', k2)" and
    wl: "ApplyWhitelist E (Whitelist (or_params k)) (pk_targets pk)
       (ClearBallots c (VotePeriod (or_params k)) (fold (count_miss (length (pk_targets pk))) cm' k2), x1) = Ok (k', x')"
    by (rule vote_period_picked [OF assms])
  have rk: "rated th k cm \<subseteq> keys (or_tobin k)" by (auto simp: rated_def)
  have e: "if pk_reference pk = [] then pk_votes pk = [] else pk_reference pk \<in> keys (pk_votes pk)"
  proof (cases "rated th k cm = {}")
    case True
    with be V(2) show ?thesis by (simp add: best_def)
  next
    case False
    with be V(2) rk ne show ?thesis by (auto simp: best_def)
  qed
  have "pk_reference pk = [] \<longrightarrow> pk_votes pk = []" using e by (simp split: if_splits)
  moreover have "\<forall>p\<in>set (pk_votes pk). claimed S cm (snd p)" using V(4) by blast
  ultimately obtain rs where sc: "same_claims cm cm'" and k2: "k2 = k\<lparr>or_rates := rs\<rparr>"
    and rs: "go_map rs" "keys rs = rated th k cm"
    using tally_votes_Ok [OF S _ ta] V(2) by auto
  have f: "\<forall>q\<in>set (pk_votes pk). snd q = ballot_for k cm (fst q)" using V(4) by blast
  note cf = claims_facts [OF st cl]
  have z: "go_all (\<lambda>k c. c_wins c = 0) cm" using cf(2) by (simp add: go_all_def)
  note tx = tally_votes_exact [OF S A wf V(1) f e z ta]
  have ra: "\<forall>d\<in>rated th k cm. \<exists>r. map_of rs d = Some r \<and> rate_of S c k cm (pk_reference pk) d r"
    using tx V(2) k2 by simp
  have rc: "map (\<lambda>p. c_recipient (snd p)) cm' = map (\<lambda>p. c_recipient (snd p)) cm"
    by (rule same_claims_recipients [OF sc])
  then have dr: "distinct (map (\<lambda>p. c_recipient (snd p)) cm')" using cf(4) by simp
  have "(\<lambda>p. c_recipient (snd p)) ` set cm' = (\<lambda>p. c_recipient (snd p)) ` set cm"
    using rc by (metis list.set_map)
  then have l20: "\<forall>p\<in>set cm'. length (c_recipient (snd p)) = 20"
    using cf(2) by (force simp: go_all_def)
  obtain ms where ms: "fold (count_miss (length (pk_targets pk))) cm' k2 = k2\<lparr>or_miss := ms\<rparr>" "go_map ms"
    "go_all (\<lambda>v n. length v = 20) ms"
    "\<forall>a. go_get 0 ms a = go_get 0 (or_miss k) a + (if \<exists>p\<in>set cm'. c_recipient (snd p) = a
        \<and> c_wins (snd p) \<noteq> int (card (kept_targets th k cm)) then 1 else 0)"
    using fold_count_miss [OF dr, of "length (pk_targets pk)" k2] wf l20 V(3) k2
    by (auto simp: oracle_wf_def)
  have mi: "\<forall>a. go_get 0 ms a = go_get 0 (or_miss k) a + of_bool (misses S c k cm th (pk_reference pk) a)"
    if l: "int (length (or_tobin k)) < 2 ^ 63"
  proof -
    have "length (pk_votes pk) = card (keys (pk_votes pk))"
      using V(1) distinct_card [of "map fst (pk_votes pk)"] by simp
    also have "\<dots> \<le> card (keys (or_tobin k))" using V(2) rk by (simp add: card_mono)
    also have "\<dots> \<le> length (or_tobin k)" using card_length [of "map fst (or_tobin k)"] by simp
    finally have "int (length (pk_votes pk)) < 2 ^ 63" using l by simp
    then show ?thesis
      using ms(4) misses_iff [OF st cl sc, of th k c "pk_reference pk"] tx V(2) by (simp add: of_bool_def)
  qed
  have k': "k' = ClearBallots c (VotePeriod (or_params k)) (k\<lparr>or_rates := rs, or_miss := ms\<rparr>)\<lparr>or_tobin := or_tobin k'\<rparr>"
    and "or_tobin k' = whitelist_map (Whitelist (or_params k)) \<or> or_tobin k' = or_tobin k"
    using ApplyWhitelist_Ok [OF wl] ms(1) k2 by (simp_all add: ClearBallots_eq)
  then have "go_map (or_tobin k')" using wf whitelist_map_go_map by (metis oracle_wf_def)
  with that cl th be rs ra ms(2,3) mi k' show thesis by blast
qed

section \<open>Slashing\<close>

text \<open>What a validator that missed too many votes undergoes: nothing unless bonded and not yet jailed.\<close>

definition punish :: "'x env \<Rightarrow> int \<Rightarrow> dec \<Rightarrow> addr \<Rightarrow> 'x \<Rightarrow> 'x" where
  "punish E h frac a x = (case env_validator E x a of
     Some v \<Rightarrow> if val_bonded v \<and> \<not> val_jailed v
       then (case env_cons_addr E x v of
               Ok ca \<Rightarrow> env_jail E ca (env_slash E ca h (val_power v) frac x) | _ \<Rightarrow> x)
       else x
   | None \<Rightarrow> x)"

text \<open>The share of valid votes is below the minimum, written without division.\<close>

definition below_minimum :: "int \<Rightarrow> dec \<Rightarrow> u64 \<Rightarrow> bool" where
  "below_minimum W minValid m \<longleftrightarrow> (W - uint m) * one_dec < minValid * W"

lemma sdiv_less_iff:
  assumes "0 < (W::int)" "0 < mn" shows "a sdiv W < mn \<longleftrightarrow> a < mn * W"
proof (cases "0 \<le> a")
  case True
  then show ?thesis using assms by (simp add: sdiv_nonneg div_less_iff_int)
next
  case False
  then have "a sdiv W \<le> 0" using assms by (simp add: sdiv_neg pos_imp_zdiv_nonneg_iff)
  moreover have "0 < mn * W" using assms by simp
  ultimately show ?thesis using False assms by linarith
qed

lemma sint_diff:
  fixes W m :: u64
  assumes "uint W < 2 ^ 63" "uint m < 2 ^ 63"
  shows "sint (W - m) = uint W - uint m"
proof -
  have "signed_take_bit 63 (uint W - uint m) = uint W - uint m"
    by (rule signed_take_bit_int_eq_self) (use assms uint_ge_0 [of W] uint_ge_0 [of m] in linarith)+
  then show ?thesis using assms by (simp add: sint_word_diff sint_small)
qed

lemma vote_periods_per_window_Ok:
  assumes S: "dec_laws S" and p: "0 < uint (VotePeriod p)" "uint (VotePeriod p) < 2 ^ 63"
    "uint (SlashWindow p) < 2 ^ 63"
  shows "vote_periods_per_window S p = Ok (SlashWindow p div VotePeriod p)"
proof -
  let ?s = "uint (SlashWindow p)" and ?v = "uint (VotePeriod p)"
  have "(?s * one_dec) sdiv ?v = ?s * one_dec div ?v" using p by (simp add: sdiv_nonneg)
  moreover have "0 \<le> ?s * one_dec div ?v" using p by (simp add: pos_imp_zdiv_nonneg_iff)
  moreover have d: "?s * one_dec div ?v div one_dec = ?s div ?v"
    using p zdiv_zmult2_eq [of one_dec "?s * one_dec" ?v] by simp
  moreover have lt: "?s div ?v < 2 ^ 63" "0 \<le> ?s div ?v"
    using p zdiv_mono2 [of ?s 1 ?v] by (simp_all add: pos_imp_zdiv_nonneg_iff)
  moreover have "chk (int_bits S) (?s div ?v) = Ok (?s div ?v)"
    using lt dec_bitsD [OF S] by (intro chk_fits) auto
  moreover have "word_of_int (?s div ?v) = SlashWindow p div VotePeriod p"
    by (metis uint_div word_of_int_uint)
  ultimately show ?thesis
    using p by (simp add: vote_periods_per_window_def dec_exact [OF S] dec_of_int_def sint_small
        sdiv_nonneg in_i64_def)
qed


lemma slash_step_Ok:
  assumes S: "dec_laws S" and W: "uint W < 2 ^ 63" "uint m < 2 ^ 63" and mn: "0 < mn"
    and s: "slash_step S E h W mn frac (a, m) (k, x) = Ok s"
  shows "s = (DeleteMissCounter a k, if below_minimum (uint W) mn m then punish E h frac a x else x)
    \<and> 0 < uint W"
proof -
  have W0: "uint W \<noteq> 0" using s W by (auto simp: slash_step_def dec_exact [OF S] sint_small Let_def)
  then have W1: "0 < uint W" using uint_ge_0 [of W] by linarith
  have r: "(uint W - uint m) * one_dec sdiv uint W < mn \<longleftrightarrow> below_minimum (uint W) mn m"
    unfolding below_minimum_def by (rule sdiv_less_iff [OF W1 mn])
  from s have "(if below_minimum (uint W) mn m
        then case env_validator E x a of None \<Rightarrow> Panic
          | Some v \<Rightarrow> if val_bonded v \<and> \<not> val_jailed v
             then andThen (mustOk (env_cons_addr E x v)) (\<lambda>ca. Ok (env_jail E ca (env_slash E ca h (val_power v) frac x)))
             else Ok x
        else Ok x) = Ok (snd s) \<and> fst s = DeleteMissCounter a k"
    using W0 W unfolding slash_step_def Let_def fst_conv snd_conv
    by (auto simp: dec_exact [OF S] sint_small sint_diff dec_of_int_def r split del: if_split)
  then show ?thesis
    using W1 by (cases s) (auto simp: punish_def split: if_splits option.splits)
qed

lemma slash_loop:
  assumes S: "dec_laws S" and W: "uint W < 2 ^ 63" and mn: "0 < mn"
  shows "forEach (slash_step S E h W mn frac) ps (k, x) = Ok (k', x') \<Longrightarrow> \<forall>p\<in>set ps. uint (snd p) < 2 ^ 63 \<Longrightarrow>
    k' = k\<lparr>or_miss := fold go_del (map fst ps) (or_miss k)\<rparr>
    \<and> x' = fold (punish E h frac) (map fst (filter (\<lambda>p. below_minimum (uint W) mn (snd p)) ps)) x"
proof (induction ps arbitrary: k x)
  case (Cons p ps)
  obtain a m where p: "p = (a, m)" by (cases p)
  from Cons.prems(1) obtain s where s: "slash_step S E h W mn frac (a, m) (k, x) = Ok s"
    "forEach (slash_step S E h W mn frac) ps s = Ok (k', x')" by (auto simp: p)
  have "uint m < 2 ^ 63" using Cons.prems(2) by (simp add: p)
  note st = slash_step_Ok [OF S W this mn s(1), THEN conjunct1]
  from s(2) have "forEach (slash_step S E h W mn frac) ps (fst s, snd s) = Ok (k', x')" by simp
  from Cons.IH [OF this] Cons.prems(2) st show ?case by (simp add: p DeleteMissCounter_def)
qed simp

section \<open>The invariant of the module\<close>

text \<open>
  Beside the shape of the store: vote targets and whitelisted denoms have names, and every stored
  vote is for current vote targets only.
\<close>

definition oracle_inv :: "sdk \<Rightarrow> oracle_state \<Rightarrow> bool" where
  "oracle_inv S k \<longleftrightarrow> oracle_wf S k \<and> [] \<notin> keys (or_tobin k)
    \<and> (\<forall>i\<in>set (Whitelist (or_params k)). di_name i \<noteq> [])
    \<and> go_all (\<lambda>v a. t_denom ` set (av_tuples a) \<subseteq> keys (or_tobin k)) (or_votes k)"

lemma oracle_handler_inv:
  assumes A: "addr_laws S" and i: "oracle_inv S k" and h: "oracle_handler S vals H c m k = Ok k'"
  shows "oracle_inv S k'" "or_params k' = or_params k"
proof -
  have w: "oracle_wf S k'" using oracle_handler_wf [OF A _ h] i by (simp add: oracle_inv_def)
  have "or_params k' = or_params k \<and> or_tobin k' = or_tobin k
    \<and> go_all (\<lambda>v a. t_denom ` set (av_tuples a) \<subseteq> keys (or_tobin k)) (or_votes k')"
  proof (cases m)
    case (MsgAggregateExchangeRateVote mv)
    then obtain v ts where "reveal_ok S vals H c mv k v ts"
      "k' = k\<lparr>or_votes := go_put v \<lparr>av_tuples = ts, av_voter = val_bech32 S v\<rparr> (or_votes k),
               or_prevotes := go_del v (or_prevotes k)\<rparr>" using h by (auto simp: Vote_Ok_iff)
    with i show ?thesis by (simp add: reveal_ok_def oracle_inv_def)
  qed (use h i in \<open>auto simp: Prevote_Ok_iff Delegate_Ok_iff oracle_inv_def\<close>)
  with w i show "oracle_inv S k'" "or_params k' = or_params k" by (simp_all add: oracle_inv_def)
qed

lemma whitelist_map_keys: "keys (whitelist_map wl) = di_name ` set wl"
proof -
  have "keys (fold (\<lambda>i m. go_put (di_name i) (di_tobin i) m) wl m) = di_name ` set wl \<union> keys m"
    for m :: "(denom, dec) gomap"
    by (induction wl arbitrary: m) auto
  then show ?thesis by (simp add: whitelist_map_def)
qed

text \<open>The parts of the store that the end of a block does not touch.\<close>

lemma vote_period_frame:
  assumes "vote_period_end S E c (k, x) = Ok (k', x')"
  shows "\<exists>rs ms t. k' = ClearBallots c (VotePeriod (or_params k)) (k\<lparr>or_rates := rs, or_miss := ms\<rparr>)\<lparr>or_tobin := t\<rparr>
    \<and> (t = or_tobin k \<or> t = whitelist_map (Whitelist (or_params k)))"
proof -
  obtain cm pk cm' k2 x1 where
    ta: "tally_votes S c (RewardBand (or_params k)) pk cm (k\<lparr>or_rates := []\<rparr>) = Ok (cm', k2)" and
    wl: "ApplyWhitelist E (Whitelist (or_params k)) (pk_targets pk)
       (ClearBallots c (VotePeriod (or_params k)) (fold (count_miss (length (pk_targets pk))) cm' k2), x1) = Ok (k', x')"
    by (rule vote_period_stages [OF assms]) simp
  have m: "\<exists>ms. fold (count_miss n) cs k = k\<lparr>or_miss := ms\<rparr>" for n cs k
  proof (induction cs arbitrary: k)
    case Nil
    show ?case by (rule exI [of _ "or_miss k"]) simp
  next
    case (Cons p cs)
    from Cons [of "count_miss n p k"] show ?case by (auto simp: count_miss_eq split: if_splits)
  qed
  have "\<exists>rs. k2 = k\<lparr>or_rates := rs\<rparr>"
  proof -
    have "\<exists>rs. snd s' = k\<lparr>or_rates := rs\<rparr>"
      if "forEach (tally_step S c b r mm xr) ps (cm, k\<lparr>or_rates := []\<rparr>) = Ok s'" for b r mm xr ps s'
      by (rule forEach_invariant [where P = "\<lambda>s. \<exists>rs. snd s = k\<lparr>or_rates := rs\<rparr>", OF that])
        (auto simp: tally_step_def SetLunaExchangeRate_def Let_def split: if_splits)
    with ta show ?thesis by (fastforce simp: tally_votes_def Let_def split: if_splits)
  qed
  then obtain rs where k2: "k2 = k\<lparr>or_rates := rs\<rparr>" by blast
  obtain ms where ms: "fold (count_miss (length (pk_targets pk))) cm' k2 = k\<lparr>or_rates := rs, or_miss := ms\<rparr>"
    using m [of "length (pk_targets pk)" cm' k2] k2 by auto
  let ?t = "if whitelist_update_required (Whitelist (or_params k)) (pk_targets pk)
      then whitelist_map (Whitelist (or_params k)) else or_tobin k"
  have "k' = ClearBallots c (VotePeriod (or_params k)) (k\<lparr>or_rates := rs, or_miss := ms\<rparr>)\<lparr>or_tobin := ?t\<rparr>"
    using ApplyWhitelist_Ok [OF wl] unfolding ms by (simp add: ClearBallots_eq)
  then show ?thesis by (intro exI [of _ rs] exI [of _ ms] exI [of _ ?t]) simp
qed

lemma vote_period_tobin:
  assumes "vote_period_end S E c (k, x) = Ok (k', x')"
  shows "or_tobin k' = or_tobin k \<or> or_tobin k' = whitelist_map (Whitelist (or_params k))"
  using vote_period_frame [OF assms] by auto

lemma vote_period_inv:
  assumes S: "dec_laws S" and A: "addr_laws S" and st: "staking_law S E x" and i: "oracle_inv S k"
    and v: "vote_period_end S E c (k, x) = Ok (k', x')"
  shows "oracle_inv S k'" "or_params k' = or_params k"
proof -
  have wf: "oracle_wf S k" and ne: "[] \<notin> keys (or_tobin k)"
    and wl: "\<forall>i\<in>set (Whitelist (or_params k)). di_name i \<noteq> []" using i by (simp_all add: oracle_inv_def)
  obtain rs ms where r: "go_map rs" "go_map ms" "go_all (\<lambda>v n. length v = 20) ms"
    "k' = ClearBallots c (VotePeriod (or_params k)) (k\<lparr>or_rates := rs, or_miss := ms\<rparr>)\<lparr>or_tobin := or_tobin k'\<rparr>"
    "go_map (or_tobin k')"
    by (rule vote_period_store [OF S A wf st ne v]) blast
  from arg_cong [OF r(4), of or_params] show p: "or_params k' = or_params k" by (simp add: ClearBallots_eq)
  have "[] \<notin> keys (or_tobin k')"
    using vote_period_tobin [OF v] ne wl whitelist_map_keys [of "Whitelist (or_params k)"] by (metis imageE)
  moreover have "or_votes k' = []" "or_rates k' = rs" "or_miss k' = ms" "or_feeders k' = or_feeders k"
    by (subst r(4), simp add: ClearBallots_eq)+
  moreover have "go_map (or_prevotes k')" "set (or_prevotes k') \<subseteq> set (or_prevotes k)"
    using wf set_fold_del by (subst r(4), simp add: ClearBallots_eq go_map_fold_del oracle_wf_def)+
  ultimately show "oracle_inv S k'"
    using wf wl r p go_all_subset [of "or_prevotes k'" "or_prevotes k"]
    unfolding oracle_inv_def oracle_wf_def by simp
qed

lemma slash_inv:
  assumes i: "oracle_inv S k" and s: "SlashAndResetMissCounters S E c (k, x) = Ok s"
  shows "oracle_inv S (fst s)" "or_params (fst s) = or_params k"
proof -
  from s obtain W where l: "forEach (slash_step S E (i64 (ctx_height c - 1 - 1)) W (MinValidPerWindow (or_params k))
      (SlashFraction (or_params k))) (kv_iter (or_miss k)) (k, x) = Ok s"
    by (auto simp: SlashAndResetMissCounters_def Let_def)
  have "oracle_inv S (fst s) \<and> or_params (fst s) = or_params k"
    by (rule forEach_invariant [where P = "\<lambda>s. oracle_inv S (fst s) \<and> or_params (fst s) = or_params k", OF l])
      (use i in \<open>auto simp: slash_step_def DeleteMissCounter_def oracle_inv_def oracle_wf_def Let_def\<close>)
  then show "oracle_inv S (fst s)" "or_params (fst s) = or_params k" by auto
qed

lemma EndBlocker_inv:
  assumes S: "dec_laws S" and A: "addr_laws S" and st: "staking_law S E x" and i: "oracle_inv S k"
    and e: "oracle_EndBlocker S E c (k, x) = Ok s"
  shows "oracle_inv S (fst s) \<and> or_params (fst s) = or_params k"
proof -
  from e obtain b1 b2 s1 where s1: "(if b1 then vote_period_end S E c (k, x) else Ok (k, x)) = Ok s1"
    and s2: "(if b2 then SlashAndResetMissCounters S E c s1 else Ok s1) = Ok s"
    unfolding oracle_EndBlocker_def Let_def andThen_Ok_iff by blast
  obtain k1 x1 where k1: "s1 = (k1, x1)" by (cases s1)
  have "oracle_inv S k1 \<and> or_params k1 = or_params k"
    using s1 i vote_period_inv [OF S A st i, of c k1 x1] by (cases b1) (auto simp: k1)
  with s2 slash_inv [of S k1 E c x1 s] show ?thesis by (cases b2) (auto simp: k1)
qed

text \<open>
  Runs of the module: messages and block ends in any order, between steps of the other modules
  that change the external state.
\<close>

inductive oracle_reach ::
  "sdk \<Rightarrow> 'x env \<Rightarrow> (string \<Rightarrow> string) \<Rightarrow> oracle_state \<times> 'x \<Rightarrow> oracle_state \<times> 'x \<Rightarrow> bool"
  for S E H s0 where
  start: "oracle_reach S E H s0 s0"
| msg: "oracle_reach S E H s0 (k, x) \<Longrightarrow> oracle_handler S (env_validator E x) H c m k = Ok k' \<Longrightarrow>
    oracle_reach S E H s0 (k', x)"
| block: "oracle_reach S E H s0 (k, x) \<Longrightarrow> oracle_EndBlocker S E c (k, x) = Ok s \<Longrightarrow> oracle_reach S E H s0 s"
| others: "oracle_reach S E H s0 (k, x) \<Longrightarrow> oracle_reach S E H s0 (k, x')"

lemma oracle_reach_inv:
  assumes "dec_laws S" "addr_laws S" "\<And>x. staking_law S E x" "oracle_inv S (fst s0)"
    and "oracle_reach S E H s0 s"
  shows "oracle_inv S (fst s) \<and> or_params (fst s) = or_params (fst s0)"
  using assms(5)
proof (induction rule: oracle_reach.induct)
  case start
  then show ?case using assms by simp
next
  case (msg k x c m k')
  then show ?case using oracle_handler_inv [OF assms(2) _ msg.hyps(2)] by simp
next
  case (block k x c s)
  then show ?case using EndBlocker_inv [OF assms(1,2,3) _ block.hyps(2)] by simp
qed simp

section \<open>Between a prevote and its reveal\<close>

lemma slash_frame:
  assumes "SlashAndResetMissCounters S E c s = Ok s'"
  shows "\<exists>ms. fst s' = (fst s)\<lparr>or_miss := ms\<rparr>"
proof -
  from assms obtain W where l: "forEach (slash_step S E (i64 (ctx_height c - 1 - 1)) W (MinValidPerWindow (or_params (fst s)))
      (SlashFraction (or_params (fst s)))) (kv_iter (or_miss (fst s))) s = Ok s'"
    by (auto simp: SlashAndResetMissCounters_def Let_def)
  have "\<exists>ms. fst s = (fst s)\<lparr>or_miss := ms\<rparr>" by (rule exI [of _ "or_miss (fst s)"]) simp
  then show ?thesis
    by (rule forEach_invariant [where P = "\<lambda>t. \<exists>ms. fst t = (fst s)\<lparr>or_miss := ms\<rparr>", OF l])
      (auto simp: slash_step_def DeleteMissCounter_def Let_def split: if_splits)
qed

text \<open>What a feeder of a validator relies on between its prevote and its reveal.\<close>

definition committed :: "addr \<Rightarrow> aggregate_prevote \<Rightarrow> oracle_params \<Rightarrow> addr \<Rightarrow> oracle_state \<Rightarrow> bool" where
  "committed v pv ps f k \<longleftrightarrow> go_map (or_prevotes k) \<and> map_of (or_prevotes k) v = Some pv \<and> or_params k = ps
    \<and> (f = v \<or> GetFeederDelegation k v = f)"

lemma EndBlocker_committed:
  assumes c: "committed v pv ps f k"
    and l: "\<And>b. IsPeriodLastBlock c (VotePeriod ps) = Ok True \<Longrightarrow> live_prevote c (VotePeriod ps) pv"
    and e: "oracle_EndBlocker S E c (k, x) = Ok s"
  shows "committed v pv ps f (fst s)"
proof -
  have ps: "or_params k = ps" using c by (simp add: committed_def)
  from e ps obtain b s1 sl where b: "IsPeriodLastBlock c (VotePeriod ps) = Ok b"
    and s1: "(if b then vote_period_end S E c (k, x) else Ok (k, x)) = Ok s1"
    and s: "(if sl then SlashAndResetMissCounters S E c s1 else Ok s1) = Ok s"
    by (auto simp: oracle_EndBlocker_def Let_def)
  have "committed v pv ps f (fst s1)"
  proof (cases b)
    case False
    with s1 c show ?thesis by auto
  next
    case True
    obtain k1 x1 where k1: "s1 = (k1, x1)" by (cases s1)
    obtain rs ms t where "k1 = ClearBallots c (VotePeriod ps) (k\<lparr>or_rates := rs, or_miss := ms\<rparr>)\<lparr>or_tobin := t\<rparr>"
      using vote_period_frame [of S E c k x k1 x1] s1 True k1 ps by auto
    then show ?thesis
      using c l b True map_of_prevotes_ClearBallots [of "k\<lparr>or_rates := rs, or_miss := ms\<rparr>" c "VotePeriod ps" v]
      by (simp add: k1 committed_def ClearBallots_eq go_map_fold_del GetFeederDelegation_def)
  qed
  then show ?thesis
    using slash_frame [of S E c s1 s] s
    by (cases sl) (auto simp: committed_def GetFeederDelegation_def)
qed

text \<open>The validator a message speaks for.\<close>

fun msg_validator :: "oracle_msg \<Rightarrow> string" where
  "msg_validator (MsgDelegateFeedConsent m) = md_operator m"
| "msg_validator (MsgAggregateExchangeRatePrevote m) = mp_validator m"
| "msg_validator (MsgAggregateExchangeRateVote m) = mv_validator m"

lemma handler_committed:
  assumes "committed v pv ps f k" "oracle_handler S vals H c m k = Ok k'" "val_of_bech32 S (msg_validator m) \<noteq> Ok v"
  shows "committed v pv ps f k'"
proof (cases m)
  case (MsgDelegateFeedConsent d)
  with assms(2,3) obtain u g where "k' = k\<lparr>or_feeders := go_put u g (or_feeders k)\<rparr>" "u \<noteq> v"
    by (auto simp: Delegate_Ok_iff)
  with assms(1) show ?thesis by (simp add: committed_def GetFeederDelegation_def)
next
  case (MsgAggregateExchangeRatePrevote d)
  with assms(2,3) obtain u q where "k' = k\<lparr>or_prevotes := go_put u q (or_prevotes k)\<rparr>" "u \<noteq> v"
    by (auto simp: Prevote_Ok_iff)
  with assms(1) show ?thesis by (simp add: committed_def GetFeederDelegation_def)
next
  case (MsgAggregateExchangeRateVote d)
  then have "AggregateExchangeRateVote S vals H c d k = Ok k'" using assms(2) by simp
  then obtain u ts where u: "reveal_ok S vals H c d k u ts"
    and k': "k' = k\<lparr>or_votes := go_put u \<lparr>av_tuples = ts, av_voter = val_bech32 S u\<rparr> (or_votes k),
        or_prevotes := go_del u (or_prevotes k)\<rparr>" unfolding Vote_Ok_iff by blast
  have "u \<noteq> v" using u assms(3) MsgAggregateExchangeRateVote by (auto simp: reveal_ok_def)
  with assms(1) k' show ?thesis by (simp add: committed_def GetFeederDelegation_def)
qed

text \<open>
  What may happen from a height on, before a later one: messages that speak for other validators, block
  ends, and any change of the other modules.
\<close>

inductive oracle_meanwhile ::
  "sdk \<Rightarrow> 'x env \<Rightarrow> (string \<Rightarrow> string) \<Rightarrow> addr \<Rightarrow> int \<Rightarrow> int \<Rightarrow> oracle_state \<times> 'x \<Rightarrow> oracle_state \<times> 'x \<Rightarrow> bool"
  for S E H v from_h to_h s0 where
  nothing: "oracle_meanwhile S E H v from_h to_h s0 s0"
| msg: "oracle_meanwhile S E H v from_h to_h s0 (k, x) \<Longrightarrow> val_of_bech32 S (msg_validator m) \<noteq> Ok v \<Longrightarrow>
    oracle_handler S (env_validator E x) H c m k = Ok k' \<Longrightarrow> oracle_meanwhile S E H v from_h to_h s0 (k', x)"
| block: "oracle_meanwhile S E H v from_h to_h s0 (k, x) \<Longrightarrow> from_h \<le> ctx_height c \<Longrightarrow> ctx_height c < to_h \<Longrightarrow>
    oracle_EndBlocker S E c (k, x) = Ok s \<Longrightarrow> oracle_meanwhile S E H v from_h to_h s0 s"
| others: "oracle_meanwhile S E H v from_h to_h s0 (k, x) \<Longrightarrow> oracle_meanwhile S E H v from_h to_h s0 (k, x')"

lemma meanwhile_committed:
  assumes "oracle_meanwhile S E H v from_h to_h s0 s" "committed v pv ps f (fst s0)"
    and "\<And>c. from_h \<le> ctx_height c \<Longrightarrow> ctx_height c < to_h \<Longrightarrow>
      IsPeriodLastBlock c (VotePeriod ps) = Ok True \<Longrightarrow> live_prevote c (VotePeriod ps) pv"
  shows "committed v pv ps f (fst s)"
  using assms(1)
proof (induction rule: oracle_meanwhile.induct)
  case nothing
  show ?case by (rule assms(2))
next
  case (msg k x m c k')
  from handler_committed [OF _ msg.hyps(3,2)] msg.IH show ?case by simp
next
  case (block k x c s)
  from EndBlocker_committed [OF _ _ block.hyps(4)] block.IH assms(3) [OF block.hyps(2,3)] show ?case by simp
qed simp

text \<open>The only period end between a prevote and a reveal in the next period leaves the prevote alive.\<close>

lemma div_bounds: "0 < (p::int) \<Longrightarrow> h div p * p \<le> h \<and> h < (h div p + 1) * p"
  using div_mult_mod_eq [of h p] pos_mod_bound [of p h] pos_mod_sign [of p h] unfolding distrib_right by linarith

lemma next_period_live:
  assumes p: "p = uint P" "0 < p" and h: "0 \<le> h" "h + p < 2 ^ 63" "h' < 2 ^ 63" and n: "h' div p = h div p + 1"
    and c: "h \<le> ctx_height c" "ctx_height c < h'" and e: "IsPeriodLastBlock c P = Ok True"
  shows "live_prevote c P \<lparr>pv_hash = x, pv_voter = y, pv_block = word_of_int h\<rparr>"
proof -
  let ?q = "h div p" and ?g = "ctx_height c"
  have P: "P = word_of_int p" using p by simp
  have "p < 2 ^ 64" using h by simp
  then have "p dvd ?g + 1"
    using e IsPeriodLastBlock_iff [of c p] p(2) h c unfolding P by simp
  then obtain m where m: "?g + 1 = p * m" ..
  have b: "?q * p \<le> h" "h' < (?q + 2) * p"
    using div_bounds [OF p(2), of h] div_bounds [OF p(2), of h'] n by (simp_all add: add.assoc)
  then have "p * ?q < p * m" "p * m < p * (?q + 2)"
    using m c mult.commute [of p ?q] mult.commute [of p "?q + 2"] by linarith+
  then have "m = ?q + 1" using p(2) by simp
  then have "?g + 1 \<le> h + p" using m b(1) by (simp add: algebra_simps)
  moreover have "uint (word_of_int h + P) = h + p"
    using h p by (simp add: uint_word_ariths uint_word_of_int)
  ultimately show ?thesis using h(2) by (simp add: live_prevote_def sint_small)
qed

section \<open>Rewards\<close>

text \<open>
  What the rewards rely on of the bank and distribution keepers: allocating to a validator leaves
  the oracle account alone, and a transfer out of the account succeeds when the account holds the
  coins, and then takes exactly them.
\<close>

definition pay_law :: "'x env \<Rightarrow> bool" where
  "pay_law E \<longleftrightarrow>
    (\<forall>v cs x. env_pool E (env_allocate E v cs x) = env_pool E x)
    \<and> (\<forall>cs x. coins_wf cs \<longrightarrow> (\<forall>d. amt cs d \<le> env_pool E x d) \<longrightarrow>
         (\<exists>x'. env_send_to_distr E cs x = Ok x' \<and> (\<forall>d. env_pool E x' d = env_pool E x d - amt cs d)))"

lemma dec_coins_mulD:
  assumes "dec_coin_laws S" "dec_coins_wf a" "0 \<le> x" "dec_coins_mul S a x = Ok c"
  shows "dec_coins_wf c \<and> (\<forall>d. nearest (damt c d) (damt a d * x) one_dec)"
proof -
  have "\<forall>a x. dec_coins_wf a \<longrightarrow> 0 \<le> x \<longrightarrow> dec_coins_mul S a x = Panic
      \<or> (\<exists>c. dec_coins_mul S a x = Ok c \<and> dec_coins_wf c
           \<and> (\<forall>d. nearest (damt c d) (damt a d * x) one_dec))"
    using assms(1) unfolding dec_coin_laws_def by (elim conjE)
  with assms(2-4) show ?thesis by fastforce
qed

lemma dec_coins_truncD:
  assumes "dec_coin_laws S" "dec_coins_wf a" "dec_coins_trunc S a = Ok c"
  shows "coins_wf c \<and> (\<forall>d. amt c d = damt a d div one_dec)"
proof -
  have "\<forall>a. dec_coins_wf a \<longrightarrow> dec_coins_trunc S a = Panic
      \<or> (\<exists>c. dec_coins_trunc S a = Ok c \<and> coins_wf c \<and> (\<forall>d. amt c d = damt a d div one_dec))"
    using assms(1) unfolding dec_coin_laws_def by (elim conjE)
  with assms(2,3) show ?thesis by fastforce
qed

lemma period_reward_step_Ok:
  assumes L: "dec_laws S" "coin_laws S" "dec_coin_laws S" and wf: "dec_coins_wf acc"
    and pool: "0 \<le> env_pool E x d" and r: "0 \<le> ratio"
    and s: "period_reward_step S E x ratio d acc = Ok acc'"
  shows "dec_coins_wf acc'" "damt acc' e = damt acc e + (if e = d then env_pool E x d * ratio else 0)"
proof -
  let ?p = "env_pool E x d"
  have "dec_coins_wf acc' \<and> damt acc' e = damt acc e + (if e = d then ?p * ratio else 0)"
  proof (cases "?p = 0")
    case True
    with s wf show ?thesis by (simp add: period_reward_step_def)
  next
    case False
    with s obtain q dc where q: "dec_mul S (dec_of_int ?p) ratio = Ok q" "new_dec_coin S d q = Ok dc"
      "dec_coins_add S acc [dc] = Ok acc'" by (auto simp: period_reward_step_def)
    have "nearest q (?p * ratio * one_dec) one_dec"
      using dec_mulD [OF L(1) q(1)] by (simp add: dec_of_int_def ac_simps)
    then have "q = ?p * ratio" by (rule nearest_exact) simp
    with q(2) have "dc = \<lparr>dc_denom = d, dc_amount = ?p * ratio\<rparr>" "0 \<le> ?p * ratio"
      by (auto simp: new_dec_coinI [OF L(2)] split: if_splits)
    with dec_coins_addD [OF L(3) wf _ q(3)] show ?thesis by (auto simp: damt_Cons)
  qed
  then show "dec_coins_wf acc'" "damt acc' e = damt acc e + (if e = d then ?p * ratio else 0)" by blast+
qed

lemma period_rewards:
  assumes L: "dec_laws S" "coin_laws S" "dec_coin_laws S"
    and pool: "\<And>d. 0 \<le> env_pool E x d" and r: "0 \<le> ratio"
  shows "forEach (period_reward_step S E x ratio) ds acc = Ok per \<Longrightarrow> dec_coins_wf acc \<Longrightarrow> distinct ds \<Longrightarrow>
    dec_coins_wf per \<and> (\<forall>e. damt per e = damt acc e + (if e \<in> set ds then env_pool E x e * ratio else 0))"
proof (induction ds arbitrary: acc)
  case (Cons d ds)
  then obtain acc1 where a: "period_reward_step S E x ratio d acc = Ok acc1"
    "forEach (period_reward_step S E x ratio) ds acc1 = Ok per" by auto
  note st = period_reward_step_Ok [OF L Cons.prems(2) pool r a(1)]
  from Cons.IH [OF a(2) st(1)] Cons.prems(3) show ?case by (simp add: st(2))
qed simp

text \<open>One winner's coins, before truncation, are within half a unit of the share.\<close>

lemma reward_step_Ok:
  assumes L: "dec_laws S" "coin_laws S" "dec_coin_laws S" and pl: "pay_law E"
    and wf: "coins_wf (fst s)" "dec_coins_wf per"
    and w: "0 \<le> c_weight (snd p)" "0 < W"
    and st: "reward_step S E per W p s = Ok s'"
  shows "coins_wf (fst s') \<and> env_pool E (snd s') = env_pool E (snd s) \<and> amt (fst s) d \<le> amt (fst s') d \<and>
    2 * amt (fst s') d * one_dec * one_dec
      \<le> 2 * amt (fst s) d * one_dec * one_dec + 2 * damt per d * (c_weight (snd p) * one_dec div W) + one_dec"
proof -
  let ?sh = "c_weight (snd p) * one_dec div W"
  have sh: "dec_quo_int S (dec_of_int (c_weight (snd p))) W = Ok ?sh" "0 \<le> ?sh"
    using w by (simp_all add: dec_exact [OF L(1)] dec_of_int_def sdiv_nonneg pos_imp_zdiv_nonneg_iff)
  from st obtain r rc where r: "dec_coins_mul S per ?sh = Ok r" "dec_coins_trunc S r = Ok rc"
    and s': "(case env_validator E (snd s) (c_recipient (snd p)) of
       Some v \<Rightarrow> if coins_is_zero S rc then Ok s
         else andThen (coins_add S (fst s) rc) (\<lambda>distributed.
              Ok (distributed, env_allocate E v (dec_coins_of_coins S rc) (snd s)))
     | None \<Rightarrow> Ok s) = Ok s'"
    unfolding reward_step_def Let_def sh(1) andThen.simps(1) andThen_Ok_iff by blast
  from dec_coins_mulD [OF L(3) wf(2) sh(2) r(1)] have rw: "dec_coins_wf r"
    and rn: "nearest (damt r d) (damt per d * ?sh) one_dec" by auto
  from dec_coins_truncD [OF L(3) rw r(2)] have cw: "coins_wf rc" and ca: "amt rc d = damt r d div one_dec" by auto
  have per0: "0 \<le> damt per d" by (rule dec_coins_wf_damt_nonneg [OF wf(2)])
  have rc0: "0 \<le> amt rc d" by (rule coins_wf_amt_nonneg [OF cw])
  have "amt rc d * one_dec \<le> damt r d" by (simp add: ca div_mult_le_int)
  then have "2 * amt rc d * one_dec * one_dec \<le> 2 * damt r d * one_dec" by simp
  also have "\<dots> \<le> 2 * damt per d * ?sh + one_dec"
    using rn abs_ge_self [of "damt r d * one_dec - damt per d * ?sh"] unfolding nearest_def by simp
  finally have b: "2 * amt rc d * one_dec * one_dec \<le> 2 * damt per d * ?sh + one_dec" .
  have z: "0 \<le> 2 * damt per d * ?sh + one_dec" using per0 sh(2) by simp
  have al: "env_pool E (env_allocate E v cs y) = env_pool E y" for v cs y
    using pl unfolding pay_law_def by blast
  have "s' = s \<or> coins_add S (fst s) rc = Ok (fst s') \<and> env_pool E (snd s') = env_pool E (snd s)"
    using s' by (cases "env_validator E (snd s) (c_recipient (snd p))"; cases "coins_is_zero S rc") (auto simp: al)
  then show ?thesis
  proof
    assume "s' = s"
    with wf z show ?thesis by simp
  next
    assume a: "coins_add S (fst s) rc = Ok (fst s') \<and> env_pool E (snd s') = env_pool E (snd s)"
    note ca = coins_addD [OF L(2) wf(1) cw conjunct1 [OF a]]
    have "2 * amt (fst s') d * one_dec * one_dec = 2 * amt (fst s) d * one_dec * one_dec + 2 * amt rc d * one_dec * one_dec"
      unfolding ca(2) by (simp add: distrib_left distrib_right)
    with a b rc0 ca show ?thesis by simp
  qed
qed

lemma reward_loop:
  assumes L: "dec_laws S" "coin_laws S" "dec_coin_laws S" and pl: "pay_law E"
    and per: "dec_coins_wf per" and t: "0 < W"
  shows "forEach (reward_step S E per W) ws s = Ok s' \<Longrightarrow> coins_wf (fst s) \<Longrightarrow>
      \<forall>p\<in>set ws. 0 \<le> c_weight (snd p) \<Longrightarrow>
    coins_wf (fst s') \<and> env_pool E (snd s') = env_pool E (snd s) \<and> amt (fst s) d \<le> amt (fst s') d \<and>
    2 * amt (fst s') d * one_dec * one_dec \<le> 2 * amt (fst s) d * one_dec * one_dec
      + 2 * damt per d * (\<Sum>p\<leftarrow>ws. c_weight (snd p) * one_dec div W) + int (length ws) * one_dec"
proof (induction ws arbitrary: s)
  case (Cons p ws)
  then obtain s1 where s1: "reward_step S E per W p s = Ok s1"
    "forEach (reward_step S E per W) ws s1 = Ok s'" by auto
  have "0 \<le> c_weight (snd p)" using Cons.prems(3) by simp
  note st = reward_step_Ok [OF L pl Cons.prems(2) per this t s1(1), of d]
  then have "coins_wf (fst s1)" by blast
  from Cons.IH [OF s1(2) this] Cons.prems(3) st show ?case by (simp add: algebra_simps)
qed simp

lemma shares_le_one:
  assumes "0 < W" "\<forall>p\<in>set ws. 0 \<le> c_weight (snd p)"
  shows "(\<Sum>p\<leftarrow>ws. c_weight (snd p) * one_dec div W) * W \<le> (\<Sum>p\<leftarrow>ws. c_weight (snd p)) * one_dec"
proof (induction ws)
  case (Cons p ws)
  have "c_weight (snd p) * one_dec div W * W \<le> c_weight (snd p) * one_dec"
    using assms(1) by (simp add: div_mult_le_int)
  with Cons show ?case by (simp add: distrib_right)
qed simp


lemma ballot_power_sum_eq:
  assumes "\<forall>p\<in>set ws. 0 \<le> c_weight (snd p)" "(\<Sum>p\<leftarrow>ws. c_weight (snd p)) < 2 ^ 63"
  shows "ballot_power_sum ws = (\<Sum>p\<leftarrow>ws. c_weight (snd p))"
proof -
  have "fold (\<lambda>p s. i64 (s + c_weight (snd p))) ws a = a + (\<Sum>p\<leftarrow>ws. c_weight (snd p))"
    if "\<forall>p\<in>set ws. 0 \<le> c_weight (snd p)" "0 \<le> a" "a + (\<Sum>p\<leftarrow>ws. c_weight (snd p)) < 2 ^ 63" for a
    using that
  proof (induction ws arbitrary: a)
    case (Cons p ws)
    have "0 \<le> (\<Sum>p\<leftarrow>ws. c_weight (snd p))" using Cons.prems(1) by (intro sum_list_nonneg) auto
    with Cons.prems have "in_i64 (a + c_weight (snd p))" by (simp add: in_i64_def)
    with Cons show ?case by (simp add: add.assoc)
  qed simp
  from this [of 0] assms show ?thesis by (simp add: ballot_power_sum_def)
qed

text \<open>What the winners get together never exceeds the pool, whatever the rounding does.\<close>

lemma rewards_bound:
  assumes L: "dec_laws S" "coin_laws S" "dec_coin_laws S" and pl: "pay_law E"
    and pool: "\<And>d. 0 \<le> env_pool E x d" and r: "0 \<le> ratio" "ratio \<le> one_dec"
    and ds: "distinct ds" and per: "forEach (period_reward_step S E x ratio) ds [] = Ok per"
    and ws: "\<forall>p\<in>set ws. 0 \<le> c_weight (snd p)" "(\<Sum>p\<leftarrow>ws. c_weight (snd p)) = W" "0 < W"
    and n: "int (length ws) < 2 * one_dec"
    and l: "forEach (reward_step S E per W) ws ([], x) = Ok s"
  shows "coins_wf (fst s)" "env_pool E (snd s) = env_pool E x" "0 \<le> amt (fst s) d"
    "2 * amt (fst s) d * one_dec \<le> 2 * env_pool E x d * ratio + int (length ws)"
    "amt (fst s) d \<le> env_pool E x d"
proof -
  from period_rewards [OF L pool r(1) per] ds have pw: "dec_coins_wf per"
    and pd: "damt per d \<le> env_pool E x d * ratio" "0 \<le> damt per d"
    using pool r dec_coins_wf_damt_nonneg by auto
  from reward_loop [OF L pl pw ws(3) l] ws(1) show "coins_wf (fst s)" "env_pool E (snd s) = env_pool E x"
    "0 \<le> amt (fst s) d" by (simp_all add: coins_wf_amt_nonneg)
  let ?sh = "\<Sum>p\<leftarrow>ws. c_weight (snd p) * one_dec div W"
  have "?sh * W \<le> one_dec * W" using shares_le_one [OF ws(3,1)] ws(2) by (simp add: mult.commute)
  then have sh: "?sh \<le> one_dec" using ws(3) by simp
  have "2 * amt (fst s) d * one_dec * one_dec \<le> 2 * damt per d * ?sh + int (length ws) * one_dec"
    using reward_loop [OF L pl pw ws(3) l _ ws(1), of d] by simp
  also have "\<dots> \<le> 2 * damt per d * one_dec + int (length ws) * one_dec"
    using sh pd(2) by (simp add: mult_left_mono)
  also have "\<dots> = (2 * damt per d + int (length ws)) * one_dec" by (simp add: distrib_right)
  finally have "2 * amt (fst s) d * one_dec \<le> 2 * damt per d + int (length ws)" by simp
  with pd(1) show b: "2 * amt (fst s) d * one_dec \<le> 2 * env_pool E x d * ratio + int (length ws)" by simp
  have "env_pool E x d * ratio \<le> env_pool E x d * one_dec" using pool r(2) by (simp add: mult_left_mono)
  with b n have "2 * amt (fst s) d * one_dec < 2 * env_pool E x d * one_dec + 2 * one_dec" by simp
  then have "(2 * amt (fst s) d) * one_dec < (2 * env_pool E x d + 2) * one_dec" by (simp add: distrib_right)
  then have "2 * amt (fst s) d < 2 * env_pool E x d + 2" by (simp only: mult_less_cancel_right_pos one_dec_pos)
  then show "amt (fst s) d \<le> env_pool E x d" by simp
qed

section \<open>Properties\<close>

text \<open>
  C25: the rewards of a vote period never exceed the pool. With the vote period at most the
  distribution window, non-negative weights and fewer than two times ten to the eighteen winners,
  what leaves the oracle account in any denom is at most the period's share of the pool, up to half
  of the smallest decimal unit per winner, and never more than the pool; so once the amounts have
  been computed the transfer to the distribution module cannot fail.
\<close>

theorem rewards_within_pool:
  assumes L: "dec_laws S" "coin_laws S" "dec_coin_laws S" and pl: "pay_law E"
    and fork: "\<not> before_reward_fork c" and vp: "0 \<le> vp" "vp \<le> win" "0 < win"
    and T: "go_map T" "MicroLunaDenom \<notin> keys T" and pool: "\<And>d. 0 \<le> env_pool E x d"
    and ws: "\<forall>p\<in>set ws. 0 \<le> c_weight (snd p)" "(\<Sum>p\<leftarrow>ws. c_weight (snd p)) < 2 ^ 63"
    and n: "int (length ws) < 2 * one_dec"
  shows "(\<forall>x'. RewardBallotWinners S E c vp win T ws x = Ok x' \<longrightarrow>
      0 \<le> env_pool E x' d \<and> env_pool E x' d \<le> env_pool E x d
      \<and> 2 * (env_pool E x d - env_pool E x' d) * one_dec
          \<le> 2 * env_pool E x d * (vp * one_dec div win) + int (length ws))
    \<and> (\<forall>per s. forEach (period_reward_step S E x (vp * one_dec div win)) (MicroLunaDenom # map fst T) [] = Ok per \<longrightarrow>
         forEach (reward_step S E per (ballot_power_sum ws)) ws ([], x) = Ok s \<longrightarrow>
         (\<exists>x'. RewardBallotWinners S E c vp win T ws x = Ok x'))"
proof -
  let ?W = "\<Sum>p\<leftarrow>ws. c_weight (snd p)" and ?r = "vp * one_dec div win" and ?ds = "MicroLunaDenom # map fst T"
  note W = ballot_power_sum_eq [OF ws]
  have W0: "0 \<le> ?W" using ws(1) by (intro sum_list_nonneg) auto
  have r: "0 \<le> ?r" "?r \<le> one_dec"
    using vp zdiv_mono1 [of "vp * one_dec" "win * one_dec" win]
    by (simp_all add: pos_imp_zdiv_nonneg_iff)
  have q: "dec_quo_int S (dec_of_int vp) win = Ok ?r"
    using vp by (simp add: dec_exact [OF L(1)] dec_of_int_def sdiv_nonneg)
  have R: "RewardBallotWinners S E c vp win T ws x = (if ?W = 0 then Ok x else
     andThen (forEach (period_reward_step S E x ?r) ?ds []) (\<lambda>per.
     andThen (forEach (reward_step S E per ?W) ws ([], x)) (\<lambda>s. mustOk (env_send_to_distr E (fst s) (snd s)))))"
    using fork by (simp add: RewardBallotWinners_def W q Let_def)
  have ds: "distinct ?ds" using T by simp
  have send: "\<exists>x'. env_send_to_distr E (fst s) (snd s) = Ok x'
      \<and> (\<forall>d. env_pool E x' d = env_pool E x d - amt (fst s) d)"
    if "?W \<noteq> 0" "forEach (period_reward_step S E x ?r) ?ds [] = Ok per"
      "forEach (reward_step S E per ?W) ws ([], x) = Ok s" for per s
  proof -
    have "0 < ?W" using that W0 by simp
    note b = rewards_bound [OF L pl pool r ds that(2) ws(1) refl this n that(3)]
    have "\<forall>cs x. coins_wf cs \<longrightarrow> (\<forall>d. amt cs d \<le> env_pool E x d) \<longrightarrow>
         (\<exists>x'. env_send_to_distr E cs x = Ok x' \<and> (\<forall>d. env_pool E x' d = env_pool E x d - amt cs d))"
      using pl unfolding pay_law_def by (elim conjE)
    then show ?thesis using b(1,2,5) by metis
  qed
  have nn: "0 \<le> 2 * env_pool E x d * ?r + int (length ws)" using pool r by simp
  show ?thesis
  proof (cases "?W = 0")
    case True
    with R pool nn show ?thesis by simp
  next
    case False
    then have "0 < ?W" using W0 by simp
    note b = rewards_bound [OF L pl pool r ds _ ws(1) refl this n]
    show ?thesis
    proof (intro conjI allI impI)
      fix x' assume "RewardBallotWinners S E c vp win T ws x = Ok x'"
      then obtain per s where ps: "forEach (period_reward_step S E x ?r) ?ds [] = Ok per"
        "forEach (reward_step S E per ?W) ws ([], x) = Ok s" "env_send_to_distr E (fst s) (snd s) = Ok x'"
        unfolding R if_not_P [OF False] andThen_Ok_iff mustOk_Ok_iff by blast
      from send [OF False ps(1,2)] ps(3) have p: "env_pool E x' d = env_pool E x d - amt (fst s) d" by simp
      from b(3-5) [OF ps(1,2), of d] show "0 \<le> env_pool E x' d" "env_pool E x' d \<le> env_pool E x d"
        "2 * (env_pool E x d - env_pool E x' d) * one_dec \<le> 2 * env_pool E x d * ?r + int (length ws)"
        unfolding p by simp_all
    next
      fix per s assume ps: "forEach (period_reward_step S E x ?r) ?ds [] = Ok per"
        "forEach (reward_step S E per (ballot_power_sum ws)) ws ([], x) = Ok s"
      from send [OF False ps(1)] ps(2) obtain x' where "env_send_to_distr E (fst s) (snd s) = Ok x'"
        unfolding W by blast
      then show "\<exists>x'. RewardBallotWinners S E c vp win T ws x = Ok x'"
        unfolding R if_not_P [OF False] ps(1) andThen.simps(1) ps(2) [unfolded W] by simp
    qed
  qed
qed

text \<open>Keepers for examples: the state is the pool of the oracle account and the slashed validators.\<close>

definition sample_env :: "((denom \<Rightarrow> int) \<times> addr list) env" where
  "sample_env = \<lparr>env_max_validators = (\<lambda>_. 5), env_power_order = (\<lambda>_. [sample_val]),
     env_validator = (\<lambda>x a. if a = sample_val
       then Some (sample_validator\<lparr>val_jailed := sample_val \<in> set (snd x)\<rparr>) else None),
     env_bonded_power = (\<lambda>_. 1), env_cons_addr = (\<lambda>_ v. Ok (val_operator v)),
     env_slash = (\<lambda>ca _ _ _ x. (fst x, ca # snd x)), env_jail = (\<lambda>_ x. x),
     env_pool = fst, env_all_balances = (\<lambda>_. []), env_allocate = (\<lambda>_ _ x. x),
     env_send_to_distr = (\<lambda>cs x. if list_all (\<lambda>c. coin_amount c \<le> fst x (coin_denom c)) cs
       then Ok (\<lambda>d. fst x d - amt cs d, snd x) else Err ErrInvalidCoins),
     env_has_metadata = (\<lambda>_ _. True), env_set_metadata = (\<lambda>_ x. x)\<rparr>"

lemma pay_law_sample_env: "pay_law sample_env"
  unfolding pay_law_def
proof (intro conjI allI impI)
  fix cs and x :: "(denom \<Rightarrow> int) \<times> addr list"
  assume w: "coins_wf cs" and le: "\<forall>d. amt cs d \<le> env_pool sample_env x d"
  have "list_all (\<lambda>c. coin_amount c \<le> fst x (coin_denom c)) cs"
    unfolding list_all_iff
  proof
    fix c assume "c \<in> set cs"
    with w have "amt cs (coin_denom c) = coin_amount c" by (rule coins_wf_amt_mem)
    with le show "coin_amount c \<le> fst x (coin_denom c)" by (simp add: sample_env_def) metis
  qed
  then show "\<exists>x'. env_send_to_distr sample_env cs x = Ok x'
      \<and> (\<forall>d. env_pool sample_env x' d = env_pool sample_env x d - amt cs d)"
    by (simp add: sample_env_def)
qed (simp add: sample_env_def)

definition sample_claim :: claim where
  "sample_claim = NewClaim 1 1 1 sample_val"

theorem rewards_within_pool_witness:
  "\<exists>x'. RewardBallotWinners sdk_ref sample_env \<lparr>ctx_height = 9, ctx_chain = ''t''\<rparr> 5 10 []
      [(''v'', sample_claim)] (\<lambda>d. 100, []) = Ok x' \<and> env_pool sample_env x' ''uluna'' \<in> {0..100}"
proof -
  let ?c = "\<lparr>ctx_height = 9, ctx_chain = ''t''\<rparr>" and ?x = "(\<lambda>d::denom. 100::int, [] :: addr list)"
  have f: "\<not> before_reward_fork ?c"
    by (simp add: before_reward_fork_def ColumbusChainID_def BombayChainID_def)
  have p: "0 \<le> env_pool sample_env ?x d" for d by (simp add: sample_env_def)
  have w: "\<forall>p\<in>set [(''v'', sample_claim)]. 0 \<le> c_weight (snd p)"
    "(\<Sum>p\<leftarrow>[(''v'', sample_claim)]. c_weight (snd p)) < 2 ^ 63" "int (length [(''v'', sample_claim)]) < 2 * one_dec"
    by (simp_all add: sample_claim_def NewClaim_def one_dec_def)
  have per: "forEach (period_reward_step sdk_ref sample_env ?x (5 * one_dec div 10)) [MicroLunaDenom] []
      = Ok [\<lparr>dc_denom = ''uluna'', dc_amount = 50 * one_dec\<rparr>]"
    by (simp add: period_reward_step_def sample_env_def ref_eval coins_eval MicroLunaDenom_def)
  have lp: "\<exists>s. forEach (reward_step sdk_ref sample_env [\<lparr>dc_denom = ''uluna'', dc_amount = 50 * one_dec\<rparr>]
      (ballot_power_sum [(''v'', sample_claim)])) [(''v'', sample_claim)] ([], ?x) = Ok s"
    by (simp add: reward_step_def ballot_power_sum_def sample_env_def sample_claim_def NewClaim_def in_i64_def
        ref_eval coins_eval)
  note th = rewards_within_pool [OF dec_laws_sdk_ref coin_laws_sdk_ref dec_coin_laws_sdk_ref pay_law_sample_env f,
      of 5 10 "[]" ?x, OF _ _ _ _ _ p w, of "''uluna''"]
  obtain x' where x': "RewardBallotWinners sdk_ref sample_env ?c 5 10 [] [(''v'', sample_claim)] ?x = Ok x'"
    using conjunct2 [OF th] per lp by auto
  then have "env_pool sample_env x' ''uluna'' \<in> {0..env_pool sample_env ?x ''uluna''}"
    using conjunct1 [OF th] by auto
  then have "env_pool sample_env x' ''uluna'' \<in> {0..100}" by (simp add: sample_env_def)
  with x' show ?thesis by blast
qed

text \<open>
  C3: the end of a vote period. When it succeeds, exactly the vote targets whose ballot passes the
  threshold have an exchange rate. The reference denom is the one with the most power, the first by
  name among equals; its rate is the weighted median of its ballot, and the rate of another denom is the
  reference median divided by the median of the cross rates. All votes are gone, the prevotes that are
  older than a vote period are gone and no other. A validator with a claim has one more miss exactly
  when some target that is left (one without a ballot or with a passing one) was not won by it, where
  winning needs a vote inside the reward spread around the median or an abstention; no other counter
  changes. Feeders and parameters stay. The number of targets fits an \<open>int64\<close>.
\<close>

theorem vote_period_outcome:
  assumes S: "dec_laws S" and A: "addr_laws S" and wf: "oracle_inv S k" and st: "staking_law S E x"
    and n: "int (length (or_tobin k)) < 2 ^ 63" and v: "vote_period_end S E c (k, x) = Ok (k', x')"
  shows "\<exists>cm th ref w. claim_loop S (env_validator E x) (env_max_validators E x) (env_power_order E x) [] = Ok cm
    \<and> nearest th (VoteThreshold (or_params k) * env_bonded_power E x) one_dec
    \<and> best ((\<lambda>d. (d, ballot_for k cm d)) ` rated th k cm) ref w
    \<and> keys (or_rates k') = rated th k cm
    \<and> (\<forall>d\<in>rated th k cm. \<exists>r. map_of (or_rates k') d = Some r \<and> rate_of S c k cm ref d r)
    \<and> or_votes k' = [] \<and> or_feeders k' = or_feeders k \<and> or_params k' = or_params k
    \<and> (\<forall>a. map_of (or_prevotes k') a = (case map_of (or_prevotes k) a of
         Some p \<Rightarrow> if live_prevote c (VotePeriod (or_params k)) p then Some p else None | None \<Rightarrow> None))
    \<and> (\<forall>a. GetMissCounter k' a = GetMissCounter k a + of_bool (misses S c k cm th ref a))"
proof -
  have w: "oracle_wf S k" "[] \<notin> keys (or_tobin k)" using wf by (simp_all add: oracle_inv_def)
  obtain cm th ref w rs ms where r:
    "claim_loop S (env_validator E x) (env_max_validators E x) (env_power_order E x) [] = Ok cm"
    "nearest th (VoteThreshold (or_params k) * env_bonded_power E x) one_dec"
    "best ((\<lambda>d. (d, ballot_for k cm d)) ` rated th k cm) ref w" "keys rs = rated th k cm"
    "\<forall>d\<in>rated th k cm. \<exists>r. map_of rs d = Some r \<and> rate_of S c k cm ref d r"
    "\<forall>a. go_get 0 ms a = go_get 0 (or_miss k) a + of_bool (misses S c k cm th ref a)"
    and k': "k' = ClearBallots c (VotePeriod (or_params k)) (k\<lparr>or_rates := rs, or_miss := ms\<rparr>)\<lparr>or_tobin := or_tobin k'\<rparr>"
    by (rule vote_period_store [OF S A w(1) st w(2) v]) (use n in blast)
  have f: "or_votes k' = []" "or_rates k' = rs" "or_miss k' = ms" "or_feeders k' = or_feeders k"
    "or_params k' = or_params k" by (subst k', simp add: ClearBallots_eq)+
  have "map_of (or_prevotes k') a = (case map_of (or_prevotes k) a of
         Some p \<Rightarrow> if live_prevote c (VotePeriod (or_params k)) p then Some p else None | None \<Rightarrow> None)" for a
    using map_of_prevotes_ClearBallots [of "k\<lparr>or_rates := rs, or_miss := ms\<rparr>"] w
    by (subst k') (simp add: oracle_wf_def)
  with r f show ?thesis unfolding GetMissCounter_def by blast
qed

definition silent_oracle :: oracle_state where
  "silent_oracle = sample_oracle\<lparr>or_prevotes := [(sample_val,
     \<lparr>pv_hash = [], pv_voter = val_bech32 sdk_ref sample_val, pv_block = 2\<rparr>)]\<rparr>"

definition late_ctx :: ctx where
  "late_ctx = \<lparr>ctx_height = 9, ctx_chain = ''t''\<rparr>"

lemma late_fork [simp]: "\<not> before_sort_fork late_ctx" "\<not> before_reward_fork late_ctx"
  by (simp_all add: before_sort_fork_def before_reward_fork_def late_ctx_def ColumbusChainID_def BombayChainID_def)

lemma sample_claims:
  "claim_loop S (env_validator sample_env x) (env_max_validators sample_env x) (env_power_order sample_env x) []
    = Ok [(val_bech32 S sample_val, NewClaim 1 0 0 sample_val)]"
  by (simp add: sample_env_def sample_validator_def)

lemma staking_law_sample_env: "staking_law S sample_env x"
  unfolding staking_law_def sample_claims
  by (simp add: sample_env_def sample_validator_def sample_val_def NewClaim_def)

lemma silent_oracle_inv: "oracle_inv sdk_ref silent_oracle"
proof -
  have "\<forall>i\<in>set (Whitelist oracle_DefaultParams). di_name i \<noteq> []"
    by (simp add: oracle_DefaultParams_def MicroKRWDenom_def MicroSDRDenom_def MicroUSDDenom_def Let_def)
  then show ?thesis
    by (simp add: oracle_inv_def oracle_wf_def silent_oracle_def sample_oracle_def empty_oracle_def sample_val_def)
qed

lemma sample_whitelist: "\<exists>s'. ApplyWhitelist sample_env wl T s = Ok s'"
proof -
  have "\<exists>t. forEach (whitelist_step sample_env) wl u = Ok t \<and> True" for u
    by (rule forEach_total [where P = "\<lambda>_. True"]) (simp_all add: whitelist_step_def sample_env_def)
  then have "\<exists>t. forEach (whitelist_step sample_env) wl (ClearTobinTaxes (fst s), snd s) = Ok t" by blast
  then show ?thesis
    unfolding ApplyWhitelist_def by (cases "whitelist_update_required wl T") (blast | simp only: if_True if_False)+
qed

lemma silent_vote_period:
  "\<exists>s'. vote_period_end sdk_ref sample_env late_ctx (silent_oracle, x) = Ok s'"
proof -
  have v: "OrganizeBallotByDenom silent_oracle cm = []" for cm
    by (simp add: OrganizeBallotByDenom_def silent_oracle_def sample_oracle_def empty_oracle_def kv_iter_def)
  have p: "\<exists>pk. PickReferenceTerra sdk_ref (VoteThreshold (or_params silent_oracle)) (env_bonded_power sample_env x) T [] = Ok pk
      \<and> pk_reference pk = []" for T
    by (simp add: PickReferenceTerra_def silent_oracle_def sample_oracle_def empty_oracle_def sample_env_def
        oracle_DefaultParams_def ref_eval)
  have r: "RewardBallotWinners sdk_ref sample_env late_ctx vp win T [(k, NewClaim 1 0 0 sample_val)] x = Ok x" for vp win T k
    by (simp add: RewardBallotWinners_def ballot_power_sum_def NewClaim_def in_i64_def Let_def)
  obtain pk where "PickReferenceTerra sdk_ref (VoteThreshold (or_params silent_oracle)) (env_bonded_power sample_env x)
      (fold (\<lambda>(d, t) m. go_put d t m) (IterateTobinTaxes silent_oracle) []) [] = Ok pk" "pk_reference pk = []"
    using p by blast
  then show ?thesis
    using sample_whitelist unfolding vote_period_end_def Let_def fst_conv snd_conv sample_claims andThen.simps(1)
      clear_rates_eq Organize_rates v tally_votes_def
    by (simp add: r)
qed

theorem vote_period_outcome_witness:
  "\<exists>k' x'. vote_period_end sdk_ref sample_env late_ctx (silent_oracle, (\<lambda>_. 0, [])) = Ok (k', x')
    \<and> or_votes k' = [] \<and> map_of (or_prevotes k') sample_val = None \<and> or_rates k' = [] \<and> GetMissCounter k' sample_val = 1"
proof -
  let ?x = "(\<lambda>_. 0, []) :: (denom \<Rightarrow> int) \<times> addr list"
  let ?cm = "[(val_bech32 sdk_ref sample_val, NewClaim 1 0 0 sample_val)]"
  obtain k' x' where v: "vote_period_end sdk_ref sample_env late_ctx (silent_oracle, ?x) = Ok (k', x')"
    using silent_vote_period [of ?x] by auto
  have n: "int (length (or_tobin silent_oracle)) < 2 ^ 63" by (simp add: silent_oracle_def sample_oracle_def)
  obtain th ref where r: "keys (or_rates k') = rated th silent_oracle ?cm" "or_votes k' = []"
    and p: "map_of (or_prevotes k') sample_val = (case map_of (or_prevotes silent_oracle) sample_val of
         Some p \<Rightarrow> if live_prevote late_ctx (VotePeriod (or_params silent_oracle)) p then Some p else None | None \<Rightarrow> None)"
    and m: "GetMissCounter k' sample_val = GetMissCounter silent_oracle sample_val
       + of_bool (misses sdk_ref late_ctx silent_oracle ?cm th ref sample_val)"
    using vote_period_outcome [OF dec_laws_sdk_ref addr_laws_sdk_ref silent_oracle_inv staking_law_sample_env n v]
    unfolding sample_claims outcome.inject by blast
  have nv: "votes_for ?cm (kv_iter (or_votes silent_oracle)) d = []" for d
    by (simp add: silent_oracle_def sample_oracle_def empty_oracle_def kv_iter_def votes_for_def)
  have e: "ballot_for silent_oracle ?cm d = []" for d unfolding ballot_for_def nv by (simp add: sort_ballot_def)
  have "rated th silent_oracle ?cm = {}" unfolding rated_def nv by (simp add: passing_def Power_def sort_ballot_def)
  moreover have "\<not> live_prevote late_ctx (VotePeriod (or_params silent_oracle)) (snd (hd (or_prevotes silent_oracle)))"
    by (simp add: live_prevote_def late_ctx_def silent_oracle_def sample_oracle_def empty_oracle_def
        oracle_DefaultParams_def BlocksPerMinute_def)
  moreover have "''uusd'' \<in> kept_targets th silent_oracle ?cm"
    unfolding kept_targets_def nv by (simp add: silent_oracle_def sample_oracle_def)
  then have "misses sdk_ref late_ctx silent_oracle ?cm th ref sample_val"
    unfolding misses_def wins_target_def wins_denom_def e
    by (auto simp: NewClaim_def tallied_ballot_def ToCrossRate_def ToCrossRateWithSort_def sort_ballot_def split: if_splits)
  moreover have "GetMissCounter silent_oracle sample_val = 0"
    by (simp add: GetMissCounter_def silent_oracle_def sample_oracle_def empty_oracle_def)
  ultimately show ?thesis using v r p m by (simp add: silent_oracle_def)
qed

text \<open>
  C31: the protocol goes through. A feeder that commits to the hash of its salt and rates, and
  reveals them in the following vote period while its validator is bonded and its rates are for vote
  targets, has its vote stored and its prevote removed. In between, other validators may send any
  messages and every block up to the reveal ends, the last block of the vote period included, which
  clears the votes and the prevotes that are a full period old.
\<close>

theorem commit_then_reveal:
  assumes A: "addr_laws S" and len: "length v = 20" "length f = 20" and g: "go_map (or_prevotes k)"
    and val: "env_validator E x v = Some w" "val_bonded w" and fd: "f = v \<or> GetFeederDelegation k v = f"
    and p: "p = uint (VotePeriod (or_params k))" "0 < p"
    and h: "0 \<le> ctx_height c" "ctx_height c + p < 2 ^ 63" "ctx_height c' < 2 ^ 63"
      "ctx_height c' div p = ctx_height c div p + 1"
    and ts: "ParseExchangeRateTuples S rates = Ok ts"
  shows "\<exists>k1. AggregateExchangeRatePrevote S (env_validator E x) c
        \<lparr>mp_hash = hex_encode (GetAggregateVoteHash S H salt rates v), mp_feeder = acc_bech32 S f,
         mp_validator = val_bech32 S v\<rparr> k = Ok k1
    \<and> (\<forall>k2 x2 w2. oracle_meanwhile S E H v (ctx_height c) (ctx_height c') (k1, x) (k2, x2)
        \<and> env_validator E x2 v = Some w2 \<and> val_bonded w2 \<and> t_denom ` set ts \<subseteq> keys (or_tobin k2) \<longrightarrow>
        (\<exists>k3. AggregateExchangeRateVote S (env_validator E x2) H c'
            \<lparr>mv_salt = salt, mv_rates = rates, mv_feeder = acc_bech32 S f, mv_validator = val_bech32 S v\<rparr> k2 = Ok k3
          \<and> map_of (or_votes k3) v = Some \<lparr>av_tuples = ts, av_voter = val_bech32 S v\<rparr>
          \<and> map_of (or_prevotes k3) v = None))"
proof -
  let ?P = "VotePeriod (or_params k)" and ?h = "GetAggregateVoteHash S H salt rates v"
  let ?pv = "\<lparr>pv_hash = hex_encode ?h, pv_voter = val_bech32 S v, pv_block = word_of_int (ctx_height c)\<rparr>"
  let ?k1 = "k\<lparr>or_prevotes := go_put v ?pv (or_prevotes k)\<rparr>"
  let ?m = "\<lparr>mv_salt = salt, mv_rates = rates, mv_feeder = acc_bech32 S f, mv_validator = val_bech32 S v\<rparr>"
  have adr: "val_of_bech32 S (val_bech32 S v) = Ok v" "acc_of_bech32 S (acc_bech32 S f) = Ok f"
    using A len by (simp_all add: addr_laws_def)
  have "ValidateFeeder (env_validator E x) k f v = Ok ()" using val fd by (simp add: ValidateFeeder_Ok)
  then have one: "AggregateExchangeRatePrevote S (env_validator E x) c
        \<lparr>mp_hash = hex_encode ?h, mp_feeder = acc_bech32 S f, mp_validator = val_bech32 S v\<rparr> k = Ok ?k1"
    using adr by (simp add: Prevote_Ok_iff hex_roundtrip)
  have dv: "(word_of_int y :: u64) div ?P = word_of_int (y div p)" if "0 \<le> y" "y < 2 ^ 63" for y
  proof -
    have "uint (word_of_int y :: u64) = y" using that by (simp add: uint_word_of_int)
    then have "uint ((word_of_int y :: u64) div ?P) = y div p" using p(1) by (simp add: uint_div)
    then show ?thesis by (metis word_of_int_uint)
  qed
  have "0 \<le> ctx_height c div p" using h(1) p(2) by (simp add: pos_imp_zdiv_nonneg_iff)
  then have "0 \<le> ctx_height c'" using h(4) p(2) pos_imp_zdiv_nonneg_iff [of p "ctx_height c'"] by linarith
  then have per: "word_of_int (ctx_height c') div ?P = word_of_int (ctx_height c) div ?P + (1::u64)"
    using dv h p(2) by simp
  have c1: "committed v ?pv (or_params k) f ?k1" using fd g by (simp add: committed_def GetFeederDelegation_def)
  have "\<exists>k3. AggregateExchangeRateVote S (env_validator E x2) H c' ?m k2 = Ok k3
          \<and> map_of (or_votes k3) v = Some \<lparr>av_tuples = ts, av_voter = val_bech32 S v\<rparr>
          \<and> map_of (or_prevotes k3) v = None"
    if m: "oracle_meanwhile S E H v (ctx_height c) (ctx_height c') (?k1, x) (k2, x2)"
      and b: "env_validator E x2 v = Some w2" "val_bonded w2" "t_denom ` set ts \<subseteq> keys (or_tobin k2)" for k2 x2 w2
  proof -
    have "committed v ?pv (or_params k) f k2"
      using meanwhile_committed [OF m, of ?pv "or_params k" f] c1 next_period_live [OF p h(1,2,3,4)] by simp
    moreover have "?P \<noteq> 0" using p by auto
    ultimately have "reveal_ok S (env_validator E x2) H c' ?m k2 v ts"
      using adr b ts per by (auto simp: reveal_ok_def committed_def ValidateFeeder_Ok)
    then show ?thesis by (intro exI conjI) (auto simp: Vote_Ok_iff)
  qed
  with one show ?thesis by blast
qed

lemma quiet_vote_period:
  assumes "or_votes k = []" "or_params k = oracle_DefaultParams"
  shows "\<exists>s'. vote_period_end rates_sdk sample_env late_ctx (k, x) = Ok s'"
proof -
  have v: "OrganizeBallotByDenom k cm = []" for cm
    using assms(1) by (simp add: OrganizeBallotByDenom_def kv_iter_def)
  have p: "\<exists>pk. PickReferenceTerra rates_sdk (VoteThreshold (or_params k)) (env_bonded_power sample_env x) T [] = Ok pk
      \<and> pk_reference pk = []" for T
    by (simp add: PickReferenceTerra_def assms(2) sample_env_def rates_sdk_def oracle_DefaultParams_def ref_eval)
  have r: "RewardBallotWinners rates_sdk sample_env late_ctx vp win T [(k, NewClaim 1 0 0 sample_val)] x = Ok x" for vp win T k
    by (simp add: RewardBallotWinners_def ballot_power_sum_def NewClaim_def in_i64_def Let_def)
  obtain pk where "PickReferenceTerra rates_sdk (VoteThreshold (or_params k)) (env_bonded_power sample_env x)
      (fold (\<lambda>(d, t) m. go_put d t m) (IterateTobinTaxes k) []) [] = Ok pk" "pk_reference pk = []"
    using p by blast
  then show ?thesis
    using sample_whitelist unfolding vote_period_end_def Let_def fst_conv snd_conv sample_claims andThen.simps(1)
      clear_rates_eq Organize_rates v tally_votes_def
    by (simp add: r)
qed

lemma quiet_end_block:
  assumes "or_votes k = []" "or_params k = oracle_DefaultParams" "''uusd'' \<in> keys (or_tobin k)"
  shows "\<exists>k' x'. oracle_EndBlocker rates_sdk sample_env late_ctx (k, x) = Ok (k', x') \<and> ''uusd'' \<in> keys (or_tobin k')"
proof -
  obtain k' x' where v: "vote_period_end rates_sdk sample_env late_ctx (k, x) = Ok (k', x')"
    using quiet_vote_period [OF assms(1,2), of x] by auto
  have u: "''uusd'' \<in> keys (whitelist_map (Whitelist oracle_DefaultParams))"
    unfolding whitelist_map_keys by (simp add: oracle_DefaultParams_def MicroUSDDenom_def Let_def)
  have "''uusd'' \<in> keys (or_tobin k')" using vote_period_tobin [OF v] u assms(2,3) by auto
  moreover have "oracle_EndBlocker rates_sdk sample_env late_ctx (k, x) = Ok (k', x')"
    using v by (simp add: oracle_EndBlocker_def IsPeriodLastBlock_def late_ctx_def assms(2) oracle_DefaultParams_def blocks_defs)
  ultimately show ?thesis by blast
qed

theorem commit_then_reveal_witness:
  "\<exists>k1 k2 x2 k3. AggregateExchangeRatePrevote rates_sdk (env_validator sample_env (\<lambda>_. 0, []))
        \<lparr>ctx_height = 7, ctx_chain = ''t''\<rparr>
        \<lparr>mp_hash = hex_encode (GetAggregateVoteHash rates_sdk rev ''x'' ''7uusd'' sample_val),
         mp_feeder = acc_bech32 rates_sdk sample_val, mp_validator = val_bech32 rates_sdk sample_val\<rparr>
        sample_oracle = Ok k1
    \<and> oracle_EndBlocker rates_sdk sample_env late_ctx (k1, (\<lambda>_. 0, [])) = Ok (k2, x2)
    \<and> AggregateExchangeRateVote rates_sdk (env_validator sample_env x2) rev \<lparr>ctx_height = 10, ctx_chain = ''t''\<rparr>
        \<lparr>mv_salt = ''x'', mv_rates = ''7uusd'', mv_feeder = acc_bech32 rates_sdk sample_val,
         mv_validator = val_bech32 rates_sdk sample_val\<rparr> k2 = Ok k3
    \<and> map_of (or_votes k3) sample_val
        = Some \<lparr>av_tuples = [\<lparr>t_denom = ''uusd'', t_rate = 7 * one_dec\<rparr>], av_voter = val_bech32 rates_sdk sample_val\<rparr>
    \<and> map_of (or_prevotes k3) sample_val = None"
proof -
  let ?x = "(\<lambda>_. 0, []) :: (denom \<Rightarrow> int) \<times> addr list"
  let ?c = "\<lparr>ctx_height = 7, ctx_chain = ''t''\<rparr>" and ?c' = "\<lparr>ctx_height = 10, ctx_chain = ''t''\<rparr>"
  let ?ts = "[\<lparr>t_denom = ''uusd'', t_rate = 7 * one_dec\<rparr>]"
  have p: "5 = uint (VotePeriod (or_params sample_oracle))"
    by (simp add: sample_oracle_def empty_oracle_def oracle_DefaultParams_def BlocksPerMinute_def uint_div)
  have ts: "ParseExchangeRateTuples rates_sdk ''7uusd'' = Ok ?ts"
    by (simp add: ParseExchangeRateTuples_def parse_step_def rates_sdk_def trim_space_def is_space_def)
  have val: "env_validator sample_env y sample_val = Some (sample_validator\<lparr>val_jailed := sample_val \<in> set (snd y)\<rparr>)"
    "val_bonded (sample_validator\<lparr>val_jailed := b\<rparr>)" for y b
    by (simp_all add: sample_env_def sample_validator_def)
  have l: "length sample_val = 20" by (simp add: sample_val_def)
  note th = commit_then_reveal [where E = sample_env and x = ?x and k = sample_oracle and p = 5 and c = ?c and c' = ?c'
      and H = rev and salt = "''x''", OF addr_laws_rates_sdk l l _ val(1) val(2) _ p _ _ _ _ _ ts]
  obtain k1 where k1: "AggregateExchangeRatePrevote rates_sdk (env_validator sample_env ?x) ?c
        \<lparr>mp_hash = hex_encode (GetAggregateVoteHash rates_sdk rev ''x'' ''7uusd'' sample_val),
         mp_feeder = acc_bech32 rates_sdk sample_val, mp_validator = val_bech32 rates_sdk sample_val\<rparr>
        sample_oracle = Ok k1"
    and reveal: "\<And>k2 x2 w2. oracle_meanwhile rates_sdk sample_env rev sample_val 7 10 (k1, ?x) (k2, x2) \<Longrightarrow>
        env_validator sample_env x2 sample_val = Some w2 \<Longrightarrow> val_bonded w2 \<Longrightarrow> t_denom ` set ?ts \<subseteq> keys (or_tobin k2) \<Longrightarrow>
        \<exists>k3. AggregateExchangeRateVote rates_sdk (env_validator sample_env x2) rev ?c'
            \<lparr>mv_salt = ''x'', mv_rates = ''7uusd'', mv_feeder = acc_bech32 rates_sdk sample_val,
             mv_validator = val_bech32 rates_sdk sample_val\<rparr> k2 = Ok k3
          \<and> map_of (or_votes k3) sample_val = Some \<lparr>av_tuples = ?ts, av_voter = val_bech32 rates_sdk sample_val\<rparr>
          \<and> map_of (or_prevotes k3) sample_val = None"
    using th by (auto simp: sample_oracle_def empty_oracle_def)
  have "or_votes k1 = []" "or_params k1 = oracle_DefaultParams" "''uusd'' \<in> keys (or_tobin k1)"
    using k1 by (auto simp: Prevote_Ok_iff sample_oracle_def empty_oracle_def)
  from quiet_end_block [OF this, of ?x] obtain k2 x2 where
    k2: "oracle_EndBlocker rates_sdk sample_env late_ctx (k1, ?x) = Ok (k2, x2)" "''uusd'' \<in> keys (or_tobin k2)" by blast
  have m: "oracle_meanwhile rates_sdk sample_env rev sample_val 7 10 (k1, ?x) (k2, x2)"
    by (rule oracle_meanwhile.block [OF oracle_meanwhile.nothing _ _ k2(1)]) (simp_all add: late_ctx_def)
  have "t_denom ` set ?ts \<subseteq> keys (or_tobin k2)" using k2(2) by simp
  note r = reveal [OF m val(1) val(2) this]
  show ?thesis
    by (rule exI [of _ k1], rule exI [of _ k2], rule exI [of _ x2]) (use r in \<open>simp only: k1 k2 simp_thms\<close>)
qed

text \<open>
  C22: slashing is exact. At the end of a slash window every miss counter is removed, and exactly the
  operators whose share of valid votes, out of the vote periods of a window, is below the minimum
  are slashed and jailed, in address order and once each, if they are bonded and not jailed yet.
  Nothing else in the module's store changes.
\<close>

theorem slash_exact:
  assumes S: "dec_laws S" and p: "0 < uint (VotePeriod (or_params k))" "uint (VotePeriod (or_params k)) < 2 ^ 63"
      "uint (SlashWindow (or_params k)) < 2 ^ 63" "0 < MinValidPerWindow (or_params k)"
    and m: "\<forall>q\<in>set (or_miss k). uint (snd q) < 2 ^ 63"
    and s: "SlashAndResetMissCounters S E c (k, x) = Ok (k', x')"
  shows "k' = k\<lparr>or_miss := []\<rparr> \<and>
    x' = fold (punish E (i64 (ctx_height c - 2)) (SlashFraction (or_params k)))
      (map fst (filter (\<lambda>q. below_minimum (uint (SlashWindow (or_params k)) div uint (VotePeriod (or_params k)))
         (MinValidPerWindow (or_params k)) (snd q)) (kv_iter (or_miss k)))) x"
proof -
  let ?W = "SlashWindow (or_params k) div VotePeriod (or_params k)"
  have W: "uint ?W = uint (SlashWindow (or_params k)) div uint (VotePeriod (or_params k))" by (rule uint_div)
  have "uint ?W < 2 ^ 63"
    using p zdiv_mono2 [of "uint (SlashWindow (or_params k))" 1 "uint (VotePeriod (or_params k))"]
    by (simp add: W)
  moreover from s have "forEach (slash_step S E (i64 (ctx_height c - 2)) ?W (MinValidPerWindow (or_params k))
      (SlashFraction (or_params k))) (kv_iter (or_miss k)) (k, x) = Ok (k', x')"
    by (simp add: SlashAndResetMissCounters_def vote_periods_per_window_Ok [OF S p(1-3)] Let_def)
  ultimately have "k' = k\<lparr>or_miss := fold go_del (map fst (kv_iter (or_miss k))) (or_miss k)\<rparr> \<and>
    x' = fold (punish E (i64 (ctx_height c - 2)) (SlashFraction (or_params k)))
      (map fst (filter (\<lambda>q. below_minimum (uint ?W) (MinValidPerWindow (or_params k)) (snd q)) (kv_iter (or_miss k)))) x"
    using m p(4) by (intro slash_loop [OF S]) simp_all
  moreover have "fold go_del (map fst (kv_iter (or_miss k))) (or_miss k) = []" by (rule fold_del_all) simp
  ultimately show ?thesis by (simp add: W)
qed

definition missing_oracle :: oracle_state where
  "missing_oracle = sample_oracle\<lparr>or_miss := [(sample_val, 19999)],
     or_params := oracle_DefaultParams\<lparr>VotePeriod := 5, SlashWindow := 100000\<rparr>\<rparr>"

theorem slash_exact_witness:
  "\<exists>k' x'. SlashAndResetMissCounters sdk_ref sample_env late_ctx (missing_oracle, (\<lambda>_. 0, [])) = Ok (k', x')
    \<and> or_miss k' = [] \<and> snd x' = [sample_val]"
proof -
  let ?x = "(\<lambda>_. 0, []) :: (denom \<Rightarrow> int) \<times> addr list" and ?P = "or_params missing_oracle"
  have par: "VotePeriod ?P = 5" "SlashWindow ?P = 100000" "MinValidPerWindow ?P = 5 * 10 ^ 16"
    "or_miss missing_oracle = [(sample_val, 19999)]"
    by (simp_all add: missing_oracle_def oracle_DefaultParams_def Let_def)
  have v: "vote_periods_per_window sdk_ref ?P = Ok (100000 div 5)"
    using vote_periods_per_window_Ok [of sdk_ref ?P] by (simp add: par)
  have u: "uint (100000 div 5 :: u64) = 20000" by (simp add: uint_div)
  then have w: "(100000 div 5 :: u64) = 20000" by (simp add: word_uint_eq_iff)
  have "\<exists>k' x'. SlashAndResetMissCounters sdk_ref sample_env late_ctx (missing_oracle, ?x) = Ok (k', x')"
    by (simp add: SlashAndResetMissCounters_def v w par kv_iter_def slash_step_def sample_env_def Let_def
        dec_exact [OF dec_laws_sdk_ref])
  then obtain k' x' where s: "SlashAndResetMissCounters sdk_ref sample_env late_ctx (missing_oracle, ?x) = Ok (k', x')"
    by blast
  have b: "below_minimum 20000 (5 * 10 ^ 16) 19999" by (simp add: below_minimum_def one_dec_def)
  have "k' = missing_oracle\<lparr>or_miss := []\<rparr> \<and> x' = fold (punish sample_env (i64 (ctx_height late_ctx - 2)) (SlashFraction ?P))
      (map fst (filter (\<lambda>q. below_minimum (uint (SlashWindow ?P) div uint (VotePeriod ?P))
         (MinValidPerWindow ?P) (snd q)) (kv_iter (or_miss missing_oracle)))) ?x"
    by (rule slash_exact [OF dec_laws_sdk_ref _ _ _ _ _ s]) (simp_all add: par)
  then have "or_miss k' = []" "x' = punish sample_env (i64 (ctx_height late_ctx - 2)) (SlashFraction ?P) sample_val ?x"
    using b by (simp_all add: par kv_iter_def)
  with s show ?thesis
    by (simp add: punish_def sample_env_def sample_validator_def)
qed

text \<open>
  C20: every state the module reaches from a well-formed one, by any interleaving of messages, block
  ends and steps of the other modules, keeps the store well-formed: one entry per key, addresses of
  the right length, voters recorded under their own address, one rate per denom in a vote, votes
  for current targets only, named targets. The parameters never change on the way.
\<close>

theorem oracle_reachable_inv:
  assumes "dec_laws S" "addr_laws S" "\<And>x. staking_law S E x" "oracle_inv S k"
    and "oracle_reach S E H (k, x) (k', x')"
  shows "oracle_inv S k' \<and> or_params k' = or_params k"
  using oracle_reach_inv [OF assms(1-3), of "(k, x)" H "(k', x')"] assms(4,5) by simp

theorem oracle_reachable_inv_witness:
  "\<exists>s. oracle_reach sdk_ref sample_env rev (silent_oracle, (\<lambda>_. 0, [])) s \<and> oracle_inv sdk_ref (fst s)
    \<and> s \<noteq> (silent_oracle, (\<lambda>_. 0, []))"
proof -
  let ?x = "(\<lambda>_. 0, []) :: (denom \<Rightarrow> int) \<times> addr list"
  let ?k = "silent_oracle\<lparr>or_feeders := go_put sample_val sample_val (or_feeders silent_oracle)\<rparr>"
  have "oracle_handler sdk_ref (env_validator sample_env ?x) rev late_ctx (MsgDelegateFeedConsent
      \<lparr>md_operator = val_bech32 sdk_ref sample_val, md_delegate = acc_bech32 sdk_ref sample_val\<rparr>) silent_oracle = Ok ?k"
    by (simp add: Delegate_Ok_iff sample_val_def sample_env_def)
  then have r: "oracle_reach sdk_ref sample_env rev (silent_oracle, ?x) (?k, ?x)"
    by (rule oracle_reach.msg [OF oracle_reach.start])
  from oracle_reachable_inv [OF dec_laws_sdk_ref addr_laws_sdk_ref staking_law_sample_env silent_oracle_inv r]
  have "oracle_inv sdk_ref ?k" by simp
  moreover have "?k \<noteq> silent_oracle"
    by (auto dest: arg_cong [of _ _ or_feeders] simp: silent_oracle_def sample_oracle_def empty_oracle_def)
  ultimately show ?thesis using r by (intro exI [of _ "(?k, ?x)"]) simp
qed

text \<open>
  the vote targets follow the whitelist. When no target was dropped during the tally, after the
  update the Tobin taxes are exactly those of the whitelist, whether or not the code found that an
  update is required.
\<close>

theorem whitelist_applied:
  assumes "ApplyWhitelist E wl T (k, x) = Ok (k', x')"
    and "distinct (map di_name wl)" "go_map T" "map_of T = map_of (or_tobin k)"
  shows "map_of (or_tobin k') = map_of (map (\<lambda>i. (di_name i, di_tobin i)) wl)"
  using ApplyWhitelist_Ok [OF assms(1)] map_of_whitelist_map [OF assms(2)]
    whitelist_unchanged [OF assms(2,3)] assms(4)
  by (cases "whitelist_update_required wl T") simp_all

theorem whitelist_applied_witness:
  "\<exists>k' x'. ApplyWhitelist sample_env [\<lparr>di_name = ''ukrw'', di_tobin = 3\<rparr>] [(''uusd'', 0)]
      (sample_oracle, (\<lambda>_. 0, [])) = Ok (k', x') \<and> map_of (or_tobin k') = [''ukrw'' \<mapsto> 3]"
proof -
  let ?wl = "[\<lparr>di_name = ''ukrw'', di_tobin = 3\<rparr>]"
  obtain k' x' where a: "ApplyWhitelist sample_env ?wl [(''uusd'', 0)] (sample_oracle, (\<lambda>_. 0, [])) = Ok (k', x')"
    using sample_whitelist [of ?wl] by (metis surj_pair)
  have "map_of (or_tobin k') = map_of (map (\<lambda>i. (di_name i, di_tobin i)) ?wl)"
    by (rule whitelist_applied [OF a]) (simp_all add: sample_oracle_def)
  with a show ?thesis by simp
qed

text \<open>
  The other case: the update check compares the whitelist with the targets that are left after the
  tally. A denom that was taken off the whitelist and whose ballot fails in the same period is not
  among them, so the check sees no difference and the denom stays a vote target.
\<close>

lemma dropped_target_stays:
  assumes "go_map (or_tobin k)" "d \<in> keys (or_tobin k)" "distinct (map di_name wl)"
    and "map_of (map (\<lambda>i. (di_name i, di_tobin i)) wl) = (map_of (or_tobin k))(d := None)"
  shows "ApplyWhitelist E wl (go_del d (or_tobin k)) (k, x) = Ok (k, x)"
proof -
  let ?w = "map (\<lambda>i. (di_name i, di_tobin i)) wl" and ?T = "go_del d (or_tobin k)"
  have e: "map_of ?T = map_of ?w" using assms(4) by simp
  have g: "go_map ?T" "go_map ?w" using assms(1,3) by (simp_all add: comp_def)
  then have "set ?T = set ?w" using e map_of_inject_set by blast
  then have "length ?T = length ?w" using g by (metis distinct_card distinct_map)
  moreover have "map_of ?T (di_name i) = Some (di_tobin i)" if "i \<in> set wl" for i
    unfolding e using that g(2) by (intro map_of_is_SomeI) auto
  ultimately have "\<not> whitelist_update_required wl ?T"
    unfolding whitelist_update_required_def by (simp add: Bex_set [symmetric])
  then show ?thesis by (simp add: ApplyWhitelist_def)
qed


section \<open>Ballots without common voters\<close>

lemma forEach_not_Ok:
  assumes "x \<in> set xs" "\<And>u v. f x u \<noteq> Ok v" shows "forEach f xs s \<noteq> Ok t"
  using assms by (induction xs arbitrary: s) auto

lemma zero_ballot_median:
  assumes "\<forall>v\<in>set pb. v_power v = 0 \<and> v_rate v = 0" "fork_median c pb = Ok m"
  shows "m = 0"
proof -
  have p: "Power pb = 0"
    unfolding Power_def using assms(1) by (induction pb) (simp_all add: i64_def)
  have "median_loop 0 0 pb = 0"
    using assms(1) by (cases pb) (simp_all add: i64_def)
  with p assms(2) show ?thesis
    by (auto simp: fork_median_def WeightedMedian_def WeightedMedianWithAssertion_def split: if_splits)
qed

lemma crossed_disjoint:
  "list_all2 (crossed S m) pb ws \<Longrightarrow> \<forall>v\<in>set pb. v_voter v \<notin> keys m \<Longrightarrow>
    \<forall>v\<in>set ws. v_power v = 0 \<and> v_rate v = 0"
proof (induction rule: list_all2_induct)
  case (Cons v pb w ws)
  then have "map_of m (v_voter v) = None" by (simp add: map_of_eq_None_iff)
  with Cons show ?case by (simp add: crossed_def)
qed simp

lemma tally_step_disjoint:
  assumes S: "dec_laws S" and d: "fst p \<noteq> ref" and v: "\<forall>v\<in>set (snd p). v_voter v \<notin> keys m"
  shows "tally_step S c band ref m xr p s \<noteq> Ok s'"
proof
  assume t: "tally_step S c band ref m xr p s = Ok s'"
  from t d obtain pb r cm q where
    pb: "(if before_sort_fork c then ToCrossRate S m (snd p) else ToCrossRateWithSort S m (snd p)) = Ok pb"
    and ta: "Tally S c pb band (fst s) = Ok (r, cm)" and q: "dec_quo S xr r = Ok q"
    unfolding tally_step_def Let_def andThen_Ok_iff by (auto split: prod.splits)
  have z: "\<forall>v\<in>set pb. v_power v = 0 \<and> v_rate v = 0"
  proof (cases "before_sort_fork c")
    case True
    with pb ToCrossRate_Ok [of S m "snd p" pb] crossed_disjoint v show ?thesis by simp
  next
    case False
    with pb have "ToCrossRateWithSort S m (snd p) = Ok pb" by simp
    then obtain ws where "list_all2 (crossed S m) (snd p) ws" "pb = sort_ballot ws"
      by (rule ToCrossRateWithSort_Ok)
    with crossed_disjoint [of S m "snd p" ws] v show ?thesis by simp
  qed
  obtain sp where "fork_median c pb = Ok r" by (rule Tally_Ok [OF S ta])
  with z have "r = 0" by (rule zero_ballot_median)
  with q dec_quo_zero [OF S] show False by simp
qed

text \<open>No step of the tally returns an error, so what is not a result is a panic.\<close>

lemma cross_no_Err:
  assumes "dec_laws S" shows "ToCrossRate S m pb \<noteq> Err e" "ToCrossRateWithSort S m pb \<noteq> Err e"
proof -
  have "cross_vote S m v \<noteq> Err e" for v e
    using dec_no_Err [OF assms] by (auto simp: cross_vote_def andThen_Err_iff split: option.splits if_splits)
  then have "forEach (\<lambda>vote cb. andThen (cross_vote S m vote) (\<lambda>v. Ok (cb @ [v]))) pb [] \<noteq> Err e" for e
    by (intro forEach_no_Err) (simp add: andThen_Err_iff)
  then show "ToCrossRate S m pb \<noteq> Err e" "ToCrossRateWithSort S m pb \<noteq> Err e"
    by (simp_all add: ToCrossRate_def ToCrossRateWithSort_def andThen_Err_iff)
qed

lemma chk_dec_no_Err:
  assumes "dec_laws S" shows "dec_add S a b \<noteq> Err e" "dec_sub S a b \<noteq> Err e" "dec_quo_int S a n \<noteq> Err e"
  by (simp_all add: dec_exact [OF assms])

lemma Tally_no_Err:
  assumes S: "dec_laws S" shows "Tally S c pb band cm \<noteq> Err e"
proof -
  have "is_winner S m sp v \<noteq> Err e" for m sp v e
    by (auto simp: is_winner_def andThen_Err_iff chk_dec_no_Err [OF S] split: if_splits)
  then have "forEach (\<lambda>vote m. andThen (is_winner S md sp vote) (\<lambda>w. Ok (if w then add_win S vote m else m))) pb cm \<noteq> Err e"
    for md sp e by (intro forEach_no_Err) (simp add: andThen_Err_iff)
  then show ?thesis
    by (simp add: Tally_def andThen_Err_iff fork_median_def WeightedMedianWithAssertion_def chk_dec_no_Err [OF S]
        dec_no_Err [OF S] Let_def)
qed

lemma tally_step_no_Err:
  assumes S: "dec_laws S" shows "tally_step S c band ref m xr p s \<noteq> Err e"
  by (auto simp: tally_step_def andThen_Err_iff Tally_no_Err [OF S] cross_no_Err [OF S] dec_no_Err [OF S] Let_def
      split: prod.splits if_splits)

text \<open>
  C33: two passing ballots without a common voter stop the chain. When a ballot other than the
  reference one has no voter with a reference rate, all its cross rates are zero, its median is
  zero, and turning it back into a rate divides by zero: the tally panics, whatever the other
  ballots hold.
\<close>

theorem disjoint_ballots_halt:
  assumes S: "dec_laws S" and r: "pk_reference pk \<noteq> []" and p: "(d, pb) \<in> set (pk_votes pk)" "d \<noteq> pk_reference pk"
    and v: "\<forall>v\<in>set pb. v_voter v \<notin> keys (ToMap (go_get [] (pk_votes pk) (pk_reference pk)))"
  shows "tally_votes S c band pk cm k = Panic"
proof -
  let ?rt = "go_get [] (pk_votes pk) (pk_reference pk)"
  have "forEach (tally_step S c band (pk_reference pk) (ToMap ?rt) xr) (pk_votes pk) (cm, k) = Panic" for xr
  proof -
    have "forEach (tally_step S c band (pk_reference pk) (ToMap ?rt) xr) (pk_votes pk) (cm, k) \<noteq> Ok t" for t
      using tally_step_disjoint [OF S, of "(d, pb)"] p(2) v by (intro forEach_not_Ok [OF p(1)]) simp
    moreover have "forEach (tally_step S c band (pk_reference pk) (ToMap ?rt) xr) (pk_votes pk) (cm, k) \<noteq> Err e" for e
      by (intro forEach_no_Err tally_step_no_Err [OF S])
    ultimately show ?thesis by (metis outcome.exhaust)
  qed
  with r show ?thesis
    by (auto simp: tally_votes_def andThen_Panic_iff fork_median_def WeightedMedianWithAssertion_def Let_def)
qed

theorem disjoint_ballots_halt_witness:
  "\<exists>pk. PickReferenceTerra sdk_ref (50 * 10 ^ 16) 100 [(''uusd'', 0), (''ukrw'', 0)]
      [(''ukrw'', [vote_at 5 ''a'' 50]), (''uusd'', [vote_at 5 ''b'' 50])] = Ok pk
    \<and> tally_votes sdk_ref late_ctx (2 * 10 ^ 16) pk [] sample_oracle = Panic"
proof -
  let ?V = "[(''ukrw'', [vote_at 5 ''a'' 50]), (''uusd'', [vote_at 5 ''b'' 50])]"
  let ?pk = "\<lparr>pk_targets = [(''uusd'', 0), (''ukrw'', 0)], pk_votes = ?V, pk_largest = 50, pk_reference = ''ukrw''\<rparr>"
  have pw: "Power [vote_at 5 a 50] = 50" for a by (simp add: Power_def vote_at_simps in_i64_def)
  have "PickReferenceTerra sdk_ref (50 * 10 ^ 16) 100 [(''uusd'', 0), (''ukrw'', 0)] ?V = Ok ?pk"
    by (simp add: PickReferenceTerra_def pick_step_def ballotIsPassing_def pw ref_eval less_char_def)
  moreover have "tally_votes sdk_ref late_ctx (2 * 10 ^ 16) ?pk [] sample_oracle = Panic"
    by (rule disjoint_ballots_halt [OF dec_laws_sdk_ref, of ?pk "''uusd''" "[vote_at 5 ''b'' 50]"])
      (simp_all add: go_get_Cons ToMap_def vote_at_simps)
  ultimately show ?thesis by blast
qed

end
