(* ===== verification/Bank.thy ===== *)
theory Bank
  imports SdkRef
begin

text \<open>
  The bank keeper that the market, the treasury and the fee handling call is code of the SDK: it is
  the record \<open>bank\<close> of functions on an unspecified state, with the documented effect of each call as
  the predicate \<open>bank_laws\<close>. \<open>bank_ref\<close> is a concrete bank that satisfies them.
\<close>

datatype holder = Acc addr | Mod string

record 'b bank =
  bk_balance :: "'b \<Rightarrow> holder \<Rightarrow> denom \<Rightarrow> int"
  bk_all_balances :: "'b \<Rightarrow> holder \<Rightarrow> coins"
  bk_supply :: "'b \<Rightarrow> denom \<Rightarrow> int"
  bk_send :: "holder \<Rightarrow> holder \<Rightarrow> coins \<Rightarrow> 'b \<Rightarrow> 'b outcome"
  bk_mint :: "string \<Rightarrow> coins \<Rightarrow> 'b \<Rightarrow> 'b outcome"
  bk_burn :: "string \<Rightarrow> coins \<Rightarrow> 'b \<Rightarrow> 'b outcome"

text \<open>What a holder gains: the coins, if it is the one meant.\<close>

definition at :: "holder \<Rightarrow> holder \<Rightarrow> coins \<Rightarrow> denom \<Rightarrow> int" where
  "at h h' cs d = (if h = h' then amt cs d else 0)"

definition send_law :: "'b bank \<Rightarrow> bool" where
  "send_law B \<longleftrightarrow> (\<forall>f t cs b b'. coins_wf cs \<longrightarrow> bk_send B f t cs b = Ok b' \<longrightarrow>
     (\<forall>d. amt cs d \<le> bk_balance B b f d)
     \<and> (\<forall>h d. bk_balance B b' h d = bk_balance B b h d - at h f cs d + at h t cs d)
     \<and> (\<forall>d. bk_supply B b' d = bk_supply B b d))"

definition mint_law :: "'b bank \<Rightarrow> bool" where
  "mint_law B \<longleftrightarrow> (\<forall>m cs b b'. coins_wf cs \<longrightarrow> bk_mint B m cs b = Ok b' \<longrightarrow>
     (\<forall>h d. bk_balance B b' h d = bk_balance B b h d + at h (Mod m) cs d)
     \<and> (\<forall>d. bk_supply B b' d = bk_supply B b d + amt cs d))"

definition burn_law :: "'b bank \<Rightarrow> bool" where
  "burn_law B \<longleftrightarrow> (\<forall>m cs b b'. coins_wf cs \<longrightarrow> bk_burn B m cs b = Ok b' \<longrightarrow>
     (\<forall>d. amt cs d \<le> bk_balance B b (Mod m) d)
     \<and> (\<forall>h d. bk_balance B b' h d = bk_balance B b h d - at h (Mod m) cs d)
     \<and> (\<forall>d. bk_supply B b' d = bk_supply B b d - amt cs d))"

definition balances_law :: "'b bank \<Rightarrow> bool" where
  "balances_law B \<longleftrightarrow> (\<forall>b h. coins_wf (bk_all_balances B b h)
     \<and> (\<forall>d. amt (bk_all_balances B b h) d = bk_balance B b h d))"

definition bank_laws :: "'b bank \<Rightarrow> bool" where
  "bank_laws B \<longleftrightarrow> send_law B \<and> mint_law B \<and> burn_law B \<and> balances_law B"

lemma bank_sendD:
  assumes "bank_laws B" "coins_wf cs" "bk_send B f t cs b = Ok b'"
  shows "amt cs d \<le> bk_balance B b f d"
    "bk_balance B b' h d = bk_balance B b h d - at h f cs d + at h t cs d"
    "bk_supply B b' d = bk_supply B b d"
proof -
  have "\<forall>f t cs b b'. coins_wf cs \<longrightarrow> bk_send B f t cs b = Ok b' \<longrightarrow>
     (\<forall>d. amt cs d \<le> bk_balance B b f d)
     \<and> (\<forall>h d. bk_balance B b' h d = bk_balance B b h d - at h f cs d + at h t cs d)
     \<and> (\<forall>d. bk_supply B b' d = bk_supply B b d)"
    using assms(1) unfolding bank_laws_def send_law_def by blast
  from this [rule_format, OF assms(2,3)] show "amt cs d \<le> bk_balance B b f d"
    "bk_balance B b' h d = bk_balance B b h d - at h f cs d + at h t cs d"
    "bk_supply B b' d = bk_supply B b d" by blast+
qed

lemma bank_mintD:
  assumes "bank_laws B" "coins_wf cs" "bk_mint B m cs b = Ok b'"
  shows "bk_balance B b' h d = bk_balance B b h d + at h (Mod m) cs d"
    "bk_supply B b' d = bk_supply B b d + amt cs d"
proof -
  have "\<forall>m cs b b'. coins_wf cs \<longrightarrow> bk_mint B m cs b = Ok b' \<longrightarrow>
     (\<forall>h d. bk_balance B b' h d = bk_balance B b h d + at h (Mod m) cs d)
     \<and> (\<forall>d. bk_supply B b' d = bk_supply B b d + amt cs d)"
    using assms(1) unfolding bank_laws_def mint_law_def by blast
  from this [rule_format, OF assms(2,3)]
  show "bk_balance B b' h d = bk_balance B b h d + at h (Mod m) cs d"
    "bk_supply B b' d = bk_supply B b d + amt cs d" by blast+
qed

lemma bank_burnD:
  assumes "bank_laws B" "coins_wf cs" "bk_burn B m cs b = Ok b'"
  shows "amt cs d \<le> bk_balance B b (Mod m) d"
    "bk_balance B b' h d = bk_balance B b h d - at h (Mod m) cs d"
    "bk_supply B b' d = bk_supply B b d - amt cs d"
proof -
  have "\<forall>m cs b b'. coins_wf cs \<longrightarrow> bk_burn B m cs b = Ok b' \<longrightarrow>
     (\<forall>d. amt cs d \<le> bk_balance B b (Mod m) d)
     \<and> (\<forall>h d. bk_balance B b' h d = bk_balance B b h d - at h (Mod m) cs d)
     \<and> (\<forall>d. bk_supply B b' d = bk_supply B b d - amt cs d)"
    using assms(1) unfolding bank_laws_def burn_law_def by blast
  from this [rule_format, OF assms(2,3)] show "amt cs d \<le> bk_balance B b (Mod m) d"
    "bk_balance B b' h d = bk_balance B b h d - at h (Mod m) cs d"
    "bk_supply B b' d = bk_supply B b d - amt cs d" by blast+
qed

lemma bank_balances:
  assumes "bank_laws B"
  shows "coins_wf (bk_all_balances B b h)" "amt (bk_all_balances B b h) d = bk_balance B b h d"
  using assms unfolding bank_laws_def balances_law_def by blast+


section \<open>A concrete bank\<close>

type_synonym ref_bank = "(holder, coins) gomap \<times> (denom \<Rightarrow> int)"

definition positive_coins :: "coins \<Rightarrow> coins" where
  "positive_coins cs = coins_sum [] (filter (\<lambda>c. 0 < coin_amount c) cs)"

definition ref_coins :: "ref_bank \<Rightarrow> holder \<Rightarrow> coins" where
  "ref_coins b h = positive_coins (go_get [] (fst b) h)"

definition ref_give :: "holder \<Rightarrow> coins \<Rightarrow> ref_bank \<Rightarrow> ref_bank outcome" where
  "ref_give h cs b = andThen (coins_add_ref (ref_coins b h) cs) (\<lambda>c. Ok (go_put h c (fst b), snd b))"

definition ref_take :: "holder \<Rightarrow> coins \<Rightarrow> ref_bank \<Rightarrow> ref_bank outcome" where
  "ref_take h cs b = andThen (wrapErr ErrInvalidCoins (case coins_sub_ref (ref_coins b h) cs of
       Panic \<Rightarrow> Err ErrInvalidCoins | r \<Rightarrow> r)) (\<lambda>c. Ok (go_put h c (fst b), snd b))"

definition bank_ref :: "ref_bank bank" where
  "bank_ref = \<lparr>
     bk_balance = (\<lambda>b h. amt (ref_coins b h)),
     bk_all_balances = ref_coins,
     bk_supply = snd,
     bk_send = (\<lambda>f t cs b. andThen (ref_take f cs b) (ref_give t cs)),
     bk_mint = (\<lambda>m cs b. andThen (ref_give (Mod m) cs b) (\<lambda>b. Ok (fst b, \<lambda>d. snd b d + amt cs d))),
     bk_burn = (\<lambda>m cs b. andThen (ref_take (Mod m) cs b) (\<lambda>b. Ok (fst b, \<lambda>d. snd b d - amt cs d)))\<rparr>"

lemma positive_coins_wf: "coins_wf (positive_coins cs)"
proof -
  let ?f = "filter (\<lambda>c. 0 < coin_amount c) cs"
  have "0 \<le> amt ?f d" for d by (rule amt_nonneg) simp
  then show ?thesis
    using coins_sum_props [of "[]" ?f] by (auto simp: positive_coins_def coins_wf_iff coins_sorted_def)
qed

lemma positive_coins_amt: "coins_wf cs \<Longrightarrow> amt (positive_coins cs) d = amt cs d"
proof -
  assume "coins_wf cs"
  then have "filter (\<lambda>c. 0 < coin_amount c) cs = cs" by (simp add: coins_wf_def filter_id_conv)
  then show ?thesis using coins_sum_props [of "[]" cs] by (simp add: positive_coins_def coins_sorted_def)
qed

lemma ref_coins_wf: "coins_wf (ref_coins b h)"
  by (simp add: ref_coins_def positive_coins_wf)

lemma ref_giveD:
  assumes "coins_wf cs" "ref_give h cs b = Ok b'"
  shows "amt (ref_coins b' h') d = amt (ref_coins b h') d + at h' h cs d \<and> snd b' = snd b"
proof -
  from assms(2) obtain c where c: "coins_add sdk_ref (ref_coins b h) cs = Ok c" "b' = (go_put h c (fst b), snd b)"
    by (auto simp: ref_give_def)
  note a = coins_addD [OF coin_laws_sdk_ref ref_coins_wf assms(1) c(1)]
  with c(2) show ?thesis by (simp add: at_def ref_coins_def [of "(_, _)"] positive_coins_amt) (simp add: ref_coins_def)
qed

lemma ref_takeD:
  assumes "coins_wf cs" "ref_take h cs b = Ok b'"
  shows "amt cs d \<le> amt (ref_coins b h) d"
    "amt (ref_coins b' h') d = amt (ref_coins b h') d - at h' h cs d \<and> snd b' = snd b"
proof -
  from assms(2) obtain c where c: "coins_sub sdk_ref (ref_coins b h) cs = Ok c" "b' = (go_put h c (fst b), snd b)"
    by (auto simp: ref_take_def split: outcome.splits)
  have le: "amt cs d \<le> amt (ref_coins b h) d" for d
    using coins_sub_Panic [OF coin_laws_sdk_ref ref_coins_wf [of b h] assms(1), of d] c(1) by fastforce
  show "amt cs d \<le> amt (ref_coins b h) d" by (rule le)
  obtain c' where "coins_sub sdk_ref (ref_coins b h) cs = Ok c'" "coins_wf c'"
    "\<And>d. amt c' d = amt (ref_coins b h) d - amt cs d"
    by (rule coins_sub_Ok [OF coin_laws_sdk_ref ref_coins_wf [of b h] assms(1) le]) blast
  with c show "amt (ref_coins b' h') d = amt (ref_coins b h') d - at h' h cs d \<and> snd b' = snd b"
    by (simp add: at_def ref_coins_def [of "(_, _)"] positive_coins_amt) (simp add: ref_coins_def)
qed

lemma bank_laws_bank_ref [simp]: "bank_laws bank_ref"
proof -
  have "send_law bank_ref"
    unfolding send_law_def
  proof (intro allI impI)
    fix f t cs b b' assume cs: "coins_wf cs" and s: "bk_send bank_ref f t cs b = Ok b'"
    then obtain b1 where "ref_take f cs b = Ok b1" "ref_give t cs b1 = Ok b'" by (auto simp: bank_ref_def)
    with ref_takeD [OF cs] ref_giveD [OF cs] show "(\<forall>d. amt cs d \<le> bk_balance bank_ref b f d)
      \<and> (\<forall>h d. bk_balance bank_ref b' h d = bk_balance bank_ref b h d - at h f cs d + at h t cs d)
      \<and> (\<forall>d. bk_supply bank_ref b' d = bk_supply bank_ref b d)" by (simp add: bank_ref_def)
  qed
  moreover have "mint_law bank_ref"
    unfolding mint_law_def
  proof (intro allI impI)
    fix m cs b b' assume cs: "coins_wf cs" and s: "bk_mint bank_ref m cs b = Ok b'"
    then obtain b1 where "ref_give (Mod m) cs b = Ok b1" "b' = (fst b1, \<lambda>d. snd b1 d + amt cs d)"
      by (auto simp: bank_ref_def)
    with ref_giveD [OF cs] show "(\<forall>h d. bk_balance bank_ref b' h d = bk_balance bank_ref b h d + at h (Mod m) cs d)
      \<and> (\<forall>d. bk_supply bank_ref b' d = bk_supply bank_ref b d + amt cs d)"
      by (simp add: bank_ref_def ref_coins_def [of "(_, _)"] flip: ref_coins_def [of b1])
  qed
  moreover have "burn_law bank_ref"
    unfolding burn_law_def
  proof (intro allI impI)
    fix m cs b b' assume cs: "coins_wf cs" and s: "bk_burn bank_ref m cs b = Ok b'"
    then obtain b1 where "ref_take (Mod m) cs b = Ok b1" "b' = (fst b1, \<lambda>d. snd b1 d - amt cs d)"
      by (auto simp: bank_ref_def)
    with ref_takeD [OF cs] show "(\<forall>d. amt cs d \<le> bk_balance bank_ref b (Mod m) d)
      \<and> (\<forall>h d. bk_balance bank_ref b' h d = bk_balance bank_ref b h d - at h (Mod m) cs d)
      \<and> (\<forall>d. bk_supply bank_ref b' d = bk_supply bank_ref b d - amt cs d)"
      by (simp add: bank_ref_def ref_coins_def [of "(_, _)"] flip: ref_coins_def [of b1])
  qed
  moreover have "balances_law bank_ref"
    by (simp add: balances_law_def bank_ref_def ref_coins_wf)
  ultimately show ?thesis by (simp add: bank_laws_def)
qed

lemmas bank_eval = bank_ref_def ref_give_def ref_take_def ref_coins_def positive_coins_def go_get_def

end
