(* ===== verification/Market.thy ===== *)
theory Market
  imports OracleKeeper Bank
begin

text \<open>
  The market module: \<open>src/x/market/keeper/swap.go\<close> (prices, spreads, pools), \<open>keeper/keeper.go\<close> (pool
  delta and its recovery), \<open>keeper/msg_server.go\<close> (swaps), \<open>keeper/querier.go\<close>, \<open>types/msgs.go\<close>,
  \<open>types/params.go\<close>, \<open>genesis.go\<close> and the message parser of \<open>wasm/interface.go\<close>. The oracle keeper
  is used through its two look-ups \<open>rate\<close> and \<open>tobin\<close>, the interface of \<open>types/expected_keepers.go\<close>;
  the locale \<open>luna_rates\<close> states what the market relies on and is interpreted by the oracle module.
\<close>

record market_params =
  BasePool :: dec
  PoolRecoveryPeriod :: u64
  MinStabilitySpread :: dec

record market_state =
  mk_delta :: "dec option"
  mk_params :: market_params

definition market_name :: string where
  "market_name = ''market''"

definition oracle_name :: string where
  "oracle_name = ''oracle''"


section \<open>Pools\<close>

definition GetTerraPoolDelta :: "market_state \<Rightarrow> dec" where
  "GetTerraPoolDelta m = (case mk_delta m of None \<Rightarrow> 0 | Some d \<Rightarrow> d)"

definition SetTerraPoolDelta :: "dec \<Rightarrow> market_state \<Rightarrow> market_state" where
  "SetTerraPoolDelta d m = m\<lparr>mk_delta := Some d\<rparr>"

definition ReplenishPools :: "sdk \<Rightarrow> market_state \<Rightarrow> market_state outcome" where
  "ReplenishPools S m =
    (let poolDelta = GetTerraPoolDelta m;
         poolRecoveryPeriod = sint (PoolRecoveryPeriod (mk_params m)) in
     andThen (dec_quo_int S poolDelta poolRecoveryPeriod) (\<lambda>poolRegressionAmt.
     andThen (dec_sub S poolDelta poolRegressionAmt) (\<lambda>d.
     Ok (SetTerraPoolDelta d m))))"

definition market_EndBlocker :: "sdk \<Rightarrow> market_state \<Rightarrow> market_state outcome" where
  "market_EndBlocker S m = ReplenishPools S m"


section \<open>Prices\<close>

definition dec_coin_of_coin :: "sdk \<Rightarrow> coin \<Rightarrow> dec_coin outcome" where
  "dec_coin_of_coin S c = new_dec_coin S (coin_denom c) (dec_of_int (coin_amount c))"

definition ComputeInternalSwap ::
  "sdk \<Rightarrow> (denom \<Rightarrow> dec outcome) \<Rightarrow> dec_coin \<Rightarrow> denom \<Rightarrow> dec_coin outcome" where
  "ComputeInternalSwap S rate offerCoin askDenom =
    (if dc_denom offerCoin = askDenom then Ok offerCoin
     else
     andThen (wrapErr (ErrNoEffectivePrice (dc_denom offerCoin)) (rate (dc_denom offerCoin))) (\<lambda>offerRate.
     andThen (wrapErr (ErrNoEffectivePrice askDenom) (rate askDenom)) (\<lambda>askRate.
     andThen (dec_mul S (dc_amount offerCoin) askRate) (\<lambda>p.
     andThen (dec_quo S p offerRate) (\<lambda>retAmount.
     if retAmount \<le> 0 then Err ErrInvalidCoins
     else new_dec_coin S askDenom retAmount)))))"

text \<open>The spread of the constant product of the two pools, at least the minimum.\<close>

definition pool_spread :: "sdk \<Rightarrow> market_state \<Rightarrow> bool \<Rightarrow> dec \<Rightarrow> dec outcome" where
  "pool_spread S m offerIsTerra baseOfferAmount =
    (let basePool = BasePool (mk_params m); minSpread = MinStabilitySpread (mk_params m) in
     andThen (dec_mul S basePool basePool) (\<lambda>cp.
     andThen (dec_add S basePool (GetTerraPoolDelta m)) (\<lambda>terraPool.
     andThen (dec_quo S cp terraPool) (\<lambda>lunaPool.
     let offerPool = (if offerIsTerra then terraPool else lunaPool);
         askPool = (if offerIsTerra then lunaPool else terraPool) in
     andThen (dec_add S offerPool baseOfferAmount) (\<lambda>newPool.
     andThen (dec_quo S cp newPool) (\<lambda>q.
     andThen (dec_sub S askPool q) (\<lambda>askBaseAmount.
     andThen (dec_sub S baseOfferAmount askBaseAmount) (\<lambda>loss.
     andThen (dec_quo S loss baseOfferAmount) (\<lambda>spread.
     Ok (if spread < minSpread then minSpread else spread))))))))))"

definition ComputeSwap ::
  "sdk \<Rightarrow> (denom \<Rightarrow> dec outcome) \<Rightarrow> (denom \<Rightarrow> dec outcome) \<Rightarrow> market_state \<Rightarrow> coin \<Rightarrow> denom \<Rightarrow>
    (dec_coin \<times> dec) outcome" where
  "ComputeSwap S rate tobin m offerCoin askDenom =
    (if coin_denom offerCoin = askDenom then Err (ErrRecursiveSwap askDenom)
     else
     andThen (dec_coin_of_coin S offerCoin) (\<lambda>offerDecCoin.
     andThen (ComputeInternalSwap S rate offerDecCoin MicroSDRDenom) (\<lambda>baseOfferDecCoin.
     andThen (ComputeInternalSwap S rate baseOfferDecCoin askDenom) (\<lambda>retDecCoin.
     if coin_denom offerCoin \<noteq> MicroLunaDenom \<and> askDenom \<noteq> MicroLunaDenom
     then
       andThen (tobin (coin_denom offerCoin)) (\<lambda>offerTobinTax.
       andThen (tobin askDenom) (\<lambda>askTobinTax.
       Ok (retDecCoin, if offerTobinTax < askTobinTax then askTobinTax else offerTobinTax)))
     else
       andThen (pool_spread S m (coin_denom offerCoin \<noteq> MicroLunaDenom) (dc_amount baseOfferDecCoin)) (\<lambda>spread.
       Ok (retDecCoin, spread))))))"

definition ApplySwapToPool ::
  "sdk \<Rightarrow> (denom \<Rightarrow> dec outcome) \<Rightarrow> coin \<Rightarrow> dec_coin \<Rightarrow> market_state \<Rightarrow> market_state outcome" where
  "ApplySwapToPool S rate offerCoin askCoin m =
    (if coin_denom offerCoin \<noteq> MicroLunaDenom \<and> dc_denom askCoin \<noteq> MicroLunaDenom then Ok m
     else
     let terraPoolDelta = GetTerraPoolDelta m in
     andThen
       (if coin_denom offerCoin \<noteq> MicroLunaDenom \<and> dc_denom askCoin = MicroLunaDenom
        then andThen (dec_coin_of_coin S offerCoin) (\<lambda>o'.
             andThen (ComputeInternalSwap S rate o' MicroSDRDenom) (\<lambda>offerBaseCoin.
             dec_add S terraPoolDelta (dc_amount offerBaseCoin)))
        else Ok terraPoolDelta) (\<lambda>d1.
     andThen
       (if coin_denom offerCoin = MicroLunaDenom \<and> dc_denom askCoin \<noteq> MicroLunaDenom
        then andThen (ComputeInternalSwap S rate askCoin MicroSDRDenom) (\<lambda>askBaseCoin.
             dec_sub S d1 (dc_amount askBaseCoin))
        else Ok d1) (\<lambda>d2.
     Ok (SetTerraPoolDelta d2 m))))"

definition simulateSwap ::
  "sdk \<Rightarrow> (denom \<Rightarrow> dec outcome) \<Rightarrow> (denom \<Rightarrow> dec outcome) \<Rightarrow> market_state \<Rightarrow> coin \<Rightarrow> denom \<Rightarrow> coin outcome" where
  "simulateSwap S rate tobin m offerCoin askDenom =
    (if askDenom = coin_denom offerCoin then Err (ErrRecursiveSwap askDenom)
     else if 100 < bit_len (coin_amount offerCoin) then Err ErrInvalidCoins
     else
     andThen (wrapErr ErrPanic (ComputeSwap S rate tobin m offerCoin askDenom)) (\<lambda>(swapCoin, spread).
     andThen
       (if 0 < spread
        then andThen (dec_mul S spread (dc_amount swapCoin)) (\<lambda>swapFeeAmt.
             if 0 < swapFeeAmt
             then andThen (new_dec_coin S (dc_denom swapCoin) swapFeeAmt) (\<lambda>swapFee.
                  dec_coin_sub S swapCoin swapFee)
             else Ok swapCoin)
        else Ok swapCoin) (\<lambda>swapCoin'.
     andThen (dec_coin_trunc S swapCoin') (\<lambda>(retCoin, _). Ok retCoin))))"


section \<open>Swaps\<close>

type_synonym 'b market_world = "market_state \<times> 'b"

definition settle_swap ::
  "sdk \<Rightarrow> 'b bank \<Rightarrow> ctx \<Rightarrow> addr \<Rightarrow> addr \<Rightarrow> coin \<Rightarrow> dec_coin \<Rightarrow> dec_coin \<Rightarrow> 'b \<Rightarrow>
    ((coin \<times> coin) \<times> 'b) outcome" where
  "settle_swap S B c trader receiver offerCoin swapDecCoin feeDecCoin b =
    andThen (new_coins S [offerCoin]) (\<lambda>offerCoins.
    andThen (bk_send B (Acc trader) (Mod market_name) offerCoins b) (\<lambda>b1.
    andThen (bk_burn B market_name offerCoins b1) (\<lambda>b2.
    andThen (dec_coin_trunc S swapDecCoin) (\<lambda>(swapCoin, decimalCoin).
    if ctx_chain c = ColumbusChainID \<and> SwapDisableForkHeight \<le> ctx_height c \<and> \<not> 0 < coin_amount swapCoin
    then Err ErrZeroSwapCoin
    else
    andThen (dec_coin_add S feeDecCoin decimalCoin) (\<lambda>feeDec.
    andThen (dec_coin_trunc S feeDec) (\<lambda>(feeCoin, _).
    andThen (coin_add S swapCoin feeCoin) (\<lambda>mintCoin.
    andThen (new_coins S [mintCoin]) (\<lambda>mintCoins.
    andThen (bk_mint B market_name mintCoins b2) (\<lambda>b3.
    andThen (new_coins S [swapCoin]) (\<lambda>swapCoins.
    andThen (bk_send B (Mod market_name) (Acc receiver) swapCoins b3) (\<lambda>b4.
    andThen
      (if 0 < coin_amount feeCoin
       then andThen (new_coins S [feeCoin]) (\<lambda>feeCoins.
            bk_send B (Mod market_name) (Mod oracle_name) feeCoins b4)
       else Ok b4) (\<lambda>b5.
    Ok ((swapCoin, feeCoin), b5)))))))))))))"

definition handleSwapRequest ::
  "sdk \<Rightarrow> 'b bank \<Rightarrow> (denom \<Rightarrow> dec outcome) \<Rightarrow> (denom \<Rightarrow> dec outcome) \<Rightarrow> ctx \<Rightarrow> addr \<Rightarrow> addr \<Rightarrow> coin \<Rightarrow> denom \<Rightarrow>
    'b market_world \<Rightarrow> ((coin \<times> coin) \<times> 'b market_world) outcome" where
  "handleSwapRequest S B rate tobin c trader receiver offerCoin askDenom w =
    andThen (ComputeSwap S rate tobin (fst w) offerCoin askDenom) (\<lambda>(swapDecCoin0, spread).
    andThen
      (if 0 < spread
       then andThen (dec_mul S spread (dc_amount swapDecCoin0)) (new_dec_coin S (dc_denom swapDecCoin0))
       else new_dec_coin S (dc_denom swapDecCoin0) 0) (\<lambda>feeDecCoin.
    andThen (dec_sub S (dc_amount swapDecCoin0) (dc_amount feeDecCoin)) (\<lambda>a.
    let swapDecCoin = swapDecCoin0\<lparr>dc_amount := a\<rparr> in
    andThen (ApplySwapToPool S rate offerCoin swapDecCoin (fst w)) (\<lambda>m.
    andThen (settle_swap S B c trader receiver offerCoin swapDecCoin feeDecCoin (snd w)) (\<lambda>(r, b).
    Ok (r, (m, b)))))))"

record msg_swap =
  ms_trader :: string
  ms_offer :: coin
  ms_ask :: denom

record msg_swap_send =
  mss_from :: string
  mss_to :: string
  mss_offer :: coin
  mss_ask :: denom

definition MsgSwap_ValidateBasic :: "sdk \<Rightarrow> msg_swap \<Rightarrow> unit outcome" where
  "MsgSwap_ValidateBasic S msg =
    andThen (wrapErr ErrInvalidAddress (acc_of_bech32 S (ms_trader msg))) (\<lambda>_.
    if coin_amount (ms_offer msg) \<le> 0 \<or> 100 < bit_len (coin_amount (ms_offer msg)) then Err ErrInvalidCoins
    else if coin_denom (ms_offer msg) = ms_ask msg then Err (ErrRecursiveSwap (ms_ask msg))
    else Ok ())"

definition MsgSwapSend_ValidateBasic :: "sdk \<Rightarrow> msg_swap_send \<Rightarrow> unit outcome" where
  "MsgSwapSend_ValidateBasic S msg =
    andThen (wrapErr ErrInvalidAddress (acc_of_bech32 S (mss_from msg))) (\<lambda>_.
    andThen (wrapErr ErrInvalidAddress (acc_of_bech32 S (mss_to msg))) (\<lambda>_.
    if coin_amount (mss_offer msg) \<le> 0 \<or> 100 < bit_len (coin_amount (mss_offer msg)) then Err ErrInvalidCoins
    else if coin_denom (mss_offer msg) = mss_ask msg then Err (ErrRecursiveSwap (mss_ask msg))
    else Ok ()))"

definition Swap ::
  "sdk \<Rightarrow> 'b bank \<Rightarrow> (denom \<Rightarrow> dec outcome) \<Rightarrow> (denom \<Rightarrow> dec outcome) \<Rightarrow> ctx \<Rightarrow> msg_swap \<Rightarrow>
    'b market_world \<Rightarrow> ((coin \<times> coin) \<times> 'b market_world) outcome" where
  "Swap S B rate tobin c msg w =
    andThen (acc_of_bech32 S (ms_trader msg)) (\<lambda>addr.
    handleSwapRequest S B rate tobin c addr addr (ms_offer msg) (ms_ask msg) w)"

definition SwapSend ::
  "sdk \<Rightarrow> 'b bank \<Rightarrow> (denom \<Rightarrow> dec outcome) \<Rightarrow> (denom \<Rightarrow> dec outcome) \<Rightarrow> ctx \<Rightarrow> msg_swap_send \<Rightarrow>
    'b market_world \<Rightarrow> ((coin \<times> coin) \<times> 'b market_world) outcome" where
  "SwapSend S B rate tobin c msg w =
    andThen (acc_of_bech32 S (mss_from msg)) (\<lambda>fromAddr.
    andThen (acc_of_bech32 S (mss_to msg)) (\<lambda>toAddr.
    handleSwapRequest S B rate tobin c fromAddr toAddr (mss_offer msg) (mss_ask msg) w))"

datatype market_msg = MsgSwap msg_swap | MsgSwapSend msg_swap_send

fun market_handler ::
  "sdk \<Rightarrow> 'b bank \<Rightarrow> (denom \<Rightarrow> dec outcome) \<Rightarrow> (denom \<Rightarrow> dec outcome) \<Rightarrow> ctx \<Rightarrow> market_msg \<Rightarrow>
    'b market_world \<Rightarrow> ((coin \<times> coin) \<times> 'b market_world) outcome" where
  "market_handler S B rate tobin c (MsgSwap msg) w = Swap S B rate tobin c msg w"
| "market_handler S B rate tobin c (MsgSwapSend msg) w = SwapSend S B rate tobin c msg w"

text \<open>
  The custom message of a contract, after JSON decoding: the sender is always the contract. The
  argument is the decoder's result.
\<close>

record market_cosmos_msg =
  cm_swap :: "msg_swap option"
  cm_swap_send :: "msg_swap_send option"

definition market_ParseCustom :: "sdk \<Rightarrow> addr \<Rightarrow> market_cosmos_msg outcome \<Rightarrow> market_msg outcome" where
  "market_ParseCustom S contractAddr decoded =
    andThen decoded (\<lambda>sdkMsg.
    case cm_swap sdkMsg of
      Some msg \<Rightarrow>
        (let msg' = msg\<lparr>ms_trader := acc_bech32 S contractAddr\<rparr> in
         andThen (MsgSwap_ValidateBasic S msg') (\<lambda>_. Ok (MsgSwap msg')))
    | None \<Rightarrow>
        (case cm_swap_send sdkMsg of
           Some msg \<Rightarrow>
             (let msg' = msg\<lparr>mss_from := acc_bech32 S contractAddr\<rparr> in
              andThen (MsgSwapSend_ValidateBasic S msg') (\<lambda>_. Ok (MsgSwapSend msg')))
         | None \<Rightarrow> Err (ErrMsg ''Unknown variant of Market'')))"

text \<open>The gRPC query: a bad denom or coin is an invalid argument, a failed simulation an internal error.\<close>

definition querier_Swap ::
  "sdk \<Rightarrow> (denom \<Rightarrow> dec outcome) \<Rightarrow> (denom \<Rightarrow> dec outcome) \<Rightarrow> market_state \<Rightarrow> string \<Rightarrow> denom \<Rightarrow> coin outcome" where
  "querier_Swap S rate tobin m offerCoinStr askDenom =
    andThen (require (denom_valid S askDenom) (ErrMsg ''invalid ask denom'')) (\<lambda>_.
    andThen (wrapErr (ErrMsg ''InvalidArgument'') (parse_coin S offerCoinStr)) (\<lambda>offerCoin.
    wrapErr (ErrMsg ''Internal'') (simulateSwap S rate tobin m offerCoin askDenom)))"


section \<open>Parameters and genesis\<close>

definition market_DefaultParams :: market_params where
  "market_DefaultParams =
    \<lparr>BasePool = dec_of_int (1000000 * MicroUnit), PoolRecoveryPeriod = BlocksPerDay,
     MinStabilitySpread = 2 * 10 ^ 16\<rparr>"

definition market_Params_Validate :: "market_params \<Rightarrow> unit outcome" where
  "market_Params_Validate p =
    (if BasePool p < 0 then Err (ErrMsg ''mint base pool should be positive or zero'')
     else if PoolRecoveryPeriod p = 0 then Err (ErrMsg ''pool recovery period should be positive'')
     else if MinStabilitySpread p < 0 \<or> one_dec < MinStabilitySpread p
       then Err (ErrMsg ''market minimum stability spead should be a value between [0,1]'')
     else Ok ())"

definition validateBasePool :: "dec \<Rightarrow> unit outcome" where
  "validateBasePool v = require (\<not> v < 0) (ErrMsg ''mint base pool must be positive or zero'')"

definition validatePoolRecoveryPeriod :: "u64 \<Rightarrow> unit outcome" where
  "validatePoolRecoveryPeriod v = require (\<not> v \<le> 0) (ErrMsg ''pool recovery period must be positive'')"

definition validateMinStabilitySpread :: "dec \<Rightarrow> unit outcome" where
  "validateMinStabilitySpread v =
    (if v < 0 then Err (ErrMsg ''min spread must be positive or zero'')
     else require (v \<le> one_dec) (ErrMsg ''min spread is too large''))"

definition market_ParamSetPairs :: "market_params \<Rightarrow> unit outcome" where
  "market_ParamSetPairs p =
    andThen (validateBasePool (BasePool p)) (\<lambda>_.
    andThen (validatePoolRecoveryPeriod (PoolRecoveryPeriod p)) (\<lambda>_.
    validateMinStabilitySpread (MinStabilitySpread p)))"

text \<open>The parameter store panics when a validator rejects a value.\<close>

definition market_SetParams :: "market_params \<Rightarrow> market_state \<Rightarrow> market_state outcome" where
  "market_SetParams p m = andThen (mustOk (market_ParamSetPairs p)) (\<lambda>_. Ok (m\<lparr>mk_params := p\<rparr>))"

record market_genesis =
  mg_delta :: dec
  mg_params :: market_params

definition market_DefaultGenesisState :: market_genesis where
  "market_DefaultGenesisState = \<lparr>mg_delta = 0, mg_params = market_DefaultParams\<rparr>"

definition market_ValidateGenesis :: "market_genesis \<Rightarrow> unit outcome" where
  "market_ValidateGenesis g = market_Params_Validate (mg_params g)"

definition market_InitGenesis :: "bool \<Rightarrow> market_genesis \<Rightarrow> market_state \<Rightarrow> market_state outcome" where
  "market_InitGenesis hasModuleAccount g m =
    andThen (market_SetParams (mg_params g) m) (\<lambda>m1.
    let m2 = SetTerraPoolDelta (mg_delta g) m1 in
    if hasModuleAccount then Ok m2 else Panic)"

definition market_ExportGenesis :: "market_state \<Rightarrow> market_genesis" where
  "market_ExportGenesis m = \<lparr>mg_delta = GetTerraPoolDelta m, mg_params = mk_params m\<rparr>"

section \<open>What the market relies on of the oracle\<close>

text \<open>
  The two look-ups return a value or an error, never a panic, and Luna has the rate one.
\<close>

locale luna_rates =
  fixes rate tobin :: "'k \<Rightarrow> denom \<Rightarrow> dec outcome"
  assumes rate_luna: "rate k MicroLunaDenom = Ok one_dec"
    and rate_no_panic: "rate k d \<noteq> Panic"
    and tobin_no_panic: "tobin k d \<noteq> Panic"
begin

lemma rate_cases:
  obtains r where "rate k d = Ok r" | e where "rate k d = Err e"
  using rate_no_panic by (cases "rate k d") auto

lemma internal_swap_unknown:
  assumes "dc_denom offer \<noteq> ask" "rate k (dc_denom offer) = Err e \<or> rate k ask = Err e"
  shows "\<exists>d. ComputeInternalSwap S (rate k) offer ask = Err (ErrNoEffectivePrice d) \<and> (\<exists>e. rate k d = Err e)"
  using assms rate_no_panic [of k "dc_denom offer"] rate_no_panic [of k ask]
  by (cases "rate k (dc_denom offer)"; cases "rate k ask") (auto simp: ComputeInternalSwap_def)

text \<open>
  With both prices known the result is the quotient of the rates up to rounding; it is refused exactly
  when it rounds to zero.
\<close>

lemma internal_swap_known:
  assumes S: "dec_laws S" "coin_laws S" and d: "dc_denom offer \<noteq> ask" "denom_valid S ask"
    and r: "rate k (dc_denom offer) = Ok ro" "rate k ask = Ok ra" and pos: "0 < ro" "ro < 2 ^ 90" "0 < ra" "ra < 2 ^ 90"
    and a: "0 \<le> dc_amount offer" "dc_amount offer < 2 ^ 160"
  shows "\<exists>q. 0 \<le> q \<and> 2 * \<bar>q * ro - dc_amount offer * ra\<bar> \<le> 2 * ro + one_dec
    \<and> ComputeInternalSwap S (rate k) offer ask
      = (if q = 0 then Err ErrInvalidCoins else Ok \<lparr>dc_denom = ask, dc_amount = q\<rparr>)"
proof -
  let ?a = "dc_amount offer"
  obtain p where p: "nearest p (?a * ra) one_dec" "dec_mul S ?a ra = chk (dec_bits S) p"
    by (rule dec_mulE [OF S(1)])
  have one: "10 ^ 18 = one_dec" by (simp add: one_dec_def)
  have "?a * ra \<le> 2 ^ 160 * 2 ^ 90" using a pos by (intro mult_mono) auto
  then have b: "?a * ra \<le> 2 ^ 191 * one_dec" by (simp add: one_dec_def)
  have p0: "0 \<le> p" using nearest_nonneg [OF p(1)] a pos by simp
  have pb: "p \<le> 2 ^ 191" by (rule nearest_le [OF p(1) _ b]) simp
  then have P: "dec_mul S ?a ra = Ok p"
    using p(2) p0 dec_bitsD [OF S(1)] chk_fits [of p "dec_bits S"] by simp
  obtain q where q: "within_unit q (p * one_dec) ro" "dec_quo S p ro = chk (dec_bits S) q"
    by (rule dec_quoE [OF S(1), of ro p]) (use pos in simp)
  have q0: "0 \<le> q" using within_unit_nonneg [OF q(1)] p0 pos by simp
  have "q * ro < p * one_dec + ro" using q(1) pos unfolding within_unit_def by linarith
  moreover have "q \<le> q * ro" using pos q0 mult_left_mono [of 1 ro q] by simp
  moreover have "p * one_dec \<le> 2 ^ 191 * one_dec" using pb by simp
  ultimately have "q < 2 ^ 191 * one_dec + 2 ^ 90" using pos by linarith
  also have "\<dots> < 2 ^ 255" by (simp add: one_dec_def)
  finally have Q: "dec_quo S p ro = Ok q"
    using q(2) q0 dec_bitsD [OF S(1)] chk_fits [of q "dec_bits S"] by simp
  have "2 * \<bar>x - z\<bar> \<le> 2 * \<bar>x - y\<bar> + 2 * \<bar>y - z\<bar>" for x y z :: int by arith
  then have "2 * \<bar>q * ro - ?a * ra\<bar> \<le> 2 * \<bar>q * ro - p * one_dec\<bar> + 2 * \<bar>p * one_dec - ?a * ra\<bar>" .
  also have "\<dots> \<le> 2 * ro + one_dec" using q(1) p(1) pos by (simp add: within_unit_def nearest_def)
  finally have e: "2 * \<bar>q * ro - ?a * ra\<bar> \<le> 2 * ro + one_dec" .
  have "ComputeInternalSwap S (rate k) offer ask
      = (if q = 0 then Err ErrInvalidCoins else Ok \<lparr>dc_denom = ask, dc_amount = q\<rparr>)"
    using d r P Q q0 by (simp add: ComputeInternalSwap_def new_dec_coinI [OF S(2)])
  with e q0 show ?thesis by blast
qed

text \<open>So a swap of a bounded amount at positive bounded prices never panics.\<close>

lemma internal_swap_no_panic:
  assumes S: "dec_laws S" "coin_laws S" and d: "denom_valid S ask"
    and r: "\<And>d r. rate k d = Ok r \<Longrightarrow> 0 < r \<and> r < 2 ^ 90"
    and a: "0 \<le> dc_amount offer" "dc_amount offer < 2 ^ 160"
  shows "ComputeInternalSwap S (rate k) offer ask \<noteq> Panic"
proof (cases "dc_denom offer = ask")
  case True
  then show ?thesis by (simp add: ComputeInternalSwap_def)
next
  case False
  show ?thesis
  proof (cases "\<exists>e. rate k (dc_denom offer) = Err e \<or> rate k ask = Err e")
    case True
    then obtain e where "rate k (dc_denom offer) = Err e \<or> rate k ask = Err e" by blast
    from internal_swap_unknown [OF False this, of S] show ?thesis by auto
  next
    case n: False
    then obtain ro ra where "rate k (dc_denom offer) = Ok ro" "rate k ask = Ok ra"
      using rate_cases by metis
    with internal_swap_known [OF S False d this] r a show ?thesis by (fastforce split: if_splits)
  qed
qed

lemma internal_swap_denom:
  assumes "coin_laws S" "ComputeInternalSwap S (rate k) offer ask = Ok c"
  shows "dc_denom c = ask" "c = offer \<or> 0 < dc_amount c"
  using assms by (auto simp: ComputeInternalSwap_def new_dec_coinI split: if_splits)

end

interpretation oracle_rates: luna_rates GetLunaExchangeRate GetTobinTax
  by unfold_locales (simp_all add: GetLunaExchangeRate_def GetTobinTax_def split: option.splits)

section \<open>Swaps\<close>

lemma new_coins_single:
  assumes "coin_op_laws S" "new_coins S [c] = Ok cs"
  shows "coins_wf cs" "amt cs d = amt [c] d" "0 \<le> coin_amount c"
  using assms by (auto simp: new_coinsI amt_Cons split: if_splits)

lemma dec_coin_trunc_Ok:
  assumes "dec_laws S" "coin_op_laws S" "dec_coin_trunc S a = Ok (c, r)"
  shows "c = \<lparr>coin_denom = dc_denom a, coin_amount = dc_amount a div one_dec\<rparr>"
    "r = \<lparr>dc_denom = dc_denom a, dc_amount = dc_amount a mod one_dec\<rparr>"
    "0 \<le> dc_amount a" "denom_valid S (dc_denom a)"
  using assms by (auto simp: dec_coin_truncI dec_truncI sdiv_nonneg minus_div_mult_eq_mod split: if_splits)

text \<open>
  What a settled swap moves: the offer from the trader to nowhere, new coins to the receiver and to
  the oracle. Nothing stays with the market.
\<close>

definition swap_moves :: "'b bank \<Rightarrow> addr \<Rightarrow> addr \<Rightarrow> coin \<Rightarrow> coin \<Rightarrow> coin \<Rightarrow> 'b \<Rightarrow> 'b \<Rightarrow> bool" where
  "swap_moves B trader receiver offer sc fc b b' \<longleftrightarrow>
    (\<forall>h d. bk_balance B b' h d = bk_balance B b h d - at h (Acc trader) [offer] d
       + at h (Acc receiver) [sc] d + at h (Mod oracle_name) [fc] d)
    \<and> (\<forall>d. bk_supply B b' d = bk_supply B b d - amt [offer] d + amt [sc] d + amt [fc] d)"

lemma settle_swap_stages:
  assumes "settle_swap S B c trader receiver offer sw fee b = Ok ((sc, fc), b')"
  obtains oc b1 b2 dc fd r mc mcs b3 scs b4 where
    "new_coins S [offer] = Ok oc" "bk_send B (Acc trader) (Mod market_name) oc b = Ok b1"
    "bk_burn B market_name oc b1 = Ok b2" "dec_coin_trunc S sw = Ok (sc, dc)"
    "dec_coin_add S fee dc = Ok fd" "dec_coin_trunc S fd = Ok (fc, r)"
    "coin_add S sc fc = Ok mc" "new_coins S [mc] = Ok mcs" "bk_mint B market_name mcs b2 = Ok b3"
    "new_coins S [sc] = Ok scs" "bk_send B (Mod market_name) (Acc receiver) scs b3 = Ok b4"
    "(if 0 < coin_amount fc then andThen (new_coins S [fc]) (\<lambda>feeCoins.
        bk_send B (Mod market_name) (Mod oracle_name) feeCoins b4) else Ok b4) = Ok b'"
  using assms unfolding settle_swap_def andThen_Ok_iff
  by (auto split: prod.splits if_splits simp: outcome.inject)

lemma settle_swap_Ok:
  assumes L: "dec_laws S" "coin_op_laws S" "bank_laws B" and d: "dc_denom fee = dc_denom sw" "0 \<le> dc_amount fee"
    and s: "settle_swap S B c trader receiver offer sw fee b = Ok ((sc, fc), b')"
  shows "sc = \<lparr>coin_denom = dc_denom sw, coin_amount = dc_amount sw div one_dec\<rparr>"
    "coin_denom fc = dc_denom sw" "0 \<le> coin_amount fc" "0 \<le> coin_amount sc" "0 \<le> coin_amount offer"
    "coin_amount sc + coin_amount fc = (dc_amount sw + dc_amount fee) div one_dec"
    "swap_moves B trader receiver offer sc fc b b'"
proof -
  obtain oc b1 b2 dc fd r mc mcs b3 scs b4 where
    oc: "new_coins S [offer] = Ok oc" and b1: "bk_send B (Acc trader) (Mod market_name) oc b = Ok b1" and
    b2: "bk_burn B market_name oc b1 = Ok b2" and t: "dec_coin_trunc S sw = Ok (sc, dc)" and
    fd: "dec_coin_add S fee dc = Ok fd" and f: "dec_coin_trunc S fd = Ok (fc, r)" and
    mc: "coin_add S sc fc = Ok mc" and mcs: "new_coins S [mc] = Ok mcs" and b3: "bk_mint B market_name mcs b2 = Ok b3" and
    scs: "new_coins S [sc] = Ok scs" and b4: "bk_send B (Mod market_name) (Acc receiver) scs b3 = Ok b4" and
    b5: "(if 0 < coin_amount fc then andThen (new_coins S [fc]) (\<lambda>feeCoins.
        bk_send B (Mod market_name) (Mod oracle_name) feeCoins b4) else Ok b4) = Ok b'"
    by (rule settle_swap_stages [OF s])
  note t' = dec_coin_trunc_Ok [OF L(1,2) t] and f' = dec_coin_trunc_Ok [OF L(1,2) f]
  have fd': "fd = \<lparr>dc_denom = dc_denom sw, dc_amount = dc_amount fee + dc_amount sw mod one_dec\<rparr>"
    using fd d(1) by (auto simp: dec_coin_addI [OF L(2)] dec_addI [OF L(1)] t'(2) split: if_splits)
  have m0: "0 \<le> dc_amount sw mod one_dec" by simp
  show sc: "sc = \<lparr>coin_denom = dc_denom sw, coin_amount = dc_amount sw div one_dec\<rparr>" by (rule t'(1))
  show fcd: "coin_denom fc = dc_denom sw" and fc0: "0 \<le> coin_amount fc"
    using d(2) m0 by (simp_all add: f'(1) fd' pos_imp_zdiv_nonneg_iff)
  show "0 \<le> coin_amount sc" using t'(3) by (simp add: sc pos_imp_zdiv_nonneg_iff)
  show "0 \<le> coin_amount offer" using new_coins_single [OF L(2) oc] by simp
  show sum: "coin_amount sc + coin_amount fc = (dc_amount sw + dc_amount fee) div one_dec"
  proof -
    let ?x = "dc_amount sw div one_dec" and ?y = "dc_amount fee + dc_amount sw mod one_dec"
    have "dc_amount sw + dc_amount fee = ?y + ?x * one_dec" by simp
    also have "\<dots> div one_dec = ?x + ?y div one_dec" by (subst div_mult_self1) simp_all
    finally show ?thesis by (simp add: sc f'(1) fd')
  qed
  have mc': "mc = \<lparr>coin_denom = dc_denom sw, coin_amount = coin_amount sc + coin_amount fc\<rparr>"
    using mc by (auto simp: coin_addI [OF L(2)] int_addI [OF L(1)] sc fcd split: if_splits)
  have am: "amt [mc] d = amt [sc] d + amt [fc] d" for d
    by (simp add: mc' amt_Cons fcd sc)
  have last: "bk_balance B b' h d = bk_balance B b4 h d - at h (Mod market_name) [fc] d + at h (Mod oracle_name) [fc] d
      \<and> bk_supply B b' d = bk_supply B b4 d" for h d
  proof (cases "0 < coin_amount fc")
    case True
    with b5 obtain fcs where "new_coins S [fc] = Ok fcs" "bk_send B (Mod market_name) (Mod oracle_name) fcs b4 = Ok b'" by auto
    with new_coins_single [OF L(2), of fc fcs] bank_sendD [OF L(3), of fcs] show ?thesis by (simp add: at_def)
  next
    case False
    then have "amt [fc] d = 0" for d using fc0 by (simp add: amt_Cons)
    with False b5 show ?thesis by (simp add: at_def)
  qed
  have ne: "market_name \<noteq> oracle_name" by (simp add: market_name_def oracle_name_def)
  note w = new_coins_single [OF L(2) oc] new_coins_single [OF L(2) mcs] new_coins_single [OF L(2) scs]
  note B = bank_sendD [OF L(3) w(1) b1] bank_burnD [OF L(3) w(1) b2] bank_mintD [OF L(3) w(4) b3] bank_sendD [OF L(3) w(7) b4]
  show "swap_moves B trader receiver offer sc fc b b'"
    unfolding swap_moves_def using last B w am ne by (simp add: at_def)
qed

lemma ComputeSwap_Ok:
  assumes S: "dec_laws S" "coin_laws S" and c: "ComputeSwap S rate tobin m offer ask = Ok (ret, spread)"
  shows "coin_denom offer \<noteq> ask" "dc_denom ret = ask"
    "\<exists>o' base. dec_coin_of_coin S offer = Ok o' \<and> ComputeInternalSwap S rate o' MicroSDRDenom = Ok base
       \<and> ComputeInternalSwap S rate base ask = Ok ret"
    "coin_denom offer \<noteq> MicroLunaDenom \<and> ask \<noteq> MicroLunaDenom \<Longrightarrow>
       \<exists>t t'. tobin (coin_denom offer) = Ok t \<and> tobin ask = Ok t' \<and> spread = max t t'"
    "coin_denom offer = MicroLunaDenom \<or> ask = MicroLunaDenom \<Longrightarrow> MinStabilitySpread (mk_params m) \<le> spread"
proof -
  from c obtain o' base where
    n: "coin_denom offer \<noteq> ask" and o': "dec_coin_of_coin S offer = Ok o'"
    and base: "ComputeInternalSwap S rate o' MicroSDRDenom = Ok base"
    and ret: "ComputeInternalSwap S rate base ask = Ok ret"
    and sp: "(if coin_denom offer \<noteq> MicroLunaDenom \<and> ask \<noteq> MicroLunaDenom
     then andThen (tobin (coin_denom offer)) (\<lambda>t. andThen (tobin ask) (\<lambda>t'. Ok (ret, if t < t' then t' else t)))
     else andThen (pool_spread S m (coin_denom offer \<noteq> MicroLunaDenom) (dc_amount base)) (\<lambda>s. Ok (ret, s))) = Ok (ret, spread)"
    by (auto simp: ComputeSwap_def split: if_splits)
  show "coin_denom offer \<noteq> ask" by (rule n)
  show "dc_denom ret = ask"
    using ret S(2) by (auto simp: ComputeInternalSwap_def new_dec_coinI split: if_splits)
  show "\<exists>o' base. dec_coin_of_coin S offer = Ok o' \<and> ComputeInternalSwap S rate o' MicroSDRDenom = Ok base
       \<and> ComputeInternalSwap S rate base ask = Ok ret" using o' base ret by blast
  show "\<exists>t t'. tobin (coin_denom offer) = Ok t \<and> tobin ask = Ok t' \<and> spread = max t t'"
    if "coin_denom offer \<noteq> MicroLunaDenom \<and> ask \<noteq> MicroLunaDenom"
    using sp that by (auto simp: max.absorb1 max.absorb2 split: if_splits)
  show "MinStabilitySpread (mk_params m) \<le> spread"
    if "coin_denom offer = MicroLunaDenom \<or> ask = MicroLunaDenom"
  proof -
    from sp that have "pool_spread S m (coin_denom offer \<noteq> MicroLunaDenom) (dc_amount base) = Ok spread" by auto
    then obtain x where "spread = (if x < MinStabilitySpread (mk_params m) then MinStabilitySpread (mk_params m) else x)"
      unfolding pool_spread_def Let_def andThen_Ok_iff by auto
    then show ?thesis by simp
  qed
qed

text \<open>The fee of a swap: none without a spread, otherwise the spread of the amount, rounded.\<close>

definition fee_of :: "dec \<Rightarrow> dec \<Rightarrow> dec \<Rightarrow> bool" where
  "fee_of spread a fee \<longleftrightarrow> 0 \<le> fee \<and> (if 0 < spread then nearest fee (spread * a) one_dec else fee = 0)"

lemma handle_stages:
  assumes S: "dec_laws S" "coin_laws S" "coin_op_laws S" "bank_laws B"
    and h: "handleSwapRequest S B rate tobin c trader receiver offer ask (m, b) = Ok ((sc, fc), (m', b'))"
  obtains ret spread fee where "ComputeSwap S rate tobin m offer ask = Ok (ret, spread)" "dc_denom ret = ask"
    "fee_of spread (dc_amount ret) fee"
    "dec_mul S spread (dc_amount ret) = Ok fee \<or> spread \<le> 0"
    "dec_sub S (dc_amount ret) fee = Ok (dc_amount ret - fee)" "denom_valid S ask"
    "ApplySwapToPool S rate offer (ret\<lparr>dc_amount := dc_amount ret - fee\<rparr>) m = Ok m'"
    "settle_swap S B c trader receiver offer (ret\<lparr>dc_amount := dc_amount ret - fee\<rparr>)
       \<lparr>dc_denom = ask, dc_amount = fee\<rparr> b = Ok ((sc, fc), b')"
proof -
  from h obtain ret spread fdc a where
    cs: "ComputeSwap S rate tobin m offer ask = Ok (ret, spread)" and
    f: "(if 0 < spread then andThen (dec_mul S spread (dc_amount ret)) (new_dec_coin S (dc_denom ret))
       else new_dec_coin S (dc_denom ret) 0) = Ok fdc" and
    a: "dec_sub S (dc_amount ret) (dc_amount fdc) = Ok a" and
    m': "ApplySwapToPool S rate offer (ret\<lparr>dc_amount := a\<rparr>) m = Ok m'" and
    s: "settle_swap S B c trader receiver offer (ret\<lparr>dc_amount := a\<rparr>) fdc b = Ok ((sc, fc), b')"
    unfolding handleSwapRequest_def Let_def andThen_Ok_iff by (auto split: prod.splits)
  have d: "dc_denom ret = ask" by (rule ComputeSwap_Ok(2) [OF S(1,2) cs])
  obtain fee where fdc: "fdc = \<lparr>dc_denom = ask, dc_amount = fee\<rparr>" "0 \<le> fee" "denom_valid S ask"
    and nf: "if 0 < spread then dec_mul S spread (dc_amount ret) = Ok fee else fee = 0"
    using f d by (auto simp: new_dec_coinI [OF S(2)] split: if_splits)
  have "fee_of spread (dc_amount ret) fee"
    using nf fdc(2) dec_mulD [OF S(1)] by (auto simp: fee_of_def split: if_splits)
  moreover have "a = dc_amount ret - fee" using a fdc(1) by (simp add: dec_subI [OF S(1)])
  ultimately show thesis using that cs d nf a m' s fdc by (auto split: if_splits)
qed

lemma ApplySwapToPool_Ok:
  assumes S: "dec_laws S" and a: "ApplySwapToPool S rate offer c m = Ok m'"
  shows "mk_params m' = mk_params m"
    "coin_denom offer \<noteq> MicroLunaDenom \<Longrightarrow> dc_denom c \<noteq> MicroLunaDenom \<Longrightarrow> m' = m"
    "coin_denom offer \<noteq> MicroLunaDenom \<Longrightarrow> dc_denom c = MicroLunaDenom \<Longrightarrow>
       \<exists>o' base. dec_coin_of_coin S offer = Ok o' \<and> ComputeInternalSwap S rate o' MicroSDRDenom = Ok base
         \<and> GetTerraPoolDelta m' = GetTerraPoolDelta m + dc_amount base"
    "coin_denom offer = MicroLunaDenom \<Longrightarrow> dc_denom c \<noteq> MicroLunaDenom \<Longrightarrow>
       \<exists>base. ComputeInternalSwap S rate c MicroSDRDenom = Ok base
         \<and> GetTerraPoolDelta m' = GetTerraPoolDelta m - dc_amount base"
  using a by (auto simp: ApplySwapToPool_def SetTerraPoolDelta_def GetTerraPoolDelta_def dec_exact [OF S] Let_def
      split: if_splits)

section \<open>Properties\<close>

text \<open>
  C2: a swap moves exactly what it says. When a swap succeeds the trader loses the offered coin,
  which is burned, the receiver gets the swap coin and the oracle account the fee, both newly
  minted; every other balance stays, the supplies change by exactly these amounts, and swap coin and
  fee together are the integer part of the computed amount, so rounding loses less than one unit.
  The Terra pool delta grows by the offer's value when Terra is sold for Luna, shrinks by the value
  paid out when Luna is sold, and stays otherwise.
\<close>

theorem swap_conserves:
  assumes S: "dec_laws S" "coin_laws S" "coin_op_laws S" "bank_laws B"
    and h: "handleSwapRequest S B (GetLunaExchangeRate k) (GetTobinTax k) c trader receiver offer ask (m, b)
      = Ok ((sc, fc), (m', b'))"
  shows "swap_moves B trader receiver offer sc fc b b' \<and> coin_denom sc = ask \<and> coin_denom fc = ask
    \<and> 0 \<le> coin_amount sc \<and> 0 \<le> coin_amount fc \<and> 0 \<le> coin_amount offer
    \<and> (\<exists>ret spread fee. ComputeSwap S (GetLunaExchangeRate k) (GetTobinTax k) m offer ask = Ok (ret, spread)
        \<and> fee_of spread (dc_amount ret) fee
        \<and> coin_amount sc = (dc_amount ret - fee) div one_dec
        \<and> coin_amount sc + coin_amount fc = dc_amount ret div one_dec
        \<and> (coin_denom offer \<noteq> MicroLunaDenom \<and> ask \<noteq> MicroLunaDenom \<longrightarrow> m' = m)
        \<and> (coin_denom offer \<noteq> MicroLunaDenom \<and> ask = MicroLunaDenom \<longrightarrow>
            (\<exists>o' base. dec_coin_of_coin S offer = Ok o'
               \<and> ComputeInternalSwap S (GetLunaExchangeRate k) o' MicroSDRDenom = Ok base
               \<and> GetTerraPoolDelta m' = GetTerraPoolDelta m + dc_amount base))
        \<and> (coin_denom offer = MicroLunaDenom \<and> ask \<noteq> MicroLunaDenom \<longrightarrow>
            (\<exists>base. ComputeInternalSwap S (GetLunaExchangeRate k) (ret\<lparr>dc_amount := dc_amount ret - fee\<rparr>) MicroSDRDenom = Ok base
               \<and> GetTerraPoolDelta m' = GetTerraPoolDelta m - dc_amount base)))"
proof -
  obtain ret spread fee where
    cs: "ComputeSwap S (GetLunaExchangeRate k) (GetTobinTax k) m offer ask = Ok (ret, spread)" and d: "dc_denom ret = ask" and
    f: "fee_of spread (dc_amount ret) fee" and
    m': "ApplySwapToPool S (GetLunaExchangeRate k) offer (ret\<lparr>dc_amount := dc_amount ret - fee\<rparr>) m = Ok m'" and
    s: "settle_swap S B c trader receiver offer (ret\<lparr>dc_amount := dc_amount ret - fee\<rparr>)
       \<lparr>dc_denom = ask, dc_amount = fee\<rparr> b = Ok ((sc, fc), b')"
    by (rule handle_stages [OF S h])
  have f0: "0 \<le> fee" using f by (simp add: fee_of_def)
  note st = settle_swap_Ok [OF S(1,3,4) _ _ s]
  have "swap_moves B trader receiver offer sc fc b b' \<and> coin_denom sc = ask \<and> coin_denom fc = ask
    \<and> 0 \<le> coin_amount sc \<and> 0 \<le> coin_amount fc \<and> 0 \<le> coin_amount offer"
    using st d f0 by simp
  moreover have "coin_amount sc = (dc_amount ret - fee) div one_dec"
    "coin_amount sc + coin_amount fc = dc_amount ret div one_dec" using st(1,6) d f0 by simp_all
  ultimately show ?thesis using cs f ApplySwapToPool_Ok(2-4) [OF S(1) m'] d by fastforce
qed

definition swap_oracle :: oracle_state where
  "swap_oracle = \<lparr>or_rates = [(''usdr'', one_dec), (''ukrw'', 3 * one_dec)], or_feeders = [], or_miss = [], or_prevotes = [],
     or_votes = [], or_tobin = [(''usdr'', 0), (''ukrw'', 2 * 10 ^ 16)],
     or_params = undefined\<rparr>"

definition swap_market :: market_state where
  "swap_market = \<lparr>mk_delta = None, mk_params = market_DefaultParams\<rparr>"

definition swap_bank :: ref_bank where
  "swap_bank = ([(Acc ''a'', [\<lparr>coin_denom = ''usdr'', coin_amount = 100\<rparr>])], \<lambda>d. 1000)"

definition swap_ctx :: ctx where
  "swap_ctx = \<lparr>ctx_height = 8000000, ctx_chain = ColumbusChainID\<rparr>"

lemma sample_compute:
  "ComputeSwap sdk_ref (GetLunaExchangeRate swap_oracle) (GetTobinTax swap_oracle) swap_market
     \<lparr>coin_denom = ''usdr'', coin_amount = 40\<rparr> ''ukrw'' = Ok (\<lparr>dc_denom = ''ukrw'', dc_amount = 120 * one_dec\<rparr>, 2 * 10 ^ 16)"
  by (simp add: ComputeSwap_def dec_coin_of_coin_def ComputeInternalSwap_def GetLunaExchangeRate_def GetTobinTax_def
    swap_oracle_def MicroSDRDenom_def MicroLunaDenom_def ref_eval)

lemma sample_settle:
  "\<exists>b'. settle_swap sdk_ref bank_ref swap_ctx ''a'' ''b'' \<lparr>coin_denom = ''usdr'', coin_amount = 40\<rparr>
    \<lparr>dc_denom = ''ukrw'', dc_amount = 117600000000000000000\<rparr> \<lparr>dc_denom = ''ukrw'', dc_amount = 2400000000000000000\<rparr> swap_bank
   = Ok ((\<lparr>coin_denom = ''ukrw'', coin_amount = 117\<rparr>, \<lparr>coin_denom = ''ukrw'', coin_amount = 3\<rparr>), b')"
  by (simp add: settle_swap_def coin_op_eval ref_eval coins_eval bank_eval swap_bank_def)


lemma sample_swap:
  "\<exists>b'. handleSwapRequest sdk_ref bank_ref (GetLunaExchangeRate swap_oracle) (GetTobinTax swap_oracle) swap_ctx
      ''a'' ''b'' \<lparr>coin_denom = ''usdr'', coin_amount = 40\<rparr> ''ukrw'' (swap_market, swap_bank)
    = Ok ((\<lparr>coin_denom = ''ukrw'', coin_amount = 117\<rparr>, \<lparr>coin_denom = ''ukrw'', coin_amount = 3\<rparr>), (swap_market, b'))"
proof -
  obtain b' where "settle_swap sdk_ref bank_ref swap_ctx ''a'' ''b'' \<lparr>coin_denom = ''usdr'', coin_amount = 40\<rparr>
    \<lparr>dc_denom = ''ukrw'', dc_amount = 117600000000000000000\<rparr> \<lparr>dc_denom = ''ukrw'', dc_amount = 2400000000000000000\<rparr> swap_bank
   = Ok ((\<lparr>coin_denom = ''ukrw'', coin_amount = 117\<rparr>, \<lparr>coin_denom = ''ukrw'', coin_amount = 3\<rparr>), b')"
    using sample_settle by blast
  then show ?thesis
    by (simp add: handleSwapRequest_def sample_compute ApplySwapToPool_def MicroLunaDenom_def ref_eval)
qed

theorem swap_conserves_witness:
  "\<exists>b'. swap_moves bank_ref ''a'' ''b'' \<lparr>coin_denom = ''usdr'', coin_amount = 40\<rparr> \<lparr>coin_denom = ''ukrw'', coin_amount = 117\<rparr>
    \<lparr>coin_denom = ''ukrw'', coin_amount = 3\<rparr> swap_bank b'"
proof -
  obtain b' where "handleSwapRequest sdk_ref bank_ref (GetLunaExchangeRate swap_oracle) (GetTobinTax swap_oracle) swap_ctx
      ''a'' ''b'' \<lparr>coin_denom = ''usdr'', coin_amount = 40\<rparr> ''ukrw'' (swap_market, swap_bank)
    = Ok ((\<lparr>coin_denom = ''ukrw'', coin_amount = 117\<rparr>, \<lparr>coin_denom = ''ukrw'', coin_amount = 3\<rparr>), (swap_market, b'))"
    using sample_swap by blast
  from swap_conserves [OF _ _ _ _ this] have "swap_moves bank_ref ''a'' ''b'' \<lparr>coin_denom = ''usdr'', coin_amount = 40\<rparr>
    \<lparr>coin_denom = ''ukrw'', coin_amount = 117\<rparr> \<lparr>coin_denom = ''ukrw'', coin_amount = 3\<rparr> swap_bank b'" by simp
  then show ?thesis ..
qed

text \<open>
  C26: the swap a query simulates is the swap that is executed: when a swap of an offer of at most 100
  bits succeeds, the simulation at the same state returns exactly the coin that the receiver gets.
\<close>

theorem simulate_matches:
  assumes S: "dec_laws S" "coin_laws S" "coin_op_laws S" "bank_laws B"
    and b: "bit_len (coin_amount offer) \<le> 100"
    and h: "handleSwapRequest S B (GetLunaExchangeRate k) (GetTobinTax k) c trader receiver offer ask (m, b)
      = Ok ((sc, fc), w)"
  shows "simulateSwap S (GetLunaExchangeRate k) (GetTobinTax k) m offer ask = Ok sc"
proof -
  obtain m' b' where w: "w = (m', b')" by (cases w)
  obtain ret spread fee where
    cs: "ComputeSwap S (GetLunaExchangeRate k) (GetTobinTax k) m offer ask = Ok (ret, spread)" and d: "dc_denom ret = ask" and
    f: "fee_of spread (dc_amount ret) fee" "dec_mul S spread (dc_amount ret) = Ok fee \<or> spread \<le> 0" and
    dv: "dec_sub S (dc_amount ret) fee = Ok (dc_amount ret - fee)" "denom_valid S ask" and
    s: "settle_swap S B c trader receiver offer (ret\<lparr>dc_amount := dc_amount ret - fee\<rparr>)
       \<lparr>dc_denom = ask, dc_amount = fee\<rparr> b = Ok ((sc, fc), b')"
    by (rule handle_stages [OF S h [unfolded w]])
  obtain dc where t: "dec_coin_trunc S (ret\<lparr>dc_amount := dc_amount ret - fee\<rparr>) = Ok (sc, dc)"
    by (rule settle_swap_stages [OF s])
  then have nn: "0 \<le> dc_amount ret - fee" by (auto simp: dec_coin_truncI [OF S(3)] split: if_splits)
  have e: "ret\<lparr>dc_amount := dc_amount ret - fee\<rparr> = \<lparr>dc_denom = ask, dc_amount = dc_amount ret - fee\<rparr>"
    using d by (cases ret) simp
  have "ask \<noteq> coin_denom offer" using ComputeSwap_Ok(1) [OF S(1,2) cs] by simp
  moreover have "ret\<lparr>dc_amount := dc_amount ret\<rparr> = ret" by simp
  ultimately show ?thesis
    using b cs f t dv d nn e
    by (cases "fee = 0"; cases "0 < spread")
       (auto simp: simulateSwap_def fee_of_def new_dec_coinI [OF S(2)] dec_coin_subI [OF S(3)])
qed

theorem simulate_matches_witness:
  "simulateSwap sdk_ref (GetLunaExchangeRate swap_oracle) (GetTobinTax swap_oracle) swap_market
    \<lparr>coin_denom = ''usdr'', coin_amount = 40\<rparr> ''ukrw'' = Ok \<lparr>coin_denom = ''ukrw'', coin_amount = 117\<rparr>"
proof -
  obtain b' where "handleSwapRequest sdk_ref bank_ref (GetLunaExchangeRate swap_oracle) (GetTobinTax swap_oracle) swap_ctx
      ''a'' ''b'' \<lparr>coin_denom = ''usdr'', coin_amount = 40\<rparr> ''ukrw'' (swap_market, swap_bank)
    = Ok ((\<lparr>coin_denom = ''ukrw'', coin_amount = 117\<rparr>, \<lparr>coin_denom = ''ukrw'', coin_amount = 3\<rparr>), (swap_market, b'))"
    using sample_swap by blast
  from simulate_matches [OF _ _ _ _ _ this] show ?thesis by (simp add: bit_len_le_iff)
qed

lemma nearest_oneD: "nearest q n one_dec \<Longrightarrow> 2 * n \<le> 2 * (q * one_dec) + one_dec"
  using one_dec_pos(1) abs_ge_minus_self [of "q * one_dec - n"] by (simp add: nearest_def)

text \<open>
  the fork that disables swaps does. On the main chain from the fork height on, with the minimum
  spread at one, every swap with Luna on one side fails, whatever the pools and prices are.
\<close>

theorem swap_disabled:
  assumes S: "dec_laws S" "coin_laws S" "coin_op_laws S" "bank_laws B"
    and c: "ctx_chain c = ColumbusChainID" "SwapDisableForkHeight \<le> ctx_height c"
    and p: "MinStabilitySpread (mk_params m) = one_dec"
    and l: "coin_denom offer = MicroLunaDenom \<or> ask = MicroLunaDenom"
  shows "handleSwapRequest S B (GetLunaExchangeRate k) (GetTobinTax k) c trader receiver offer ask (m, b) \<noteq> Ok r"
proof
  obtain sc fc m' b' where r: "r = ((sc, fc), (m', b'))" by (metis prod.exhaust)
  assume h: "handleSwapRequest S B (GetLunaExchangeRate k) (GetTobinTax k) c trader receiver offer ask (m, b) = Ok r"
  obtain ret spread fee where
    cs: "ComputeSwap S (GetLunaExchangeRate k) (GetTobinTax k) m offer ask = Ok (ret, spread)" and
    f: "fee_of spread (dc_amount ret) fee" and
    s: "settle_swap S B c trader receiver offer (ret\<lparr>dc_amount := dc_amount ret - fee\<rparr>)
       \<lparr>dc_denom = ask, dc_amount = fee\<rparr> b = Ok ((sc, fc), b')"
    by (rule handle_stages [OF S h [unfolded r]])
  obtain dc where t: "dec_coin_trunc S (ret\<lparr>dc_amount := dc_amount ret - fee\<rparr>) = Ok (sc, dc)"
    by (rule settle_swap_stages [OF s])
  note t' = dec_coin_trunc_Ok [OF S(1,3) t]
  have nn: "0 \<le> dc_amount ret - fee" using t by (auto simp: dec_coin_truncI [OF S(3)] split: if_splits)
  have one: "one_dec \<le> spread" using ComputeSwap_Ok(5) [OF S(1,2) cs l] p by simp
  then have "0 < spread" using one_dec_pos by linarith
  then have n: "nearest fee (spread * dc_amount ret) one_dec" and f0: "0 \<le> fee"
    using f by (simp_all add: fee_of_def)
  have "one_dec * dc_amount ret \<le> spread * dc_amount ret" using one nn f0 by (intro mult_right_mono) auto
  then have "2 * (one_dec * dc_amount ret) \<le> 2 * (fee * one_dec) + one_dec"
    using nearest_oneD [OF n] by simp
  then have "2 * (dc_amount ret - fee) * one_dec \<le> 1 * one_dec" by (simp add: algebra_simps)
  then have "2 * (dc_amount ret - fee) \<le> 1" by (rule mult_right_le_imp_le) simp
  then have "dc_amount ret - fee = 0" using nn by presburger
  then have "coin_amount sc = 0" using t'(1) by simp
  with s c t show False by (auto simp: settle_swap_def)
qed

theorem swap_disabled_witness:
  "\<not> (\<exists>r. handleSwapRequest sdk_ref bank_ref (GetLunaExchangeRate swap_oracle) (GetTobinTax swap_oracle) swap_ctx
      ''a'' ''b'' \<lparr>coin_denom = ''uluna'', coin_amount = 40\<rparr> ''ukrw''
      (swap_market\<lparr>mk_params := market_DefaultParams\<lparr>MinStabilitySpread := one_dec\<rparr>\<rparr>, swap_bank) = Ok r)"
  using swap_disabled [of sdk_ref bank_ref swap_ctx "swap_market\<lparr>mk_params := market_DefaultParams\<lparr>MinStabilitySpread := one_dec\<rparr>\<rparr>"
    "\<lparr>coin_denom = ''uluna'', coin_amount = 40\<rparr>" "''ukrw''" swap_oracle "''a''" "''b''" swap_bank]
  by (auto simp: swap_ctx_def SwapDisableForkHeight_def MicroLunaDenom_def)


text \<open>Blocks without a swap.\<close>

fun market_blocks :: "sdk \<Rightarrow> nat \<Rightarrow> market_state \<Rightarrow> market_state outcome" where
  "market_blocks S 0 m = Ok m"
| "market_blocks S (Suc n) m = andThen (market_EndBlocker S m) (market_blocks S n)"

lemma abs_minus_sdiv: "0 < p \<Longrightarrow> \<bar>x - x sdiv p\<bar> = \<bar>x\<bar> - \<bar>x\<bar> div p \<and> 0 \<le> (x - x sdiv p) * x" for x p :: int
proof -
  assume p: "0 < p"
  have le: "0 \<le> \<bar>x\<bar> div p" "\<bar>x\<bar> div p \<le> \<bar>x\<bar>"
    using p by (simp_all add: pos_imp_zdiv_nonneg_iff) (metis abs_ge_zero div_by_1 less_le_not_le pos_imp_zdiv_nonneg_iff zdiv_mono2 zless_imp_add1_zle add_0 zero_less_one)
  have "x sdiv p = sgn x * (\<bar>x\<bar> div p)" using p by (simp add: signed_divide_int_def)
  then show ?thesis using le by (cases "x < 0"; cases "x = 0") (auto simp: sgn_if mult_nonneg_nonneg mult_nonpos_nonpos)
qed

lemma EndBlocker_step:
  assumes S: "dec_laws S" and p: "PoolRecoveryPeriod (mk_params m) = p" "0 < p" "p < 2 ^ 63"
    and b: "bit_len (GetTerraPoolDelta m) \<le> dec_bits S"
  obtains m' where "market_EndBlocker S m = Ok m'" "mk_params m' = mk_params m"
    "\<bar>GetTerraPoolDelta m'\<bar> = \<bar>GetTerraPoolDelta m\<bar> - \<bar>GetTerraPoolDelta m\<bar> div uint p"
    "0 \<le> GetTerraPoolDelta m' * GetTerraPoolDelta m" "bit_len (GetTerraPoolDelta m') \<le> dec_bits S"
proof -
  let ?d = "GetTerraPoolDelta m"
  have q: "0 < uint p" using p(2) by (simp add: word_gt_0 word_less_def)
  have "uint p < 2 ^ 63" using p(3) by (simp add: word_less_def)
  then have sp: "sint p = uint p" by (rule sint_small)
  note a = abs_minus_sdiv [OF q, of ?d]
  have le: "\<bar>?d - ?d sdiv uint p\<bar> \<le> \<bar>?d\<bar>" using a q by (simp add: pos_imp_zdiv_nonneg_iff)
  then have bl: "bit_len (?d - ?d sdiv uint p) \<le> dec_bits S" using b by (simp add: bit_len_le_iff)
  then have "market_EndBlocker S m = Ok (SetTerraPoolDelta (?d - ?d sdiv uint p) m)"
    using q by (simp add: market_EndBlocker_def ReplenishPools_def p(1) sp dec_exact [OF S] chk_def Let_def)
  moreover have "GetTerraPoolDelta (SetTerraPoolDelta x m) = x" "mk_params (SetTerraPoolDelta x m) = mk_params m" for x
    by (simp_all add: SetTerraPoolDelta_def GetTerraPoolDelta_def)
  ultimately show thesis using a bl that by metis
qed

text \<open>The size of the delta after some blocks, and when it falls below the period.\<close>

definition recovered :: "int \<Rightarrow> nat \<Rightarrow> int \<Rightarrow> int" where
  "recovered p n x = ((\<lambda>y. y - y div p) ^^ n) x"

lemma recovered_0 [simp]: "recovered p 0 x = x"
  by (simp add: recovered_def)

lemma recovered_Suc: "recovered p (Suc n) x = recovered p n (x - x div p)"
  unfolding recovered_def funpow_Suc_right by simp

lemma recovered_bounds:
  assumes "0 < p" "0 \<le> x"
  shows "0 \<le> recovered p n x \<and> recovered p n x \<le> x \<and> (nat x \<le> n \<longrightarrow> recovered p n x < p)"
  using assms(2)
proof (induction n arbitrary: x)
  case (Suc n)
  have le: "0 \<le> x div p" "x div p \<le> x"
    using assms(1) Suc.prems by (simp_all add: pos_imp_zdiv_nonneg_iff) (metis div_by_1 less_le_not_le zdiv_mono2 zless_imp_add1_zle add_0 zero_less_one)
  note IH = Suc.IH [of "x - x div p"]
  have "recovered p (Suc n) x < p" if "nat x \<le> Suc n"
  proof (cases "x < p")
    case True
    with le IH show ?thesis by (simp add: recovered_Suc)
  next
    case False
    then have "1 \<le> x div p" using assms(1) zdiv_mono1 [of p x p] by simp
    then have "nat (x - x div p) \<le> n" using that by linarith
    with le IH show ?thesis by (simp add: recovered_Suc)
  qed
  with le IH show ?case by (simp add: recovered_Suc)
qed (use assms in auto)

lemma market_blocks_delta:
  assumes S: "dec_laws S" and p: "PoolRecoveryPeriod (mk_params m) = p" "0 < p" "p < 2 ^ 63"
    and b: "bit_len (GetTerraPoolDelta m) \<le> dec_bits S"
  shows "\<exists>m'. market_blocks S n m = Ok m' \<and> mk_params m' = mk_params m
    \<and> \<bar>GetTerraPoolDelta m'\<bar> = recovered (uint p) n \<bar>GetTerraPoolDelta m\<bar>
    \<and> 0 \<le> GetTerraPoolDelta m' * GetTerraPoolDelta m"
  using p(1) b
proof (induction n arbitrary: m)
  case (Suc n)
  obtain m1 where m1: "market_EndBlocker S m = Ok m1" "mk_params m1 = mk_params m"
    "\<bar>GetTerraPoolDelta m1\<bar> = \<bar>GetTerraPoolDelta m\<bar> - \<bar>GetTerraPoolDelta m\<bar> div uint p"
    "0 \<le> GetTerraPoolDelta m1 * GetTerraPoolDelta m" "bit_len (GetTerraPoolDelta m1) \<le> dec_bits S"
    by (rule EndBlocker_step [OF S Suc.prems(1) p(2,3) Suc.prems(2)])
  obtain m' where m': "market_blocks S n m1 = Ok m'" "mk_params m' = mk_params m1"
    "\<bar>GetTerraPoolDelta m'\<bar> = recovered (uint p) n \<bar>GetTerraPoolDelta m1\<bar>"
    "0 \<le> GetTerraPoolDelta m' * GetTerraPoolDelta m1"
    using Suc.IH [of m1] Suc.prems(1) m1(2,5) by auto
  have q: "0 < uint p" using p(2) by (simp add: word_gt_0 word_less_def)
  have z: "\<bar>GetTerraPoolDelta m'\<bar> \<le> \<bar>GetTerraPoolDelta m1\<bar>" using recovered_bounds [OF q] m'(3) by simp
  have "0 \<le> GetTerraPoolDelta m' * GetTerraPoolDelta m"
    using m'(4) m1(4) z by (cases "GetTerraPoolDelta m1 = 0") (auto simp: zero_le_mult_iff)
  with m1 m' show ?case by (simp add: recovered_Suc)
qed simp

text \<open>
  C27: the pools recover. With a recovery period of at least one block that fits a signed integer and
  a delta that fits a decimal, after any number of blocks without swaps the end blocker has never
  panicked and does not panic, and it shortens the delta by its quotient by the period: the delta never
  grows and never changes its sign. Once as many blocks have passed as the delta has smallest units, and
  from then on, the delta is smaller than the period counted in these units.
\<close>

theorem pools_recover:
  assumes S: "dec_laws S" and p: "0 < PoolRecoveryPeriod (mk_params m)" "PoolRecoveryPeriod (mk_params m) < 2 ^ 63"
    and b: "bit_len (GetTerraPoolDelta m) \<le> dec_bits S"
  shows "\<exists>m' m''. market_blocks S n m = Ok m' \<and> market_EndBlocker S m' = Ok m'' \<and> mk_params m'' = mk_params m
    \<and> \<bar>GetTerraPoolDelta m''\<bar> = \<bar>GetTerraPoolDelta m'\<bar> - \<bar>GetTerraPoolDelta m'\<bar> div uint (PoolRecoveryPeriod (mk_params m))
    \<and> 0 \<le> GetTerraPoolDelta m'' * GetTerraPoolDelta m'
    \<and> (\<bar>GetTerraPoolDelta m\<bar> \<le> int n \<longrightarrow> \<bar>GetTerraPoolDelta m'\<bar> < uint (PoolRecoveryPeriod (mk_params m)))"
proof -
  let ?p = "PoolRecoveryPeriod (mk_params m)" let ?d = "\<bar>GetTerraPoolDelta m\<bar>"
  have q: "0 < uint ?p" using p(1) by (simp add: word_gt_0 word_less_def)
  obtain m' where m': "market_blocks S n m = Ok m'" "mk_params m' = mk_params m"
    "\<bar>GetTerraPoolDelta m'\<bar> = recovered (uint ?p) n ?d"
    using market_blocks_delta [OF S refl p b] by blast
  have r: "recovered (uint ?p) n ?d \<le> ?d" "?d \<le> int n \<longrightarrow> recovered (uint ?p) n ?d < uint ?p"
    using recovered_bounds [OF q, of ?d n] by auto
  have bl: "bit_len (GetTerraPoolDelta m') \<le> dec_bits S"
    using b r(1) m'(3) by (simp add: bit_len_le_iff)
  obtain m'' where "market_EndBlocker S m' = Ok m''" "mk_params m'' = mk_params m'"
    "\<bar>GetTerraPoolDelta m''\<bar> = \<bar>GetTerraPoolDelta m'\<bar> - \<bar>GetTerraPoolDelta m'\<bar> div uint ?p"
    "0 \<le> GetTerraPoolDelta m'' * GetTerraPoolDelta m'"
    using EndBlocker_step [OF S _ p bl] m'(2) by metis
  with m' r show ?thesis by auto
qed

theorem pools_recover_witness:
  "\<exists>m' m''. market_blocks sdk_ref (10 ^ 24) (SetTerraPoolDelta (10 ^ 24) swap_market) = Ok m'
    \<and> \<bar>GetTerraPoolDelta m'\<bar> < 14400 \<and> market_EndBlocker sdk_ref m' = Ok m''
    \<and> \<bar>GetTerraPoolDelta m''\<bar> = \<bar>GetTerraPoolDelta m'\<bar> - \<bar>GetTerraPoolDelta m'\<bar> div 14400"
  using pools_recover [of sdk_ref "SetTerraPoolDelta (10 ^ 24) swap_market" "10 ^ 24"]
  by (auto simp: SetTerraPoolDelta_def GetTerraPoolDelta_def swap_market_def market_DefaultParams_def blocks_defs
    bit_len_le_iff)

text \<open>
  C34: the price of a swap. Between two denoms with positive oracle rates below 2^90 and an amount
  below 2^160 units, the internal swap computes an amount whose ratio to the offer is the ratio of the
  two rates, up to one unit of rounding in the quotient and half a unit in the product. It pays that
  amount of the asked denom, and refuses the swap exactly when the amount is zero, which an offer worth
  more than one unit and the rounding never gives; it does not panic.
\<close>

theorem swap_price:
  assumes S: "dec_laws S" "coin_laws S" and d: "dc_denom offer \<noteq> ask" "denom_valid S ask"
    and r: "GetLunaExchangeRate k (dc_denom offer) = Ok ro" "GetLunaExchangeRate k ask = Ok ra"
    and p: "0 < ro" "ro < 2 ^ 90" "0 < ra" "ra < 2 ^ 90" and a: "0 \<le> dc_amount offer" "dc_amount offer < 2 ^ 160"
  shows "\<exists>q. 0 \<le> q \<and> 2 * \<bar>q * ro - dc_amount offer * ra\<bar> \<le> 2 * ro + one_dec
    \<and> (2 * ro + one_dec < 2 * dc_amount offer * ra \<longrightarrow> 0 < q)
    \<and> ComputeInternalSwap S (GetLunaExchangeRate k) offer ask
      = (if q = 0 then Err ErrInvalidCoins else Ok \<lparr>dc_denom = ask, dc_amount = q\<rparr>)"
proof -
  obtain q where q: "0 \<le> q" "2 * \<bar>q * ro - dc_amount offer * ra\<bar> \<le> 2 * ro + one_dec"
    "ComputeInternalSwap S (GetLunaExchangeRate k) offer ask
      = (if q = 0 then Err ErrInvalidCoins else Ok \<lparr>dc_denom = ask, dc_amount = q\<rparr>)"
    using oracle_rates.internal_swap_known [OF S d r p a] by blast
  moreover have "0 < q" if "2 * ro + one_dec < 2 * dc_amount offer * ra"
    using that q(1,2) a p by (cases "q = 0") auto
  ultimately show ?thesis by blast
qed

theorem swap_price_witness:
  "\<exists>q. 0 < q \<and> ComputeInternalSwap sdk_ref (GetLunaExchangeRate swap_oracle) \<lparr>dc_denom = ''uluna'', dc_amount = 5 * one_dec\<rparr> ''ukrw''
          = Ok \<lparr>dc_denom = ''ukrw'', dc_amount = q\<rparr>
        \<and> 2 * \<bar>q * one_dec - 5 * one_dec * (3 * one_dec)\<bar> \<le> 2 * one_dec + one_dec"
proof -
  obtain q where "2 * \<bar>q * one_dec - 5 * one_dec * (3 * one_dec)\<bar> \<le> 2 * one_dec + one_dec"
    "2 * one_dec + one_dec < 2 * (5 * one_dec) * (3 * one_dec) \<longrightarrow> 0 < q"
    "ComputeInternalSwap sdk_ref (GetLunaExchangeRate swap_oracle) \<lparr>dc_denom = ''uluna'', dc_amount = 5 * one_dec\<rparr> ''ukrw''
      = (if q = 0 then Err ErrInvalidCoins else Ok \<lparr>dc_denom = ''ukrw'', dc_amount = q\<rparr>)"
    using swap_price [of sdk_ref "\<lparr>dc_denom = ''uluna'', dc_amount = 5 * one_dec\<rparr>" "''ukrw''" swap_oracle one_dec "3 * one_dec"]
    by (auto simp: GetLunaExchangeRate_def swap_oracle_def MicroLunaDenom_def one_dec_def)
  moreover have "2 * one_dec + one_dec < 2 * (5 * one_dec) * (3 * one_dec)" by (simp add: one_dec_def)
  ultimately show ?thesis by (intro exI [of _ q]) auto
qed

text \<open>
  a market message that a contract sends is well-formed and its own. Whatever the contract wrote
  into the message, a parsed message passes the basic checks, offers a positive amount of at most
  100 bits for another denom, and the account that pays is the contract.
\<close>

theorem contract_message_valid:
  assumes a: "addr_laws S" "length contract = 20" and p: "market_ParseCustom S contract decoded = Ok msg"
  shows "case msg of
      MsgSwap m \<Rightarrow> MsgSwap_ValidateBasic S m = Ok () \<and> acc_of_bech32 S (ms_trader m) = Ok contract
        \<and> 0 < coin_amount (ms_offer m) \<and> bit_len (coin_amount (ms_offer m)) \<le> 100 \<and> coin_denom (ms_offer m) \<noteq> ms_ask m
    | MsgSwapSend m \<Rightarrow> MsgSwapSend_ValidateBasic S m = Ok () \<and> acc_of_bech32 S (mss_from m) = Ok contract
        \<and> 0 < coin_amount (mss_offer m) \<and> bit_len (coin_amount (mss_offer m)) \<le> 100 \<and> coin_denom (mss_offer m) \<noteq> mss_ask m"
proof -
  have b: "acc_of_bech32 S (acc_bech32 S contract) = Ok contract" using a unfolding addr_laws_def by blast
  have swap: "0 < coin_amount (ms_offer m) \<and> bit_len (coin_amount (ms_offer m)) \<le> 100 \<and> coin_denom (ms_offer m) \<noteq> ms_ask m"
    if "MsgSwap_ValidateBasic S m = Ok ()" for m
    using that by (auto simp: MsgSwap_ValidateBasic_def not_le split: if_splits)
  have send: "0 < coin_amount (mss_offer m) \<and> bit_len (coin_amount (mss_offer m)) \<le> 100 \<and> coin_denom (mss_offer m) \<noteq> mss_ask m"
    if "MsgSwapSend_ValidateBasic S m = Ok ()" for m
    using that by (auto simp: MsgSwapSend_ValidateBasic_def not_le split: if_splits)
  from p consider m where "msg = MsgSwap m" "MsgSwap_ValidateBasic S m = Ok ()" "ms_trader m = acc_bech32 S contract"
    | m where "msg = MsgSwapSend m" "MsgSwapSend_ValidateBasic S m = Ok ()" "mss_from m = acc_bech32 S contract"
    by (auto simp: market_ParseCustom_def Let_def split: option.splits)
  then show ?thesis
  proof cases
    case (1 m)
    with swap [OF 1(2)] b show ?thesis by simp
  next
    case (2 m)
    with send [OF 2(2)] b show ?thesis by simp
  qed
qed

theorem contract_message_valid_witness:
  "acc_of_bech32 sdk_ref (acc_bech32 sdk_ref ''cccccccccccccccccccc'') = Ok ''cccccccccccccccccccc''"
proof -
  let ?m = "\<lparr>ms_trader = ''someone else'', ms_offer = \<lparr>coin_denom = ''uluna'', coin_amount = 5\<rparr>, ms_ask = ''ukrw''\<rparr>"
  have "market_ParseCustom sdk_ref ''cccccccccccccccccccc'' (Ok \<lparr>cm_swap = Some ?m, cm_swap_send = None\<rparr>)
    = Ok (MsgSwap (?m\<lparr>ms_trader := acc_bech32 sdk_ref ''cccccccccccccccccccc''\<rparr>))"
    by (simp add: market_ParseCustom_def MsgSwap_ValidateBasic_def not_less bit_len_le_iff Let_def)
  from contract_message_valid [OF _ _ this] show ?thesis by simp
qed

end
