(* ===== verification/Treasury.thy ===== *)
theory Treasury
  imports Market
begin

text \<open>
  The treasury module: \<open>src/x/treasury/keeper/keeper.go\<close> (store), \<open>keeper/indicator.go\<close> (economic
  indicators), \<open>keeper/policy.go\<close> and \<open>types/constraint.go\<close> (tax rate, reward weight, tax caps),
  \<open>keeper/seigniorage.go\<close>, \<open>keeper/burn_account.go\<close>, \<open>abci.go\<close>, \<open>genesis.go\<close> and \<open>types/params.go\<close>.
  The bank, market, oracle and staking keepers that the module calls are the record \<open>treasury_env\<close>.
\<close>

record policy_constraints =
  RateMin :: dec
  RateMax :: dec
  Cap :: coin
  ChangeRateMax :: dec

record treasury_params =
  TaxPolicy :: policy_constraints
  RewardPolicy :: policy_constraints
  SeigniorageBurdenTarget :: dec
  MiningIncrement :: dec
  WindowShort :: u64
  WindowLong :: u64
  WindowProbation :: u64

record treasury_state =
  ts_tax_rate :: "dec option"
  ts_reward_weight :: "dec option"
  ts_tax_caps :: "(denom, int) gomap"
  ts_proceeds :: "coins option"
  ts_issuance :: "coins option"
  ts_TR :: "(int, dec) gomap"
  ts_SR :: "(int, dec) gomap"
  ts_TSL :: "(int, int) gomap"
  ts_params :: treasury_params

text \<open>The keepers of other modules, and the state they share with the treasury.\<close>

record 'b treasury_env =
  te_bank :: "'b bank"
  te_swap :: "dec_coin \<Rightarrow> denom \<Rightarrow> dec_coin outcome"
  te_whitelist :: "denom_item list"
  te_bonded :: int
  te_distribution :: string

record 'b treasury_world =
  tw_state :: treasury_state
  tw_bank :: 'b
  tw_pool :: dec_coins

definition treasury_name :: string where
  "treasury_name = ''treasury''"

definition burn_name :: string where
  "burn_name = ''burn''"


section \<open>Parameters\<close>

definition DefaultTaxPolicy :: policy_constraints where
  "DefaultTaxPolicy = \<lparr>RateMin = 5 * 10 ^ 14, RateMax = 10 ^ 16,
     Cap = \<lparr>coin_denom = MicroSDRDenom, coin_amount = MicroUnit\<rparr>, ChangeRateMax = 25 * 10 ^ 13\<rparr>"

definition DefaultRewardPolicy :: policy_constraints where
  "DefaultRewardPolicy = \<lparr>RateMin = 5 * 10 ^ 16, RateMax = 50 * 10 ^ 16,
     Cap = \<lparr>coin_denom = ''unused'', coin_amount = 0\<rparr>, ChangeRateMax = 25 * 10 ^ 15\<rparr>"

definition DefaultTaxRate :: dec where
  "DefaultTaxRate = 10 ^ 15"

definition DefaultRewardWeight :: dec where
  "DefaultRewardWeight = 5 * 10 ^ 16"

definition treasury_DefaultParams :: treasury_params where
  "treasury_DefaultParams =
    \<lparr>TaxPolicy = DefaultTaxPolicy, RewardPolicy = DefaultRewardPolicy,
     SeigniorageBurdenTarget = 67 * 10 ^ 16, MiningIncrement = 107 * 10 ^ 16,
     WindowShort = 4, WindowLong = 52, WindowProbation = 12\<rparr>"

text \<open>\<open>Coin.IsValid\<close> is the check that \<open>NewCoin\<close> panics on.\<close>

definition coin_is_valid :: "sdk \<Rightarrow> coin \<Rightarrow> bool" where
  "coin_is_valid S c \<longleftrightarrow> (case new_coin S (coin_denom c) (coin_amount c) of Ok _ \<Rightarrow> True | _ \<Rightarrow> False)"

definition treasury_Params_Validate :: "sdk \<Rightarrow> treasury_params \<Rightarrow> unit outcome" where
  "treasury_Params_Validate S p =
    (if RateMax (TaxPolicy p) < RateMin (TaxPolicy p)
       then Err (ErrMsg ''TaxPolicy.RateMax must be greater than TaxPolicy.RateMin'')
     else if RateMin (TaxPolicy p) < 0 then Err (ErrMsg ''TaxPolicy.RateMin must be zero or positive'')
     else if \<not> coin_is_valid S (Cap (TaxPolicy p)) then Err (ErrMsg ''TaxPolicy.Cap is invalid'')
     else if ChangeRateMax (TaxPolicy p) < 0 then Err (ErrMsg ''TaxPolicy.ChangeRateMax must be positive'')
     else if RateMax (RewardPolicy p) < RateMin (RewardPolicy p)
       then Err (ErrMsg ''RewardPolicy.RateMax must be greater than RewardPolicy.RateMin'')
     else if RateMin (RewardPolicy p) < 0 then Err (ErrMsg ''RewardPolicy.RateMin must be positive'')
     else if ChangeRateMax (RewardPolicy p) < 0 then Err (ErrMsg ''RewardPolicy.ChangeRateMax must be positive'')
     else if SeigniorageBurdenTarget p < 0 then Err (ErrMsg ''SeigniorageBurdenTarget must be positive'')
     else if MiningIncrement p < 0 then Err (ErrMsg ''MiningIncrement must be positive'')
     else if WindowLong p \<le> WindowShort p then Err (ErrMsg ''WindowLong must be bigger than WindowShort'')
     else Ok ())"

definition validateTaxPolicy :: "sdk \<Rightarrow> policy_constraints \<Rightarrow> unit outcome" where
  "validateTaxPolicy S v =
    (if RateMin v < 0 then Err (ErrMsg ''rate min must be positive'')
     else if RateMax v < RateMin v then Err (ErrMsg ''rate max must be bigger than rate min'')
     else if \<not> coin_is_valid S (Cap v) then Err (ErrMsg ''cap is invalid'')
     else if ChangeRateMax v < 0 then Err (ErrMsg ''max change rate must be positive'')
     else Ok ())"

definition validateRewardPolicy :: "policy_constraints \<Rightarrow> unit outcome" where
  "validateRewardPolicy v =
    (if RateMin v < 0 then Err (ErrMsg ''rate min must be positive'')
     else if RateMax v < RateMin v then Err (ErrMsg ''rate max must be bigger than rate min'')
     else if ChangeRateMax v < 0 then Err (ErrMsg ''max change rate must be positive'')
     else Ok ())"

definition validateSeigniorageBurdenTarget :: "dec \<Rightarrow> unit outcome" where
  "validateSeigniorageBurdenTarget v = require (\<not> v < 0) (ErrMsg ''seigniorage burden target must be positive'')"

definition validateMiningIncrement :: "dec \<Rightarrow> unit outcome" where
  "validateMiningIncrement v = require (\<not> v < 0) (ErrMsg ''mining increment must be positive'')"

text \<open>The validators of the three windows accept every \<open>uint64\<close>.\<close>

definition treasury_ParamSetPairs :: "sdk \<Rightarrow> treasury_params \<Rightarrow> unit outcome" where
  "treasury_ParamSetPairs S p =
    andThen (validateTaxPolicy S (TaxPolicy p)) (\<lambda>_.
    andThen (validateRewardPolicy (RewardPolicy p)) (\<lambda>_.
    andThen (validateSeigniorageBurdenTarget (SeigniorageBurdenTarget p)) (\<lambda>_.
    validateMiningIncrement (MiningIncrement p))))"

definition treasury_SetParams :: "sdk \<Rightarrow> treasury_params \<Rightarrow> treasury_state \<Rightarrow> treasury_state outcome" where
  "treasury_SetParams S p t = andThen (mustOk (treasury_ParamSetPairs S p)) (\<lambda>_. Ok (t\<lparr>ts_params := p\<rparr>))"


section \<open>Store\<close>

definition GetTaxRate :: "treasury_state \<Rightarrow> dec" where
  "GetTaxRate t = (case ts_tax_rate t of None \<Rightarrow> DefaultTaxRate | Some r \<Rightarrow> r)"

definition SetTaxRate :: "dec \<Rightarrow> treasury_state \<Rightarrow> treasury_state" where
  "SetTaxRate r t = t\<lparr>ts_tax_rate := Some r\<rparr>"

definition GetRewardWeight :: "treasury_state \<Rightarrow> dec" where
  "GetRewardWeight t = (case ts_reward_weight t of None \<Rightarrow> DefaultRewardWeight | Some w \<Rightarrow> w)"

definition SetRewardWeight :: "dec \<Rightarrow> treasury_state \<Rightarrow> treasury_state" where
  "SetRewardWeight w t = t\<lparr>ts_reward_weight := Some w\<rparr>"

definition SetTaxCap :: "denom \<Rightarrow> int \<Rightarrow> treasury_state \<Rightarrow> treasury_state" where
  "SetTaxCap d c t = t\<lparr>ts_tax_caps := go_put d c (ts_tax_caps t)\<rparr>"

definition GetTaxCap :: "treasury_state \<Rightarrow> denom \<Rightarrow> int" where
  "GetTaxCap t d =
    (if d = MicroLunaDenom then 0
     else case map_of (ts_tax_caps t) d of
       None \<Rightarrow> coin_amount (Cap (TaxPolicy (ts_params t)))
     | Some c \<Rightarrow> c)"

definition IterateTaxCap :: "treasury_state \<Rightarrow> (denom \<times> int) list" where
  "IterateTaxCap t = kv_iter (ts_tax_caps t)"

definition PeekEpochTaxProceeds :: "treasury_state \<Rightarrow> coins" where
  "PeekEpochTaxProceeds t = (case ts_proceeds t of None \<Rightarrow> [] | Some cs \<Rightarrow> cs)"

definition SetEpochTaxProceeds :: "coins \<Rightarrow> treasury_state \<Rightarrow> treasury_state" where
  "SetEpochTaxProceeds cs t = t\<lparr>ts_proceeds := Some cs\<rparr>"

definition RecordEpochTaxProceeds :: "sdk \<Rightarrow> coins \<Rightarrow> treasury_state \<Rightarrow> treasury_state outcome" where
  "RecordEpochTaxProceeds S delta t =
    (if coins_is_zero S delta then Ok t
     else andThen (coins_add S (PeekEpochTaxProceeds t) delta) (\<lambda>proceeds.
          Ok (SetEpochTaxProceeds proceeds t)))"

definition SetEpochInitialIssuance :: "coins \<Rightarrow> treasury_state \<Rightarrow> treasury_state" where
  "SetEpochInitialIssuance cs t = t\<lparr>ts_issuance := Some cs\<rparr>"

definition GetEpochInitialIssuance :: "treasury_state \<Rightarrow> coins" where
  "GetEpochInitialIssuance t = (case ts_issuance t of None \<Rightarrow> [] | Some cs \<Rightarrow> cs)"

definition GetSupply :: "'b bank \<Rightarrow> 'b \<Rightarrow> denom \<Rightarrow> coin" where
  "GetSupply B b d = \<lparr>coin_denom = d, coin_amount = bk_supply B b d\<rparr>"

definition RecordEpochInitialIssuance :: "sdk \<Rightarrow> 'b treasury_env \<Rightarrow> 'b \<Rightarrow> treasury_state \<Rightarrow> treasury_state" where
  "RecordEpochInitialIssuance S E b t =
    (let totalSupply = GetSupply (te_bank E) b MicroLunaDenom
           # map (\<lambda>denom. GetSupply (te_bank E) b (di_name denom)) (te_whitelist E) in
     SetEpochInitialIssuance (coins_sort S totalSupply) t)"

definition PeekEpochSeigniorage :: "sdk \<Rightarrow> 'b treasury_env \<Rightarrow> 'b \<Rightarrow> treasury_state \<Rightarrow> int outcome" where
  "PeekEpochSeigniorage S E b t =
    (let epochIssuance = bk_supply (te_bank E) b MicroLunaDenom;
         preEpochIssuance = coins_amount_of S (GetEpochInitialIssuance t) MicroLunaDenom in
     andThen (int_sub S preEpochIssuance epochIssuance) (\<lambda>epochSeigniorage.
     Ok (if epochSeigniorage < 0 then 0 else epochSeigniorage)))"

definition GetTR :: "treasury_state \<Rightarrow> int \<Rightarrow> dec" where
  "GetTR t e = go_get 0 (ts_TR t) e"

definition SetTR :: "int \<Rightarrow> dec \<Rightarrow> treasury_state \<Rightarrow> treasury_state" where
  "SetTR e v t = t\<lparr>ts_TR := go_put e v (ts_TR t)\<rparr>"

definition ClearTRs :: "treasury_state \<Rightarrow> treasury_state" where
  "ClearTRs t = t\<lparr>ts_TR := fold go_del (map fst (kv_iter (ts_TR t))) (ts_TR t)\<rparr>"

definition GetSR :: "treasury_state \<Rightarrow> int \<Rightarrow> dec" where
  "GetSR t e = go_get 0 (ts_SR t) e"

definition SetSR :: "int \<Rightarrow> dec \<Rightarrow> treasury_state \<Rightarrow> treasury_state" where
  "SetSR e v t = t\<lparr>ts_SR := go_put e v (ts_SR t)\<rparr>"

definition ClearSRs :: "treasury_state \<Rightarrow> treasury_state" where
  "ClearSRs t = t\<lparr>ts_SR := fold go_del (map fst (kv_iter (ts_SR t))) (ts_SR t)\<rparr>"

definition GetTSL :: "treasury_state \<Rightarrow> int \<Rightarrow> int" where
  "GetTSL t e = go_get 0 (ts_TSL t) e"

definition SetTSL :: "int \<Rightarrow> int \<Rightarrow> treasury_state \<Rightarrow> treasury_state" where
  "SetTSL e v t = t\<lparr>ts_TSL := go_put e v (ts_TSL t)\<rparr>"

definition ClearTSLs :: "treasury_state \<Rightarrow> treasury_state" where
  "ClearTSLs t = t\<lparr>ts_TSL := fold go_del (map fst (kv_iter (ts_TSL t))) (ts_TSL t)\<rparr>"


section \<open>Indicators\<close>

definition GetEpoch :: "ctx \<Rightarrow> int" where
  "GetEpoch c = ctx_height c sdiv sint BlocksPerWeek"

definition align_step ::
  "sdk \<Rightarrow> (dec_coin \<Rightarrow> denom \<Rightarrow> dec_coin outcome) \<Rightarrow> denom \<Rightarrow> dec_coin \<Rightarrow> dec \<Rightarrow> dec outcome" where
  "align_step S swap denom coinReward alignedAmt =
    (if dc_denom coinReward \<noteq> denom
     then case swap coinReward denom of
            Ok swappedReward \<Rightarrow> dec_add S alignedAmt (dc_amount swappedReward)
          | Err _ \<Rightarrow> Ok alignedAmt
          | Panic \<Rightarrow> Panic
     else dec_add S alignedAmt (dc_amount coinReward))"

definition alignCoins ::
  "sdk \<Rightarrow> (dec_coin \<Rightarrow> denom \<Rightarrow> dec_coin outcome) \<Rightarrow> dec_coins \<Rightarrow> denom \<Rightarrow> dec outcome" where
  "alignCoins S swap coins denom = forEach (align_step S swap denom) coins 0"

definition UpdateIndicators ::
  "sdk \<Rightarrow> 'b treasury_env \<Rightarrow> ctx \<Rightarrow> 'b \<Rightarrow> treasury_state \<Rightarrow> treasury_state outcome" where
  "UpdateIndicators S E c b t =
    (let epoch = GetEpoch c;
         t1 = SetTSL epoch (te_bonded E) t;
         taxRewards = dec_coins_of_coins S (PeekEpochTaxProceeds t1) in
     andThen (alignCoins S (te_swap E) taxRewards MicroSDRDenom) (\<lambda>TR.
     let t2 = SetEpochTaxProceeds [] (SetTR epoch TR t1) in
     andThen (PeekEpochSeigniorage S E b t2) (\<lambda>seigniorage.
     andThen (dec_mul_int S (GetRewardWeight t2) seigniorage) (\<lambda>seigniorageRewardsAmt.
     andThen (new_dec_coin S MicroLunaDenom seigniorageRewardsAmt) (\<lambda>seigniorageReward.
     andThen (alignCoins S (te_swap E) [seigniorageReward] MicroSDRDenom) (\<lambda>SR.
     Ok (SetSR epoch SR t2)))))))"

definition TRL :: "sdk \<Rightarrow> treasury_state \<Rightarrow> int \<Rightarrow> dec outcome" where
  "TRL S t epoch =
    (let tr = GetTR t epoch; tsl = GetTSL t epoch in
     if tr = 0 \<or> tsl = 0 then Ok 0 else dec_quo_int S tr tsl)"

definition SR :: "treasury_state \<Rightarrow> int \<Rightarrow> dec outcome" where
  "SR t epoch = Ok (GetSR t epoch)"

definition MR :: "sdk \<Rightarrow> treasury_state \<Rightarrow> int \<Rightarrow> dec outcome" where
  "MR S t epoch = dec_add S (GetTR t epoch) (GetSR t epoch)"

text \<open>
  The loop of the two window functions: from epoch \<open>i\<close> down to zero or to the window's lower end,
  which is not included. It returns the epoch it stopped at and the sum.
\<close>

function indicator_loop :: "sdk \<Rightarrow> (int \<Rightarrow> dec outcome) \<Rightarrow> int \<Rightarrow> int \<Rightarrow> dec \<Rightarrow> (int \<times> dec) outcome" where
  "indicator_loop S indicator low i s =
    (if 0 \<le> i \<and> low < i
     then andThen (indicator i) (\<lambda>val. andThen (dec_add S s val) (\<lambda>s'. indicator_loop S indicator low (i - 1) s'))
     else Ok (i, s))"
  by pat_completeness auto
termination by (relation "measure (\<lambda>(S, f, low, i, s). nat (i + 1))") auto

declare indicator_loop.simps [simp del]

definition sumIndicator :: "sdk \<Rightarrow> ctx \<Rightarrow> int \<Rightarrow> (int \<Rightarrow> dec outcome) \<Rightarrow> dec outcome" where
  "sumIndicator S c epochs indicator =
    (let curEpoch = GetEpoch c in
     andThen (indicator_loop S indicator (i64 (curEpoch - epochs)) curEpoch 0) (\<lambda>(i, s). Ok s))"

definition rollingAverageIndicator :: "sdk \<Rightarrow> ctx \<Rightarrow> int \<Rightarrow> (int \<Rightarrow> dec outcome) \<Rightarrow> dec outcome" where
  "rollingAverageIndicator S c epochs indicator =
    (let curEpoch = GetEpoch c in
     andThen (indicator_loop S indicator (i64 (curEpoch - epochs)) curEpoch 0) (\<lambda>(i, s).
     let computedEpochs = curEpoch - i in
     if computedEpochs = 0 then Ok s else dec_quo_int S s computedEpochs))"


section \<open>Policies\<close>

definition Clamp :: "sdk \<Rightarrow> policy_constraints \<Rightarrow> dec \<Rightarrow> dec \<Rightarrow> dec outcome" where
  "Clamp S pc prevRate newRate =
    andThen (dec_sub S newRate prevRate) (\<lambda>delta.
    andThen
      (if prevRate < newRate
       then (if ChangeRateMax pc < delta then dec_add S prevRate (ChangeRateMax pc) else Ok newRate)
       else (if ChangeRateMax pc < \<bar>delta\<bar> then dec_sub S prevRate (ChangeRateMax pc) else Ok newRate)) (\<lambda>r.
    Ok (if r < RateMin pc then RateMin pc else if RateMax pc < r then RateMax pc else r)))"

definition tax_cap_step ::
  "sdk \<Rightarrow> (dec_coin \<Rightarrow> denom \<Rightarrow> dec_coin outcome) \<Rightarrow> dec_coin \<Rightarrow> denom_item \<Rightarrow>
    (treasury_state \<times> coins) \<Rightarrow> (treasury_state \<times> coins) outcome" where
  "tax_cap_step S swap taxPolicyCap denom s =
    (if di_name denom = dc_denom taxPolicyCap then Ok s
     else case swap taxPolicyCap (di_name denom) of
            Ok newDecCap \<Rightarrow>
              andThen (dec_coin_trunc S newDecCap) (\<lambda>(newCap, _).
              Ok (SetTaxCap (coin_denom newCap) (coin_amount newCap) (fst s), snd s @ [newCap]))
          | Err _ \<Rightarrow> Ok s
          | Panic \<Rightarrow> Panic)"

definition UpdateTaxCap :: "sdk \<Rightarrow> 'b treasury_env \<Rightarrow> treasury_state \<Rightarrow> (treasury_state \<times> coins) outcome" where
  "UpdateTaxCap S E t =
    andThen (dec_coin_of_coin S (Cap (TaxPolicy (ts_params t)))) (\<lambda>taxPolicyCap.
    forEach (tax_cap_step S (te_swap E) taxPolicyCap) (te_whitelist E) (t, []))"

definition UpdateTaxPolicy :: "sdk \<Rightarrow> ctx \<Rightarrow> treasury_state \<Rightarrow> treasury_state outcome" where
  "UpdateTaxPolicy S c t =
    (let params = ts_params t; oldTaxRate = GetTaxRate t; inc = MiningIncrement params in
     andThen (rollingAverageIndicator S c (sint (WindowLong params)) (TRL S t)) (\<lambda>tlYear.
     andThen (rollingAverageIndicator S c (sint (WindowShort params)) (TRL S t)) (\<lambda>tlMonth.
     andThen
       (if tlMonth = 0 then Ok (RateMax (TaxPolicy params))
        else andThen (dec_mul S tlYear inc) (\<lambda>x.
             andThen (dec_mul S oldTaxRate x) (\<lambda>y. dec_quo S y tlMonth))) (\<lambda>newTaxRate.
     andThen (Clamp S (TaxPolicy params) oldTaxRate newTaxRate) (\<lambda>r.
     Ok (SetTaxRate r t))))))"

definition UpdateRewardPolicy :: "sdk \<Rightarrow> ctx \<Rightarrow> treasury_state \<Rightarrow> treasury_state outcome" where
  "UpdateRewardPolicy S c t =
    (let params = ts_params t; oldWeight = GetRewardWeight t; sbTarget = SeigniorageBurdenTarget params in
     andThen (sumIndicator S c (sint (WindowShort params)) (SR t)) (\<lambda>seigniorageSum.
     andThen (sumIndicator S c (sint (WindowShort params)) (MR S t)) (\<lambda>totalSum.
     andThen
       (if totalSum = 0 \<or> seigniorageSum = 0 then Ok (RateMax (RewardPolicy params))
        else andThen (dec_quo S seigniorageSum totalSum) (\<lambda>sb.
             andThen (dec_quo S sbTarget sb) (\<lambda>x. dec_mul S oldWeight x))) (\<lambda>newRewardWeight.
     andThen (Clamp S (RewardPolicy params) oldWeight newRewardWeight) (\<lambda>w.
     Ok (SetRewardWeight w t))))))"


section \<open>Seigniorage\<close>

text \<open>
  \<open>NewCoins\<close> of one coin is a valid coin set or a panic; an empty set is valid. A bank error is a
  panic here.
\<close>

definition distribute_seigniorage ::
  "sdk \<Rightarrow> 'b treasury_env \<Rightarrow> int \<Rightarrow> 'b treasury_world \<Rightarrow> 'b treasury_world outcome" where
  "distribute_seigniorage S E seigniorageLunaAmt w =
    (let B = te_bank E; rewardWeight = GetRewardWeight (tw_state w) in
     andThen (new_dec_coin S MicroLunaDenom (dec_of_int seigniorageLunaAmt)) (\<lambda>seigniorageDecCoin.
     andThen (dec_coin_trunc S seigniorageDecCoin) (\<lambda>(seigniorageCoin, _).
     andThen (new_coins S [seigniorageCoin]) (\<lambda>seigniorageCoins.
     andThen
       (if coins_is_valid S seigniorageCoins
        then mustOk (bk_mint B treasury_name seigniorageCoins (tw_bank w)) else Ok (tw_bank w)) (\<lambda>b1.
     let seigniorageAmt = coin_amount seigniorageCoin in
     andThen (dec_mul_int S rewardWeight seigniorageAmt) (\<lambda>x.
     andThen (dec_trunc S x) (\<lambda>burnAmt.
     andThen (new_coin S MicroLunaDenom burnAmt) (\<lambda>burnCoin.
     andThen (new_coins S [burnCoin]) (\<lambda>burnCoins.
     andThen
       (if coins_is_valid S burnCoins then mustOk (bk_burn B treasury_name burnCoins b1) else Ok b1) (\<lambda>b2.
     andThen (int_sub S seigniorageAmt burnAmt) (\<lambda>leftAmt.
     andThen (new_coin S MicroLunaDenom leftAmt) (\<lambda>leftCoin.
     andThen (new_coins S [leftCoin]) (\<lambda>leftCoins.
     if coins_is_valid S leftCoins
     then
       andThen (mustOk (bk_send B (Mod treasury_name) (Mod (te_distribution E)) leftCoins b2)) (\<lambda>b3.
       andThen (dec_coins_add S (tw_pool w) (dec_coins_of_coins S leftCoins)) (\<lambda>pool.
       Ok (w\<lparr>tw_bank := b3, tw_pool := pool\<rparr>)))
     else Ok (w\<lparr>tw_bank := b2\<rparr>))))))))))))))"

definition SettleSeigniorage :: "sdk \<Rightarrow> 'b treasury_env \<Rightarrow> 'b treasury_world \<Rightarrow> 'b treasury_world outcome" where
  "SettleSeigniorage S E w =
    andThen (PeekEpochSeigniorage S E (tw_bank w) (tw_state w)) (\<lambda>seigniorageLunaAmt.
    if seigniorageLunaAmt \<le> 0 then Ok w else distribute_seigniorage S E seigniorageLunaAmt w)"

definition BurnCoinsFromBurnAccount :: "sdk \<Rightarrow> 'b treasury_env \<Rightarrow> 'b \<Rightarrow> 'b outcome" where
  "BurnCoinsFromBurnAccount S E b =
    (let coins = bk_all_balances (te_bank E) b (Mod burn_name) in
     if \<not> coins_is_zero S coins then mustOk (bk_burn (te_bank E) burn_name coins b) else Ok b)"


section \<open>End of a block\<close>

text \<open>The deferred \<open>RecordEpochInitialIssuance\<close> runs on both returns after it.\<close>

definition record_issuance :: "sdk \<Rightarrow> 'b treasury_env \<Rightarrow> 'b treasury_world \<Rightarrow> 'b treasury_world" where
  "record_issuance S E w = w\<lparr>tw_state := RecordEpochInitialIssuance S E (tw_bank w) (tw_state w)\<rparr>"

definition treasury_EndBlocker ::
  "sdk \<Rightarrow> 'b treasury_env \<Rightarrow> ctx \<Rightarrow> 'b treasury_world \<Rightarrow> 'b treasury_world outcome" where
  "treasury_EndBlocker S E c w =
    andThen (BurnCoinsFromBurnAccount S E (tw_bank w)) (\<lambda>b.
    let w0 = w\<lparr>tw_bank := b\<rparr> in
    andThen (IsPeriodLastBlock c BlocksPerWeek) (\<lambda>isLast.
    if \<not> isLast then Ok w0
    else
    andThen (UpdateIndicators S E c (tw_bank w0) (tw_state w0)) (\<lambda>t1.
    let w1 = w0\<lparr>tw_state := t1\<rparr> in
    if ctx_height c < sint (BlocksPerWeek * WindowProbation (ts_params t1)) then Ok (record_issuance S E w1)
    else
    andThen (SettleSeigniorage S E w1) (\<lambda>w2.
    andThen (UpdateTaxPolicy S c (tw_state w2)) (\<lambda>t3.
    andThen (UpdateRewardPolicy S c t3) (\<lambda>t4.
    andThen (UpdateTaxCap S E t4) (\<lambda>(t5, taxCap).
    Ok (record_issuance S E (w2\<lparr>tw_state := t5\<rparr>)))))))))"


section \<open>Genesis and queries\<close>

record epoch_state =
  es_epoch :: u64
  es_TR :: dec
  es_SR :: dec
  es_TSL :: int

record treasury_genesis =
  tg_params :: treasury_params
  tg_tax_rate :: dec
  tg_reward_weight :: dec
  tg_tax_caps :: "(denom \<times> int) list"
  tg_proceeds :: coins
  tg_issuance :: coins
  tg_epochs :: "epoch_state list"

definition treasury_DefaultGenesisState :: treasury_genesis where
  "treasury_DefaultGenesisState =
    \<lparr>tg_params = treasury_DefaultParams, tg_tax_rate = DefaultTaxRate, tg_reward_weight = DefaultRewardWeight,
     tg_tax_caps = [], tg_proceeds = [], tg_issuance = [], tg_epochs = []\<rparr>"

definition treasury_ValidateGenesis :: "sdk \<Rightarrow> treasury_genesis \<Rightarrow> unit outcome" where
  "treasury_ValidateGenesis S g =
    (if tg_tax_rate g < RateMin (TaxPolicy (tg_params g)) \<or> RateMax (TaxPolicy (tg_params g)) < tg_tax_rate g
       then Err (ErrMsg ''tax_rate must less than RateMax and bigger than RateMin'')
     else if tg_reward_weight g < RateMin (RewardPolicy (tg_params g))
          \<or> RateMax (RewardPolicy (tg_params g)) < tg_reward_weight g
       then Err (ErrMsg ''reward_weight must less than WeightMax and bigger than RateMin'')
     else treasury_Params_Validate S (tg_params g))"

definition init_epoch :: "epoch_state \<Rightarrow> treasury_state \<Rightarrow> treasury_state" where
  "init_epoch e t =
    SetTSL (sint (es_epoch e)) (es_TSL e) (SetSR (sint (es_epoch e)) (es_SR e) (SetTR (sint (es_epoch e)) (es_TR e) t))"

definition treasury_InitGenesis ::
  "sdk \<Rightarrow> 'b treasury_env \<Rightarrow> bool \<Rightarrow> bool \<Rightarrow> 'b \<Rightarrow> treasury_genesis \<Rightarrow> treasury_state \<Rightarrow> treasury_state outcome" where
  "treasury_InitGenesis S E hasModuleAccount hasBurnAccount b g t =
    andThen (treasury_SetParams S (tg_params g) t) (\<lambda>t1.
    let t2 = SetEpochTaxProceeds (tg_proceeds g) (SetRewardWeight (tg_reward_weight g) (SetTaxRate (tg_tax_rate g) t1));
        t3 = (if coins_is_zero S (tg_issuance g) then RecordEpochInitialIssuance S E b t2
              else SetEpochInitialIssuance (tg_issuance g) t2);
        t4 = fold (\<lambda>(d, c). SetTaxCap d c) (tg_tax_caps g) t3;
        t5 = fold init_epoch (tg_epochs g) t4 in
    if \<not> hasModuleAccount then Panic else if \<not> hasBurnAccount then Panic else Ok t5)"

definition export_epochs :: "ctx \<Rightarrow> bool \<Rightarrow> int list" where
  "export_epochs c isLast =
    (let curEpoch = GetEpoch c in [0..curEpoch - 1] @ (if 0 \<le> curEpoch \<and> isLast then [curEpoch] else []))"

definition treasury_ExportGenesis :: "ctx \<Rightarrow> treasury_state \<Rightarrow> treasury_genesis outcome" where
  "treasury_ExportGenesis c t =
    andThen (IsPeriodLastBlock c BlocksPerWeek) (\<lambda>isLast.
    Ok \<lparr>tg_params = ts_params t, tg_tax_rate = GetTaxRate t, tg_reward_weight = GetRewardWeight t,
        tg_tax_caps = IterateTaxCap t, tg_proceeds = PeekEpochTaxProceeds t,
        tg_issuance = GetEpochInitialIssuance t,
        tg_epochs = map (\<lambda>e. \<lparr>es_epoch = word_of_int e, es_TR = GetTR t e, es_SR = GetSR t e, es_TSL = GetTSL t e\<rparr>)
          (export_epochs c isLast)\<rparr>)"

definition querier_TaxCap :: "sdk \<Rightarrow> treasury_state \<Rightarrow> denom \<Rightarrow> int outcome" where
  "querier_TaxCap S t d = andThen (require (denom_valid S d) (ErrMsg ''invalid denom'')) (\<lambda>_. Ok (GetTaxCap t d))"

text \<open>
  The two \<open>float64\<close> minima are exact: the epoch of an \<open>int64\<close> height is below 2^53, and conversion is
  monotone.
\<close>

definition querier_Indicators ::
  "sdk \<Rightarrow> 'b treasury_env \<Rightarrow> ctx \<Rightarrow> treasury_state \<Rightarrow> (dec \<times> dec) outcome" where
  "querier_Indicators S E c t =
    andThen (alignCoins S (te_swap E) (dec_coins_of_coins S (PeekEpochTaxProceeds t)) MicroSDRDenom) (\<lambda>TR.
    let epoch = GetEpoch c; TSL = te_bonded E in
    if epoch = 0
    then andThen (dec_quo_int S TR TSL) (\<lambda>y. Ok (y, y))
    else
    let params = ts_params t;
        c' = c\<lparr>ctx_height := ctx_height c - sint BlocksPerWeek\<rparr>;
        wl = WindowLong params - 1; ws = WindowShort params - 1;
        computedEpochForYear = min (uint wl) epoch;
        computedEpochForMonth = min (uint ws) epoch in
    andThen (rollingAverageIndicator S c' (sint wl) (TRL S t)) (\<lambda>trlYear.
    andThen (rollingAverageIndicator S c' (sint ws) (TRL S t)) (\<lambda>trlMonth.
    andThen (dec_mul_int S trlYear computedEpochForYear) (\<lambda>y1.
    andThen (dec_quo_int S TR TSL) (\<lambda>q.
    andThen (dec_add S y1 q) (\<lambda>y2.
    andThen (dec_quo_int S y2 (computedEpochForYear + 1)) (\<lambda>y.
    andThen (dec_mul_int S trlMonth computedEpochForMonth) (\<lambda>m1.
    andThen (dec_add S m1 q) (\<lambda>m2.
    andThen (dec_quo_int S m2 (computedEpochForMonth + 1)) (\<lambda>m.
    Ok (y, m)))))))))))"

section \<open>Policies stay in their bounds\<close>

definition in_policy :: "policy_constraints \<Rightarrow> dec \<Rightarrow> bool" where
  "in_policy pc r \<longleftrightarrow> RateMin pc \<le> r \<and> r \<le> RateMax pc"

lemma Clamp_Ok:
  assumes S: "dec_laws S" and pc: "RateMin pc \<le> RateMax pc" "0 \<le> ChangeRateMax pc" and c: "Clamp S pc p n = Ok r"
  shows "in_policy pc r" "in_policy pc p \<Longrightarrow> \<bar>r - p\<bar> \<le> ChangeRateMax pc"
    "in_policy pc n \<Longrightarrow> \<bar>n - p\<bar> \<le> ChangeRateMax pc \<Longrightarrow> r = n"
proof -
  define x where "x = (if p < n then (if ChangeRateMax pc < n - p then p + ChangeRateMax pc else n)
    else (if ChangeRateMax pc < \<bar>n - p\<bar> then p - ChangeRateMax pc else n))"
  have r: "r = (if x < RateMin pc then RateMin pc else if RateMax pc < x then RateMax pc else x)"
    using c by (auto simp: Clamp_def x_def dec_addI [OF S] dec_subI [OF S] split: if_splits)
  have x: "\<bar>x - p\<bar> \<le> ChangeRateMax pc" "\<bar>n - p\<bar> \<le> ChangeRateMax pc \<Longrightarrow> x = n"
    using pc(2) by (auto simp: x_def abs_if split: if_splits)
  show "in_policy pc r" using pc(1) r by (simp add: in_policy_def)
  show "\<bar>r - p\<bar> \<le> ChangeRateMax pc" if "in_policy pc p"
    using that x(1) r by (auto simp: in_policy_def abs_if split: if_splits)
  show "r = n" if "in_policy pc n" "\<bar>n - p\<bar> \<le> ChangeRateMax pc"
    using that x(2) r by (simp add: in_policy_def)
qed

lemma ParamSetPairs_Ok:
  assumes "treasury_ParamSetPairs S p = Ok u"
  shows "RateMin (TaxPolicy p) \<le> RateMax (TaxPolicy p)" "0 \<le> RateMin (TaxPolicy p)" "0 \<le> ChangeRateMax (TaxPolicy p)"
    "RateMin (RewardPolicy p) \<le> RateMax (RewardPolicy p)" "0 \<le> RateMin (RewardPolicy p)" "0 \<le> ChangeRateMax (RewardPolicy p)"
    "coin_is_valid S (Cap (TaxPolicy p))"
  using assms
  by (auto simp: treasury_ParamSetPairs_def validateTaxPolicy_def validateRewardPolicy_def split: if_splits)

lemma UpdateTaxPolicy_Ok:
  assumes "UpdateTaxPolicy S c t = Ok t'"
  obtains r n where "t' = SetTaxRate r t" "Clamp S (TaxPolicy (ts_params t)) (GetTaxRate t) n = Ok r"
  using assms by (auto simp: UpdateTaxPolicy_def Let_def)

lemma UpdateRewardPolicy_Ok:
  assumes "UpdateRewardPolicy S c t = Ok t'"
  obtains w n where "t' = SetRewardWeight w t" "Clamp S (RewardPolicy (ts_params t)) (GetRewardWeight t) n = Ok w"
  using assms by (auto simp: UpdateRewardPolicy_def Let_def)

lemma treasury_get_set [simp]:
  "GetTaxRate (SetTaxRate r t) = r" "GetRewardWeight (SetTaxRate r t) = GetRewardWeight t"
  "GetRewardWeight (SetRewardWeight r t) = r" "GetTaxRate (SetRewardWeight r t) = GetTaxRate t"
  "ts_params (SetTaxRate r t) = ts_params t" "ts_params (SetRewardWeight r t) = ts_params t"
  "ts_tax_caps (SetTaxRate r t) = ts_tax_caps t" "ts_tax_caps (SetRewardWeight r t) = ts_tax_caps t"
  "PeekEpochTaxProceeds (SetTaxRate r t) = PeekEpochTaxProceeds t"
  "PeekEpochTaxProceeds (SetRewardWeight r t) = PeekEpochTaxProceeds t"
  "PeekEpochTaxProceeds (SetEpochTaxProceeds cs t) = cs"
  "GetTaxRate (SetTaxCap d x t) = GetTaxRate t" "GetRewardWeight (SetTaxCap d x t) = GetRewardWeight t"
  "PeekEpochTaxProceeds (SetTaxCap d x t) = PeekEpochTaxProceeds t" "ts_params (SetTaxCap d x t) = ts_params t"
  "ts_tax_caps (SetTaxCap d x t) = go_put d x (ts_tax_caps t)"
  "GetEpochInitialIssuance (SetEpochInitialIssuance cs t) = cs"
  "ts_TSL (SetTaxCap d x t) = ts_TSL t" "ts_TSL (SetTaxRate r t) = ts_TSL t" "ts_TSL (SetRewardWeight r t) = ts_TSL t"
  "ts_TSL (SetEpochInitialIssuance cs t) = ts_TSL t"
  "PeekEpochTaxProceeds (SetEpochInitialIssuance cs t) = PeekEpochTaxProceeds t"
  by (simp_all add: GetTaxRate_def SetTaxRate_def GetRewardWeight_def SetRewardWeight_def SetTaxCap_def
    PeekEpochTaxProceeds_def SetEpochTaxProceeds_def GetEpochInitialIssuance_def SetEpochInitialIssuance_def)

text \<open>The part of the store that holds the policies, which the other steps leave alone.\<close>

definition policies :: "treasury_state \<Rightarrow> dec \<times> dec \<times> (denom, int) gomap \<times> treasury_params" where
  "policies t = (GetTaxRate t, GetRewardWeight t, ts_tax_caps t, ts_params t)"

lemma policies_keep [simp]:
  "policies (SetEpochTaxProceeds cs t) = policies t" "policies (SetEpochInitialIssuance cs t) = policies t"
  "policies (SetTR e v t) = policies t" "policies (SetSR e v t) = policies t" "policies (SetTSL e n t) = policies t"
  "policies (RecordEpochInitialIssuance S E b t) = policies t"
  by (simp_all add: policies_def SetEpochTaxProceeds_def SetEpochInitialIssuance_def SetTR_def SetSR_def SetTSL_def
    RecordEpochInitialIssuance_def Let_def GetTaxRate_def GetRewardWeight_def)

lemma UpdateIndicators_policies: "UpdateIndicators S E c b t = Ok t' \<Longrightarrow> policies t' = policies t"
  by (auto simp: UpdateIndicators_def Let_def)

definition luna_coins :: "int \<Rightarrow> coins" where
  "luna_coins n = (if n = 0 then [] else [\<lparr>coin_denom = MicroLunaDenom, coin_amount = n\<rparr>])"

lemma luna_coins_wf [simp]: "0 \<le> n \<Longrightarrow> coins_wf (luna_coins n)"
  by (simp add: luna_coins_def)

lemma amt_luna_coins [simp]: "amt (luna_coins n) d = (if d = MicroLunaDenom then n else 0)"
  by (simp add: luna_coins_def amt_Cons)

lemma new_coins_luna:
  assumes "coin_laws S" "coin_op_laws S" "new_coin S MicroLunaDenom n = Ok c" "new_coins S [c] = Ok cs"
  shows "cs = luna_coins n" "coins_is_valid S cs" "0 \<le> n" "c = \<lparr>coin_denom = MicroLunaDenom, coin_amount = n\<rparr>"
  using assms
  by (auto simp: luna_coins_def new_coinI new_coinsI coins_is_validI split: if_splits)

lemma distribute_stages:
  assumes d: "distribute_seigniorage S E n w = Ok w'" and S: "dec_laws S" "coin_laws S" "coin_op_laws S" and n: "0 < n"
  obtains b1 burn b2 b3 pool where
    "bk_mint (te_bank E) treasury_name (luna_coins n) (tw_bank w) = Ok b1"
    "burn = (GetRewardWeight (tw_state w) * n) sdiv one_dec" "0 \<le> burn" "burn \<le> n"
    "bk_burn (te_bank E) treasury_name (luna_coins burn) b1 = Ok b2"
    "bk_send (te_bank E) (Mod treasury_name) (Mod (te_distribution E)) (luna_coins (n - burn)) b2 = Ok b3"
    "dec_coins_add S (tw_pool w) (dec_coins_of_coins S (luna_coins (n - burn))) = Ok pool"
    "w' = w\<lparr>tw_bank := b3, tw_pool := pool\<rparr>"
proof -
  from d obtain dc c r cs b1 x burn bc bcs b2 left lc lcs where
    dc: "new_dec_coin S MicroLunaDenom (dec_of_int n) = Ok dc" and c: "dec_coin_trunc S dc = Ok (c, r)" and
    cs: "new_coins S [c] = Ok cs" and
    b1: "(if coins_is_valid S cs then mustOk (bk_mint (te_bank E) treasury_name cs (tw_bank w)) else Ok (tw_bank w)) = Ok b1" and
    x: "dec_mul_int S (GetRewardWeight (tw_state w)) (coin_amount c) = Ok x" and burn: "dec_trunc S x = Ok burn" and
    bc: "new_coin S MicroLunaDenom burn = Ok bc" "new_coins S [bc] = Ok bcs" and
    b2: "(if coins_is_valid S bcs then mustOk (bk_burn (te_bank E) treasury_name bcs b1) else Ok b1) = Ok b2" and
    left: "int_sub S (coin_amount c) burn = Ok left" and
    lc: "new_coin S MicroLunaDenom left = Ok lc" "new_coins S [lc] = Ok lcs" and
    rest: "(if coins_is_valid S lcs
     then
       andThen (mustOk (bk_send (te_bank E) (Mod treasury_name) (Mod (te_distribution E)) lcs b2)) (\<lambda>b3.
       andThen (dec_coins_add S (tw_pool w) (dec_coins_of_coins S lcs)) (\<lambda>pool.
       Ok (w\<lparr>tw_bank := b3, tw_pool := pool\<rparr>)))
     else Ok (w\<lparr>tw_bank := b2\<rparr>)) = Ok w'"
    unfolding distribute_seigniorage_def Let_def andThen_Ok_iff by (auto simp del: if_split split: prod.splits)
  have c': "c = \<lparr>coin_denom = MicroLunaDenom, coin_amount = n\<rparr>"
    using dc c n dec_coin_trunc_Ok(1) [OF S(1,3) c] by (auto simp: new_dec_coinI [OF S(2)] dec_of_int_def split: if_splits)
  have nc: "new_coin S MicroLunaDenom n = Ok c"
    using dc n c' by (auto simp: new_dec_coinI [OF S(2)] new_coinI [OF S(2)] split: if_splits)
  note k = new_coins_luna [OF S(2,3) nc cs] and kb = new_coins_luna [OF S(2,3) bc] and kl = new_coins_luna [OF S(2,3) lc]
  have l: "left = n - burn" using left c' by (simp add: int_subI [OF S(1)])
  have "burn = (GetRewardWeight (tw_state w) * n) sdiv one_dec"
    using x burn c' by (simp add: dec_mul_intI [OF S(1)] dec_truncI [OF S(1)])
  moreover have "bk_mint (te_bank E) treasury_name (luna_coins n) (tw_bank w) = Ok b1" using b1 k by simp
  moreover have "bk_burn (te_bank E) treasury_name (luna_coins burn) b1 = Ok b2" using b2 kb by simp
  moreover obtain b3 pool where
    "bk_send (te_bank E) (Mod treasury_name) (Mod (te_distribution E)) (luna_coins (n - burn)) b2 = Ok b3"
    "dec_coins_add S (tw_pool w) (dec_coins_of_coins S (luna_coins (n - burn))) = Ok pool"
    "w' = w\<lparr>tw_bank := b3, tw_pool := pool\<rparr>" using rest kl l by auto
  ultimately show thesis using that kb(3) kl(3) l by simp
qed

lemma SettleSeigniorage_cases:
  assumes "SettleSeigniorage S E w = Ok w'"
  obtains n where "PeekEpochSeigniorage S E (tw_bank w) (tw_state w) = Ok n" "n \<le> 0" "w' = w"
  | n where "PeekEpochSeigniorage S E (tw_bank w) (tw_state w) = Ok n" "0 < n" "distribute_seigniorage S E n w = Ok w'"
proof -
  obtain n where n: "PeekEpochSeigniorage S E (tw_bank w) (tw_state w) = Ok n"
      "(if n \<le> 0 then Ok w else distribute_seigniorage S E n w) = Ok w'"
    using assms unfolding SettleSeigniorage_def andThen_Ok_iff by (elim exE conjE) (rule that)
  show thesis
  proof (cases "n \<le> 0")
    case True
    with n show thesis by (intro that(1)) simp_all
  next
    case False
    with n show thesis by (intro that(2)) simp_all
  qed
qed

lemma SettleSeigniorage_state:
  assumes "SettleSeigniorage S E w = Ok w'" "dec_laws S" "coin_laws S" "coin_op_laws S"
  shows "tw_state w' = tw_state w"
  using assms(1)
proof (cases rule: SettleSeigniorage_cases)
  case (2 n)
  show ?thesis by (rule distribute_stages [OF 2(3) assms(2-4) 2(2)]) simp
qed simp

lemma tax_cap_step_Ok:
  assumes S: "dec_laws S" "coin_op_laws S" and t: "tax_cap_step S swap cap x s = Ok v"
  shows "v = s \<or> (\<exists>d a cs. 0 \<le> a \<and> v = (SetTaxCap d a (fst s), cs))"
proof (cases "di_name x = dc_denom cap")
  case False
  show ?thesis
  proof (cases "swap cap (di_name x)")
    case (Ok c)
    with t False obtain n r where n: "dec_coin_trunc S c = Ok (n, r)"
      "v = (SetTaxCap (coin_denom n) (coin_amount n) (fst s), snd s @ [n])"
      by (auto simp: tax_cap_step_def)
    have "0 \<le> dc_amount c" using n(1) by (auto simp: dec_coin_truncI [OF S(2)] split: if_splits)
    then have "0 \<le> coin_amount n"
      using dec_coin_trunc_Ok(1) [OF S n(1)] by (simp add: pos_imp_zdiv_nonneg_iff)
    with n(2) show ?thesis by blast
  qed (use t False in \<open>simp_all add: tax_cap_step_def\<close>)
qed (use t in \<open>simp add: tax_cap_step_def\<close>)

lemma UpdateTaxCap_Ok:
  assumes S: "dec_laws S" "coin_op_laws S" and u: "UpdateTaxCap S E t = Ok (t', caps)"
    and i: "go_map (ts_tax_caps t)" "go_all (\<lambda>_ c. 0 \<le> c) (ts_tax_caps t)"
  shows "GetTaxRate t' = GetTaxRate t" "GetRewardWeight t' = GetRewardWeight t" "ts_params t' = ts_params t"
    "PeekEpochTaxProceeds t' = PeekEpochTaxProceeds t" "go_map (ts_tax_caps t')" "go_all (\<lambda>_ c. 0 \<le> c) (ts_tax_caps t')"
    "ts_TSL t' = ts_TSL t"
proof -
  let ?P = "\<lambda>s. GetTaxRate (fst s) = GetTaxRate t \<and> GetRewardWeight (fst s) = GetRewardWeight t
    \<and> ts_params (fst s) = ts_params t \<and> PeekEpochTaxProceeds (fst s) = PeekEpochTaxProceeds t
    \<and> go_map (ts_tax_caps (fst s)) \<and> go_all (\<lambda>_ c. 0 \<le> c) (ts_tax_caps (fst s))
    \<and> ts_TSL (fst s) = ts_TSL t"
  from u obtain cap where f: "forEach (tax_cap_step S (te_swap E) cap) (te_whitelist E) (t, []) = Ok (t', caps)"
    by (auto simp: UpdateTaxCap_def)
  have step: "?P v" if "?P s" "tax_cap_step S (te_swap E) cap x s = Ok v" for x s v
    using tax_cap_step_Ok [OF S that(2)] that(1) by (elim disjE exE conjE) simp_all
  have "?P (t, [])" using i by simp
  from forEach_invariant [where P = ?P, OF f this step] have "?P (t', caps)" .
  then show "GetTaxRate t' = GetTaxRate t" "GetRewardWeight t' = GetRewardWeight t" "ts_params t' = ts_params t"
    "PeekEpochTaxProceeds t' = PeekEpochTaxProceeds t" "go_map (ts_tax_caps t')" "go_all (\<lambda>_ c. 0 \<le> c) (ts_tax_caps t')"
    "ts_TSL t' = ts_TSL t"
    by simp_all
qed

lemma EndBlocker_cases:
  assumes e: "treasury_EndBlocker S E c w = Ok w'"
  obtains (quiet) b where "BurnCoinsFromBurnAccount S E (tw_bank w) = Ok b" "IsPeriodLastBlock c BlocksPerWeek = Ok False"
      "w' = w\<lparr>tw_bank := b\<rparr>"
  | (probation) b t1 where "BurnCoinsFromBurnAccount S E (tw_bank w) = Ok b" "IsPeriodLastBlock c BlocksPerWeek = Ok True"
      "UpdateIndicators S E c b (tw_state w) = Ok t1"
      "ctx_height c < sint (BlocksPerWeek * WindowProbation (ts_params t1))"
      "w' = record_issuance S E (w\<lparr>tw_bank := b, tw_state := t1\<rparr>)"
  | (epoch) b t1 w2 t3 t4 t5 caps where "BurnCoinsFromBurnAccount S E (tw_bank w) = Ok b"
      "IsPeriodLastBlock c BlocksPerWeek = Ok True" "UpdateIndicators S E c b (tw_state w) = Ok t1"
      "\<not> ctx_height c < sint (BlocksPerWeek * WindowProbation (ts_params t1))"
      "SettleSeigniorage S E (w\<lparr>tw_bank := b, tw_state := t1\<rparr>) = Ok w2" "UpdateTaxPolicy S c (tw_state w2) = Ok t3"
      "UpdateRewardPolicy S c t3 = Ok t4" "UpdateTaxCap S E t4 = Ok (t5, caps)"
      "w' = record_issuance S E (w2\<lparr>tw_state := t5\<rparr>)"
proof -
  obtain b l where b: "BurnCoinsFromBurnAccount S E (tw_bank w) = Ok b" "IsPeriodLastBlock c BlocksPerWeek = Ok l"
    and r: "(if \<not> l then Ok (w\<lparr>tw_bank := b\<rparr>)
    else
    andThen (UpdateIndicators S E c (tw_bank (w\<lparr>tw_bank := b\<rparr>)) (tw_state (w\<lparr>tw_bank := b\<rparr>))) (\<lambda>t1.
    if ctx_height c < sint (BlocksPerWeek * WindowProbation (ts_params t1))
    then Ok (record_issuance S E (w\<lparr>tw_bank := b, tw_state := t1\<rparr>))
    else
    andThen (SettleSeigniorage S E (w\<lparr>tw_bank := b, tw_state := t1\<rparr>)) (\<lambda>w2.
    andThen (UpdateTaxPolicy S c (tw_state w2)) (\<lambda>t3.
    andThen (UpdateRewardPolicy S c t3) (\<lambda>t4.
    andThen (UpdateTaxCap S E t4) (\<lambda>(t5, taxCap).
    Ok (record_issuance S E (w2\<lparr>tw_state := t5\<rparr>)))))))) = Ok w'"
    using e unfolding treasury_EndBlocker_def Let_def andThen_Ok_iff by (elim exE conjE) (rule that)
  show thesis
  proof (cases l)
    case False
    with b r show thesis by (intro quiet) auto
  next
    case True
    obtain t1 where t1: "UpdateIndicators S E c b (tw_state w) = Ok t1"
      and r1: "(if ctx_height c < sint (BlocksPerWeek * WindowProbation (ts_params t1))
    then Ok (record_issuance S E (w\<lparr>tw_bank := b, tw_state := t1\<rparr>))
    else
    andThen (SettleSeigniorage S E (w\<lparr>tw_bank := b, tw_state := t1\<rparr>)) (\<lambda>w2.
    andThen (UpdateTaxPolicy S c (tw_state w2)) (\<lambda>t3.
    andThen (UpdateRewardPolicy S c t3) (\<lambda>t4.
    andThen (UpdateTaxCap S E t4) (\<lambda>(t5, taxCap).
    Ok (record_issuance S E (w2\<lparr>tw_state := t5\<rparr>))))))) = Ok w'"
      using r True by (simp del: if_split) blast
    show thesis
    proof (cases "ctx_height c < sint (BlocksPerWeek * WindowProbation (ts_params t1))")
      case p: True
      with True b t1 r1 show thesis by (intro probation) auto
    next
      case p: False
      with r1 obtain w2 t3 t4 t5 caps where "SettleSeigniorage S E (w\<lparr>tw_bank := b, tw_state := t1\<rparr>) = Ok w2"
        "UpdateTaxPolicy S c (tw_state w2) = Ok t3" "UpdateRewardPolicy S c t3 = Ok t4" "UpdateTaxCap S E t4 = Ok (t5, caps)"
        "w' = record_issuance S E (w2\<lparr>tw_state := t5\<rparr>)"
        by auto
      with True b t1 p show thesis by (intro epoch) simp_all
    qed
  qed
qed

definition treasury_inv :: "sdk \<Rightarrow> treasury_state \<Rightarrow> bool" where
  "treasury_inv S t \<longleftrightarrow> treasury_ParamSetPairs S (ts_params t) = Ok ()
    \<and> in_policy (TaxPolicy (ts_params t)) (GetTaxRate t) \<and> in_policy (RewardPolicy (ts_params t)) (GetRewardWeight t)
    \<and> coins_wf (PeekEpochTaxProceeds t) \<and> go_map (ts_tax_caps t) \<and> go_all (\<lambda>_ c. 0 \<le> c) (ts_tax_caps t)"

lemma UpdateIndicators_Ok:
  assumes "UpdateIndicators S E c b t = Ok t'"
  shows "PeekEpochTaxProceeds t' = []" "GetTSL t' (GetEpoch c) = te_bonded E"
    "GetEpochInitialIssuance t' = GetEpochInitialIssuance t"
  using assms
  by (auto simp: UpdateIndicators_def Let_def SetSR_def SetTR_def SetTSL_def SetEpochTaxProceeds_def PeekEpochTaxProceeds_def
    GetEpochInitialIssuance_def GetTSL_def go_get_def)

lemma RecordIssuance_proceeds [simp]:
  "PeekEpochTaxProceeds (RecordEpochInitialIssuance S E b t) = PeekEpochTaxProceeds t"
  by (simp add: RecordEpochInitialIssuance_def SetEpochInitialIssuance_def PeekEpochTaxProceeds_def Let_def)

lemma policies_eqD:
  assumes "policies t' = policies t"
  shows "GetTaxRate t' = GetTaxRate t" "GetRewardWeight t' = GetRewardWeight t" "ts_tax_caps t' = ts_tax_caps t"
    "ts_params t' = ts_params t"
  using assms by (simp_all add: policies_def)

text \<open>One block moves each rate by at most its limit and keeps it in its range.\<close>

lemma EndBlocker_policies:
  assumes S: "dec_laws S" "coin_laws S" "coin_op_laws S" and e: "treasury_EndBlocker S E c w = Ok w'"
    and i: "treasury_inv S (tw_state w)"
  shows "treasury_inv S (tw_state w')" "ts_params (tw_state w') = ts_params (tw_state w)"
    "\<bar>GetTaxRate (tw_state w') - GetTaxRate (tw_state w)\<bar> \<le> ChangeRateMax (TaxPolicy (ts_params (tw_state w)))"
    "\<bar>GetRewardWeight (tw_state w') - GetRewardWeight (tw_state w)\<bar> \<le> ChangeRateMax (RewardPolicy (ts_params (tw_state w)))"
proof -
  let ?t = "tw_state w" let ?p = "ts_params ?t"
  let ?G = "treasury_inv S (tw_state w') \<and> ts_params (tw_state w') = ?p
    \<and> \<bar>GetTaxRate (tw_state w') - GetTaxRate ?t\<bar> \<le> ChangeRateMax (TaxPolicy ?p)
    \<and> \<bar>GetRewardWeight (tw_state w') - GetRewardWeight ?t\<bar> \<le> ChangeRateMax (RewardPolicy ?p)"
  have p: "treasury_ParamSetPairs S ?p = Ok ()" using i by (simp add: treasury_inv_def)
  note pp = ParamSetPairs_Ok [OF p]
  from e have ?G
  proof (cases rule: EndBlocker_cases)
    case (quiet b)
    then show ?thesis using i pp by simp
  next
    case (probation b t1)
    have st: "tw_state w' = RecordEpochInitialIssuance S E b t1" using probation(5) by (simp add: record_issuance_def)
    have "policies (tw_state w') = policies ?t"
      unfolding st using UpdateIndicators_policies [OF probation(3)] by simp
    note pq = policies_eqD [OF this]
    have "PeekEpochTaxProceeds (tw_state w') = []" unfolding st using UpdateIndicators_Ok(1) [OF probation(3)] by simp
    then show ?thesis using i pp pq by (simp add: treasury_inv_def)
  next
    case (epoch b t1 w2 t3 t4 t5 caps)
    note t1 = policies_eqD [OF UpdateIndicators_policies [OF epoch(3)]] and t1p = UpdateIndicators_Ok(1) [OF epoch(3)]
    have t2: "tw_state w2 = t1" using SettleSeigniorage_state [OF epoch(5) S] by simp
    obtain r n where r: "t3 = SetTaxRate r t1" "Clamp S (TaxPolicy ?p) (GetTaxRate ?t) n = Ok r"
      by (rule UpdateTaxPolicy_Ok [OF epoch(6)]) (simp add: t2 t1)
    obtain v m where v: "t4 = SetRewardWeight v t3" "Clamp S (RewardPolicy ?p) (GetRewardWeight ?t) m = Ok v"
      by (rule UpdateRewardPolicy_Ok [OF epoch(7)]) (simp add: r t1)
    note cr = Clamp_Ok [OF S(1) pp(1,3) r(2)] and cv = Clamp_Ok [OF S(1) pp(4,6) v(2)]
    have c4: "go_map (ts_tax_caps t4)" "go_all (\<lambda>_ c. 0 \<le> c) (ts_tax_caps t4)"
      using i by (simp_all add: v r t1 treasury_inv_def)
    note u = UpdateTaxCap_Ok [OF S(1,3) epoch(8) c4]
    have st: "tw_state w' = RecordEpochInitialIssuance S E (tw_bank w2) t5" using epoch(9) by (simp add: record_issuance_def)
    have "policies (tw_state w') = policies t5" by (simp add: st)
    note pq = policies_eqD [OF this]
    have "PeekEpochTaxProceeds (tw_state w') = []" unfolding st using t1p by (simp add: u v r)
    then show ?thesis
      using i p cr(1) cr(2) cv(1) cv(2) u(5,6) by (simp add: treasury_inv_def pq u v r t1)
  qed
  then show "treasury_inv S (tw_state w')" "ts_params (tw_state w') = ts_params (tw_state w)"
    "\<bar>GetTaxRate (tw_state w') - GetTaxRate (tw_state w)\<bar> \<le> ChangeRateMax (TaxPolicy (ts_params (tw_state w)))"
    "\<bar>GetRewardWeight (tw_state w') - GetRewardWeight (tw_state w)\<bar> \<le> ChangeRateMax (RewardPolicy (ts_params (tw_state w)))"
    by blast+
qed

text \<open>What holds whatever governance does to the parameters.\<close>

definition treasury_safe :: "sdk \<Rightarrow> treasury_state \<Rightarrow> bool" where
  "treasury_safe S t \<longleftrightarrow> treasury_ParamSetPairs S (ts_params t) = Ok () \<and> 0 \<le> GetTaxRate t \<and> 0 \<le> GetRewardWeight t
    \<and> coins_wf (PeekEpochTaxProceeds t) \<and> go_map (ts_tax_caps t) \<and> go_all (\<lambda>_ c. 0 \<le> c) (ts_tax_caps t)"

lemma treasury_inv_safe:
  "treasury_inv S t \<longleftrightarrow> treasury_safe S t
    \<and> in_policy (TaxPolicy (ts_params t)) (GetTaxRate t) \<and> in_policy (RewardPolicy (ts_params t)) (GetRewardWeight t)"
  using ParamSetPairs_Ok [of S "ts_params t"] by (auto simp: treasury_inv_def treasury_safe_def in_policy_def)

text \<open>The blocks that set the policies: the last of an epoch, after the probation.\<close>

definition policy_block :: "ctx \<Rightarrow> treasury_state \<Rightarrow> bool" where
  "policy_block c t \<longleftrightarrow> IsPeriodLastBlock c BlocksPerWeek = Ok True
    \<and> \<not> ctx_height c < sint (BlocksPerWeek * WindowProbation (ts_params t))"

lemma EndBlocker_safe:
  assumes S: "dec_laws S" "coin_laws S" "coin_op_laws S" and e: "treasury_EndBlocker S E c w = Ok w'"
    and i: "treasury_safe S (tw_state w)"
  shows "treasury_safe S (tw_state w') \<and> (policy_block c (tw_state w) \<longrightarrow> treasury_inv S (tw_state w'))"
  using e
proof (cases rule: EndBlocker_cases)
  case (quiet b)
  then show ?thesis using i by (simp add: policy_block_def)
next
  case (probation b t1)
  have st: "tw_state w' = RecordEpochInitialIssuance S E b t1" using probation(5) by (simp add: record_issuance_def)
  have pq: "policies (tw_state w') = policies (tw_state w)" "policies t1 = policies (tw_state w)"
    unfolding st using UpdateIndicators_policies [OF probation(3)] by simp_all
  have "PeekEpochTaxProceeds (tw_state w') = []" unfolding st using UpdateIndicators_Ok(1) [OF probation(3)] by simp
  then show ?thesis
    using i probation(4) policies_eqD [OF pq(1)] policies_eqD [OF pq(2)] by (simp add: treasury_safe_def policy_block_def)
next
  case (epoch b t1 w2 t3 t4 t5 caps)
  let ?t = "tw_state w" let ?p = "ts_params ?t"
  have p: "treasury_ParamSetPairs S ?p = Ok ()" using i by (simp add: treasury_safe_def)
  note pp = ParamSetPairs_Ok [OF p]
  note t1 = policies_eqD [OF UpdateIndicators_policies [OF epoch(3)]] and t1p = UpdateIndicators_Ok(1) [OF epoch(3)]
  have t2: "tw_state w2 = t1" using SettleSeigniorage_state [OF epoch(5) S] by simp
  obtain r n where r: "t3 = SetTaxRate r t1" "Clamp S (TaxPolicy ?p) (GetTaxRate ?t) n = Ok r"
    by (rule UpdateTaxPolicy_Ok [OF epoch(6)]) (simp add: t2 t1)
  obtain v m where v: "t4 = SetRewardWeight v t3" "Clamp S (RewardPolicy ?p) (GetRewardWeight ?t) m = Ok v"
    by (rule UpdateRewardPolicy_Ok [OF epoch(7)]) (simp add: r t1)
  note cr = Clamp_Ok(1) [OF S(1) pp(1,3) r(2)] and cv = Clamp_Ok(1) [OF S(1) pp(4,6) v(2)]
  have c4: "go_map (ts_tax_caps t4)" "go_all (\<lambda>_ c. 0 \<le> c) (ts_tax_caps t4)"
    using i by (simp_all add: v r t1 treasury_safe_def)
  note u = UpdateTaxCap_Ok [OF S(1,3) epoch(8) c4]
  have st: "tw_state w' = RecordEpochInitialIssuance S E (tw_bank w2) t5" using epoch(9) by (simp add: record_issuance_def)
  have "policies (tw_state w') = policies t5" by (simp add: st)
  note pq = policies_eqD [OF this]
  have "PeekEpochTaxProceeds (tw_state w') = []" unfolding st using t1p by (simp add: u v r)
  then have "treasury_inv S (tw_state w')"
    using i p cr cv u(5,6) by (simp add: treasury_inv_def pq u v r t1)
  then show ?thesis by (simp add: treasury_inv_safe)
qed

lemma treasury_inv_cong:
  "policies t' = policies t \<Longrightarrow> PeekEpochTaxProceeds t' = PeekEpochTaxProceeds t \<Longrightarrow> treasury_inv S t' = treasury_inv S t"
  by (simp add: treasury_inv_def policies_def)

lemma init_epoch_keep:
  "policies (fold init_epoch es t) = policies t"
  "PeekEpochTaxProceeds (fold init_epoch es t) = PeekEpochTaxProceeds t"
  by (induction es arbitrary: t)
     (simp_all add: init_epoch_def policies_def PeekEpochTaxProceeds_def GetTaxRate_def GetRewardWeight_def
       SetTR_def SetSR_def SetTSL_def)

lemma fold_SetTaxCap:
  "fold (\<lambda>(d, c). SetTaxCap d c) cs t = t\<lparr>ts_tax_caps := fold (\<lambda>(d, c). go_put d c) cs (ts_tax_caps t)\<rparr>"
  by (induction cs arbitrary: t) (auto simp: SetTaxCap_def)

lemma fold_put_caps:
  fixes m :: "(denom, int) gomap"
  assumes "\<forall>p \<in> set cs. 0 \<le> snd p" "go_map m" "go_all (\<lambda>_ c. 0 \<le> c) m"
  shows "go_map (fold (\<lambda>(d, c). go_put d c) cs m) \<and> go_all (\<lambda>_ c. 0 \<le> c) (fold (\<lambda>(d, c). go_put d c) cs m)"
  using assms by (induction cs arbitrary: m) auto

lemma InitGenesis_inv:
  assumes g: "treasury_ValidateGenesis S g = Ok ()" "coins_wf (tg_proceeds g)" "\<forall>p \<in> set (tg_tax_caps g). 0 \<le> snd p"
    and t0: "ts_tax_caps t0 = []" and i: "treasury_InitGenesis S E ma ba b g t0 = Ok t"
  shows "treasury_inv S t"
proof -
  let ?t2 = "SetEpochTaxProceeds (tg_proceeds g) (SetRewardWeight (tg_reward_weight g) (SetTaxRate (tg_tax_rate g)
     (t0\<lparr>ts_params := tg_params g\<rparr>)))"
  let ?t3 = "if coins_is_zero S (tg_issuance g) then RecordEpochInitialIssuance S E b ?t2
     else SetEpochInitialIssuance (tg_issuance g) ?t2"
  let ?t4 = "fold (\<lambda>(d, c). SetTaxCap d c) (tg_tax_caps g) ?t3"
  have t: "t = fold init_epoch (tg_epochs g) ?t4" and p: "treasury_ParamSetPairs S (tg_params g) = Ok ()"
    using i by (auto simp: treasury_InitGenesis_def treasury_SetParams_def Let_def split: if_splits)
  have p2: "policies ?t2 = (tg_tax_rate g, tg_reward_weight g, [], tg_params g)"
    using t0 by (simp add: policies_def GetTaxRate_def SetTaxRate_def GetRewardWeight_def SetRewardWeight_def SetEpochTaxProceeds_def)
  have p3: "policies ?t3 = (tg_tax_rate g, tg_reward_weight g, [], tg_params g)" "PeekEpochTaxProceeds ?t3 = tg_proceeds g"
    using p2 by (simp_all split: if_split)
  have "policies ?t4 = (tg_tax_rate g, tg_reward_weight g, fold (\<lambda>(d, c). go_put d c) (tg_tax_caps g) [], tg_params g)"
    "PeekEpochTaxProceeds ?t4 = tg_proceeds g"
    using p3 by (simp_all add: fold_SetTaxCap policies_def GetTaxRate_def GetRewardWeight_def PeekEpochTaxProceeds_def)
  then have q: "policies t = (tg_tax_rate g, tg_reward_weight g, fold (\<lambda>(d, c). go_put d c) (tg_tax_caps g) [], tg_params g)"
    "PeekEpochTaxProceeds t = tg_proceeds g" by (simp_all add: t init_epoch_keep)
  have "in_policy (TaxPolicy (tg_params g)) (tg_tax_rate g)" "in_policy (RewardPolicy (tg_params g)) (tg_reward_weight g)"
    using g(1) by (auto simp: treasury_ValidateGenesis_def in_policy_def split: if_splits)
  then show ?thesis
    using q p g(2) fold_put_caps [OF g(3), of "[]"] by (simp add: treasury_inv_def policies_def)
qed

lemma RecordTax_inv:
  assumes "coin_laws S" "treasury_inv S t" "coins_wf taxes" "RecordEpochTaxProceeds S taxes t = Ok t'"
  shows "treasury_inv S t'" "policies t' = policies t"
    "coins_is_zero S taxes \<or> (\<forall>d. amt (PeekEpochTaxProceeds t') d = amt (PeekEpochTaxProceeds t) d + amt taxes d)"
proof -
  have "(t' = t \<and> coins_is_zero S taxes) \<or> (\<exists>cs. coins_add S (PeekEpochTaxProceeds t) taxes = Ok cs \<and> t' = SetEpochTaxProceeds cs t)"
    using assms(4) by (auto simp: RecordEpochTaxProceeds_def split: if_splits)
  moreover have "coins_wf cs \<and> (\<forall>d. amt cs d = amt (PeekEpochTaxProceeds t) d + amt taxes d)"
    if "coins_add S (PeekEpochTaxProceeds t) taxes = Ok cs" for cs
    using coins_addD [OF assms(1) _ assms(3) that] assms(2) by (simp add: treasury_inv_def)
  ultimately have "treasury_inv S t' \<and> policies t' = policies t \<and> (coins_is_zero S taxes \<or>
      (\<forall>d. amt (PeekEpochTaxProceeds t') d = amt (PeekEpochTaxProceeds t) d + amt taxes d))"
  proof (elim disjE exE conjE)
    fix cs assume c: "coins_add S (PeekEpochTaxProceeds t) taxes = Ok cs" "t' = SetEpochTaxProceeds cs t"
      and w: "\<And>cs. coins_add S (PeekEpochTaxProceeds t) taxes = Ok cs \<Longrightarrow>
        coins_wf cs \<and> (\<forall>d. amt cs d = amt (PeekEpochTaxProceeds t) d + amt taxes d)"
    have "policies t' = policies t" by (simp add: c)
    with assms(2) w [OF c(1)] policies_eqD [OF this] show ?thesis by (simp add: c(2) treasury_inv_def)
  qed (use assms(2) in auto)
  then show "treasury_inv S t'" "policies t' = policies t"
    "coins_is_zero S taxes \<or> (\<forall>d. amt (PeekEpochTaxProceeds t') d = amt (PeekEpochTaxProceeds t) d + amt taxes d)"
    by auto
qed

lemma RecordTax_safe:
  assumes "coin_laws S" "treasury_safe S t" "coins_wf taxes" "RecordEpochTaxProceeds S taxes t = Ok t'"
  shows "treasury_safe S t'" "policies t' = policies t"
proof -
  have "t' = t \<or> (\<exists>cs. coins_add S (PeekEpochTaxProceeds t) taxes = Ok cs \<and> t' = SetEpochTaxProceeds cs t)"
    using assms(4) by (auto simp: RecordEpochTaxProceeds_def split: if_splits)
  then consider "t' = t" | cs where "coins_add S (PeekEpochTaxProceeds t) taxes = Ok cs" "t' = SetEpochTaxProceeds cs t"
    by blast
  then have "treasury_safe S t' \<and> policies t' = policies t"
  proof cases
    case (2 cs)
    have "policies t' = policies t" by (simp add: 2)
    moreover have "coins_wf cs" using coins_addD [OF assms(1) _ assms(3) 2(1)] assms(2) by (simp add: treasury_safe_def)
    ultimately show ?thesis using assms(2) policies_eqD [of t' t] by (simp add: 2(2) treasury_safe_def)
  qed (use assms(2) in simp)
  then show "treasury_safe S t'" "policies t' = policies t" by auto
qed

text \<open>
  The states of the module. A new chain starts from a validated genesis that has no tax caps and no tax
  proceeds yet; a chain restarts from the export of a state it reached. Blocks end, taxes are recorded,
  and governance changes the parameters to any that pass their validators. The keepers of the other
  modules and their state may be different at every step. The flag says that the policies in force are
  those the current rates were checked against or set by: a change of the parameters lowers it, a block
  that sets the policies and a validated genesis raise it.
\<close>

inductive treasury_reach :: "sdk \<Rightarrow> 'b bank \<Rightarrow> bool \<Rightarrow> treasury_state \<Rightarrow> bool" for S B where
  genesis: "treasury_ValidateGenesis S g = Ok () \<Longrightarrow> tg_tax_caps g = [] \<Longrightarrow> tg_proceeds g = [] \<Longrightarrow> ts_tax_caps t0 = [] \<Longrightarrow>
    te_bank E = B \<Longrightarrow> treasury_InitGenesis S E ma ba b g t0 = Ok t \<Longrightarrow> treasury_reach S B True t"
| restart: "treasury_reach S B u t \<Longrightarrow> treasury_ExportGenesis c t = Ok g \<Longrightarrow> treasury_ValidateGenesis S g = Ok () \<Longrightarrow>
    ts_tax_caps t0 = [] \<Longrightarrow> te_bank E = B \<Longrightarrow> treasury_InitGenesis S E ma ba b g t0 = Ok t' \<Longrightarrow> treasury_reach S B True t'"
| end_block: "treasury_reach S B u (tw_state w) \<Longrightarrow> te_bank E = B \<Longrightarrow> treasury_EndBlocker S E c w = Ok w' \<Longrightarrow>
    treasury_reach S B (u \<or> policy_block c (tw_state w)) (tw_state w')"
| tax: "treasury_reach S B u t \<Longrightarrow> coins_wf taxes \<Longrightarrow> RecordEpochTaxProceeds S taxes t = Ok t' \<Longrightarrow> treasury_reach S B u t'"
| params: "treasury_reach S B u t \<Longrightarrow> treasury_SetParams S p t = Ok t' \<Longrightarrow> treasury_reach S B False t'"


definition empty_treasury :: treasury_state where
  "empty_treasury = \<lparr>ts_tax_rate = None, ts_reward_weight = None, ts_tax_caps = [], ts_proceeds = None, ts_issuance = None,
     ts_TR = [], ts_SR = [], ts_TSL = [], ts_params = treasury_DefaultParams\<rparr>"

definition treasury_env0 :: "ref_bank treasury_env" where
  "treasury_env0 = \<lparr>te_bank = bank_ref, te_swap = (\<lambda>c d. Err (ErrNoEffectivePrice d)), te_whitelist = [], te_bonded = 500,
     te_distribution = ''distribution''\<rparr>"

definition sample_treasury :: treasury_state where
  "sample_treasury = empty_treasury\<lparr>ts_tax_rate := Some DefaultTaxRate, ts_reward_weight := Some DefaultRewardWeight,
     ts_proceeds := Some [], ts_issuance := Some [\<lparr>coin_denom = ''uluna'', coin_amount = 1000\<rparr>]\<rparr>"

lemma sample_treasury_params: "treasury_ParamSetPairs sdk_ref treasury_DefaultParams = Ok ()"
  by (simp add: treasury_ParamSetPairs_def validateTaxPolicy_def validateRewardPolicy_def validateSeigniorageBurdenTarget_def
    validateMiningIncrement_def treasury_DefaultParams_def DefaultTaxPolicy_def DefaultRewardPolicy_def coin_is_valid_def
    MicroSDRDenom_def MicroUnit_def require_def)

lemma sample_treasury_reach: "treasury_reach sdk_ref bank_ref True sample_treasury"
proof (rule treasury_reach.genesis)
  let ?g = "treasury_DefaultGenesisState\<lparr>tg_issuance := [\<lparr>coin_denom = ''uluna'', coin_amount = 1000\<rparr>]\<rparr>"
  show "treasury_InitGenesis sdk_ref treasury_env0 True True swap_bank ?g empty_treasury = Ok sample_treasury"
    using sample_treasury_params
    by (simp add: treasury_InitGenesis_def treasury_SetParams_def treasury_DefaultGenesisState_def sample_treasury_def
      empty_treasury_def SetTaxRate_def SetRewardWeight_def SetEpochTaxProceeds_def SetEpochInitialIssuance_def Let_def)
  show "treasury_ValidateGenesis sdk_ref ?g = Ok ()"
    by (simp add: treasury_ValidateGenesis_def treasury_Params_Validate_def treasury_DefaultGenesisState_def
      treasury_DefaultParams_def DefaultTaxPolicy_def DefaultRewardPolicy_def DefaultTaxRate_def DefaultRewardWeight_def
      coin_is_valid_def MicroSDRDenom_def MicroUnit_def)
qed (simp_all add: treasury_DefaultGenesisState_def empty_treasury_def treasury_env0_def)

text \<open>Governance raises the least tax rate above the current one.\<close>

definition raised_params :: treasury_params where
  "raised_params = treasury_DefaultParams\<lparr>TaxPolicy := DefaultTaxPolicy\<lparr>RateMin := one_dec, RateMax := one_dec\<rparr>\<rparr>"

lemma raised_treasury_reach: "treasury_reach sdk_ref bank_ref False (sample_treasury\<lparr>ts_params := raised_params\<rparr>)"
proof (rule treasury_reach.params [OF sample_treasury_reach])
  have "treasury_ParamSetPairs sdk_ref raised_params = Ok ()"
    using sample_treasury_params
    by (auto simp: raised_params_def treasury_ParamSetPairs_def validateTaxPolicy_def treasury_DefaultParams_def one_dec_def
      split: if_splits)
  then show "treasury_SetParams sdk_ref raised_params sample_treasury = Ok (sample_treasury\<lparr>ts_params := raised_params\<rparr>)"
    by (simp add: treasury_SetParams_def)
qed


section \<open>Seigniorage\<close>

lemma pool_add_luna:
  assumes S: "coin_set_laws S" "dec_coin_laws S" and p: "dec_coins_wf pool" and n: "0 \<le> n"
    and a: "dec_coins_add S pool (dec_coins_of_coins S (luna_coins n)) = Ok pool'"
  shows "damt pool' d = damt pool d + (if d = MicroLunaDenom then dec_of_int n else 0)"
proof -
  have dc: "dec_coins_of_coins S (luna_coins n)
      = map (\<lambda>c. \<lparr>dc_denom = coin_denom c, dc_amount = dec_of_int (coin_amount c)\<rparr>) (luna_coins n)"
    using S(1) n unfolding coin_set_laws_def by simp
  show ?thesis
  proof (cases "n = 0")
    case True
    have "\<forall>a. dec_coins_wf a \<longrightarrow> dec_coins_add S a [] = Ok a" using S(1) unfolding coin_set_laws_def by (elim conjE)
    with a p True dc show ?thesis by (simp add: luna_coins_def dec_of_int_def)
  next
    case False
    let ?c = "\<lparr>dc_denom = MicroLunaDenom, dc_amount = dec_of_int n\<rparr>"
    have "dec_coins_add S pool [?c] = Ok pool'" using a dc False by (simp add: luna_coins_def)
    moreover have "0 \<le> dc_amount ?c" using n by (simp add: dec_of_int_def)
    ultimately have "damt pool' d = damt pool d + damt [?c] d"
      using dec_coins_addD [OF S(2) p] by blast
    then show ?thesis by (simp add: damt_Cons)
  qed
qed

lemma SettleSeigniorage_effect:
  assumes S: "dec_laws S" "coin_laws S" "coin_op_laws S" "coin_set_laws S" "dec_coin_laws S" "bank_laws (te_bank E)"
    and n: "te_distribution E \<noteq> treasury_name" and p: "dec_coins_wf (tw_pool w)"
    and s: "SettleSeigniorage S E w = Ok w'"
  shows "\<exists>n burn. PeekEpochSeigniorage S E (tw_bank w) (tw_state w) = Ok n
    \<and> burn = GetRewardWeight (tw_state w) * n sdiv one_dec \<and> 0 \<le> burn \<and> burn \<le> n \<and> tw_state w' = tw_state w
    \<and> (\<forall>d. bk_supply (te_bank E) (tw_bank w') d
          = bk_supply (te_bank E) (tw_bank w) d + (if d = MicroLunaDenom then n - burn else 0))
    \<and> (\<forall>h d. bk_balance (te_bank E) (tw_bank w') h d = bk_balance (te_bank E) (tw_bank w) h d
          + (if d = MicroLunaDenom \<and> h = Mod (te_distribution E) then n - burn else 0))
    \<and> (\<forall>d. damt (tw_pool w') d = damt (tw_pool w) d + (if d = MicroLunaDenom then dec_of_int (n - burn) else 0))"
  using s
proof (cases rule: SettleSeigniorage_cases)
  case (1 n)
  then have "n = 0" by (auto simp: PeekEpochSeigniorage_def Let_def split: if_splits)
  with 1 show ?thesis by (intro exI [of _ 0]) (simp add: dec_of_int_def)
next
  case (2 n)
  obtain b1 burn b2 b3 pool where
    m: "bk_mint (te_bank E) treasury_name (luna_coins n) (tw_bank w) = Ok b1" and
    b: "burn = (GetRewardWeight (tw_state w) * n) sdiv one_dec" "0 \<le> burn" "burn \<le> n" and
    u: "bk_burn (te_bank E) treasury_name (luna_coins burn) b1 = Ok b2" and
    t: "bk_send (te_bank E) (Mod treasury_name) (Mod (te_distribution E)) (luna_coins (n - burn)) b2 = Ok b3" and
    a: "dec_coins_add S (tw_pool w) (dec_coins_of_coins S (luna_coins (n - burn))) = Ok pool" and
    w': "w' = w\<lparr>tw_bank := b3, tw_pool := pool\<rparr>"
    by (rule distribute_stages [OF 2(3) S(1-3) 2(2)])
  have wf: "coins_wf (luna_coins n)" "coins_wf (luna_coins burn)" "coins_wf (luna_coins (n - burn))" using 2(2) b by simp_all
  have sup: "bk_supply (te_bank E) b3 d = bk_supply (te_bank E) (tw_bank w) d + (if d = MicroLunaDenom then n - burn else 0)" for d
    by (simp add: bank_sendD(3) [OF S(6) wf(3) t] bank_burnD(3) [OF S(6) wf(2) u] bank_mintD(2) [OF S(6) wf(1) m])
  have balance: "bk_balance (te_bank E) b3 h d = bk_balance (te_bank E) (tw_bank w) h d
          + (if d = MicroLunaDenom \<and> h = Mod (te_distribution E) then n - burn else 0)" for h d
    using n
    by (simp add: bank_sendD(2) [OF S(6) wf(3) t] bank_burnD(2) [OF S(6) wf(2) u] bank_mintD(1) [OF S(6) wf(1) m] at_def)
  have pool: "damt pool d = damt (tw_pool w) d + (if d = MicroLunaDenom then dec_of_int (n - burn) else 0)" for d
    by (rule pool_add_luna [OF S(4,5) p _ a]) (use b in simp)
  from 2 b sup balance pool show ?thesis by (intro exI [of _ n] exI [of _ burn]) (simp add: w')
qed


lemma seigniorage_balance:
  assumes "dec_laws S" "coin_laws S" "coin_op_laws S" "coin_set_laws S" "dec_coin_laws S" "bank_laws (te_bank E)"
    and "te_distribution E \<noteq> treasury_name" "dec_coins_wf (tw_pool w)" "SettleSeigniorage S E w = Ok w'"
    and "h \<noteq> Mod (te_distribution E)"
  shows "bk_balance (te_bank E) (tw_bank w') h d = bk_balance (te_bank E) (tw_bank w) h d"
  using SettleSeigniorage_effect [OF assms(1-9)] assms(10) by auto

text \<open>
  C6: settling the seigniorage mints what the supply of Luna fell short of the epoch's initial
  issuance, burns the share of the reward weight rounded down, and moves the rest to the
  distribution account, whose community pool grows by exactly that. No other balance, supply or
  part of the store changes, and without a shortfall nothing does.
\<close>

theorem seigniorage_settled:
  assumes S: "dec_laws S" "coin_laws S" "coin_op_laws S" "coin_set_laws S" "dec_coin_laws S" "bank_laws (te_bank E)"
    and n: "te_distribution E \<noteq> treasury_name" and p: "dec_coins_wf (tw_pool w)"
    and s: "SettleSeigniorage S E w = Ok w'"
  shows "\<exists>n burn. PeekEpochSeigniorage S E (tw_bank w) (tw_state w) = Ok n
    \<and> burn = GetRewardWeight (tw_state w) * n sdiv one_dec \<and> 0 \<le> burn \<and> burn \<le> n \<and> tw_state w' = tw_state w
    \<and> (\<forall>d. bk_supply (te_bank E) (tw_bank w') d
          = bk_supply (te_bank E) (tw_bank w) d + (if d = MicroLunaDenom then n - burn else 0))
    \<and> (\<forall>h d. bk_balance (te_bank E) (tw_bank w') h d = bk_balance (te_bank E) (tw_bank w) h d
          + (if d = MicroLunaDenom \<and> h = Mod (te_distribution E) then n - burn else 0))
    \<and> (\<forall>d. damt (tw_pool w') d = damt (tw_pool w) d + (if d = MicroLunaDenom then dec_of_int (n - burn) else 0))"
  by (rule SettleSeigniorage_effect [OF assms])

definition treasury_world0 :: "ref_bank treasury_world" where
  "treasury_world0 = \<lparr>tw_state = sample_treasury, tw_bank = ([], \<lambda>d. 900), tw_pool = []\<rparr>"

lemma world0_seigniorage: "PeekEpochSeigniorage sdk_ref treasury_env0 (tw_bank treasury_world0) (tw_state treasury_world0) = Ok 100"
  by (simp add: PeekEpochSeigniorage_def treasury_env0_def treasury_world0_def bank_ref_def sample_treasury_def
    GetEpochInitialIssuance_def amt_Cons MicroLunaDenom_def ref_eval)

lemma world0_settles: "\<exists>w'. SettleSeigniorage sdk_ref treasury_env0 treasury_world0 = Ok w'"
proof -
  have k: "GetRewardWeight sample_treasury = 50000000000000000"
    by (simp add: GetRewardWeight_def sample_treasury_def DefaultRewardWeight_def)
  have "\<exists>w'. distribute_seigniorage sdk_ref treasury_env0 100 treasury_world0 = Ok w'"
    by (simp add: distribute_seigniorage_def k treasury_world0_def treasury_env0_def MicroLunaDenom_def coin_op_eval
      coins_is_validI [OF coin_op_laws_sdk_ref] ref_eval coins_eval bank_eval treasury_name_def)
  then show ?thesis by (simp add: SettleSeigniorage_def world0_seigniorage)
qed

theorem seigniorage_settled_witness:
  "\<exists>w'. SettleSeigniorage sdk_ref treasury_env0 treasury_world0 = Ok w' \<and> bk_supply bank_ref (tw_bank w') ''uluna'' = 995"
proof -
  obtain w' where w': "SettleSeigniorage sdk_ref treasury_env0 treasury_world0 = Ok w'" using world0_settles by blast
  have e: "te_bank treasury_env0 = bank_ref" "te_distribution treasury_env0 \<noteq> treasury_name" "dec_coins_wf (tw_pool treasury_world0)"
    "bk_supply bank_ref (tw_bank treasury_world0) d = 900" for d
    by (simp_all add: treasury_env0_def treasury_name_def treasury_world0_def bank_ref_def)
  have "100 * GetRewardWeight (tw_state treasury_world0) sdiv one_dec = 5"
    by (simp add: treasury_world0_def GetRewardWeight_def sample_treasury_def DefaultRewardWeight_def ref_eval)
  then have "bk_supply bank_ref (tw_bank w') MicroLunaDenom = 995"
    using seigniorage_settled [OF _ _ _ _ _ _ e(2,3) w'] by (auto simp: e world0_seigniorage mult.commute)
  with w' show ?thesis by (auto simp: MicroLunaDenom_def)
qed


lemma andThen_not_Err: "r \<noteq> Err e \<Longrightarrow> (\<And>a. r = Ok a \<Longrightarrow> f a \<noteq> Err e) \<Longrightarrow> andThen r f \<noteq> Err e"
  by (cases r) auto

lemma coin_ops_not_Err:
  assumes "dec_laws S" "coin_laws S" "coin_op_laws S"
  shows "new_coin S d n \<noteq> Err e" "new_dec_coin S d n \<noteq> Err e" "new_coins S [c] \<noteq> Err e" "dec_coin_trunc S dc \<noteq> Err e"
    "dec_mul_int S x n \<noteq> Err e" "dec_trunc S x \<noteq> Err e" "int_sub S a b \<noteq> Err e"
  using assms
  by (simp_all add: new_coinI new_dec_coinI new_coinsI dec_coin_truncI dec_exact andThen_Err_iff split: if_splits)

lemma pool_add_not_Err:
  assumes S: "coin_set_laws S" "dec_coin_laws S" and p: "dec_coins_wf pool" and n: "0 \<le> n"
  shows "dec_coins_add S pool (dec_coins_of_coins S (luna_coins n)) \<noteq> Err e"
proof -
  have dc: "dec_coins_of_coins S (luna_coins n)
      = map (\<lambda>c. \<lparr>dc_denom = coin_denom c, dc_amount = dec_of_int (coin_amount c)\<rparr>) (luna_coins n)"
    using S(1) n unfolding coin_set_laws_def by simp
  have e: "dec_coins_add S pool [] = Ok pool" using S(1) p unfolding coin_set_laws_def by simp
  have "\<forall>a b. dec_coins_wf a \<longrightarrow> 0 \<le> dc_amount b \<longrightarrow> dec_coins_add S a [b] = Panic
      \<or> (\<exists>c. dec_coins_add S a [b] = Ok c \<and> dec_coins_wf c \<and> (\<forall>d. damt c d = damt a d + damt [b] d))"
    using S(2) unfolding dec_coin_laws_def by (elim conjE)
  then have "dec_coins_add S pool [c] \<noteq> Err e" if "0 \<le> dc_amount c" for c using p that by fastforce
  with e dc n show ?thesis by (simp add: luna_coins_def dec_of_int_def)
qed

lemma distribute_no_Err:
  assumes S: "dec_laws S" "coin_laws S" "coin_op_laws S" "coin_set_laws S" "dec_coin_laws S" and p: "dec_coins_wf (tw_pool w)"
  shows "distribute_seigniorage S E n w \<noteq> Err e"
proof -
  have last: "(if coins_is_valid S lcs
     then andThen (mustOk (bk_send B x y lcs b2)) (\<lambda>b3.
       andThen (dec_coins_add S (tw_pool w) (dec_coins_of_coins S lcs)) (\<lambda>pool.
       Ok (w\<lparr>tw_bank := b3, tw_pool := pool\<rparr>)))
     else Ok (w\<lparr>tw_bank := b2\<rparr>)) \<noteq> Err e"
    if "new_coin S MicroLunaDenom l = Ok lc" "new_coins S [lc] = Ok lcs" for l lc lcs B x y b2
    using new_coins_luna [OF S(2,3) that] pool_add_not_Err [OF S(4,5) p, of l e] by (simp add: andThen_Err_iff)
  show ?thesis
    unfolding distribute_seigniorage_def Let_def
    by (intro andThen_not_Err coin_ops_not_Err [OF S(1-3)] last | simp split: prod.splits if_splits; intro impI allI)+
qed

text \<open>
  C36: the validators of the reward policy do not bound its maximum by one, and a reward weight above
  one halts the chain: when the share to burn exceeds the seigniorage, settling panics, since the
  amount left for the community pool is negative.
\<close>

theorem overweight_reward_halts:
  assumes S: "dec_laws S" "coin_laws S" "coin_op_laws S" "coin_set_laws S" "dec_coin_laws S"
    and i: "treasury_inv S (tw_state w)" "dec_coins_wf (tw_pool w)"
    and n: "PeekEpochSeigniorage S E (tw_bank w) (tw_state w) = Ok n" "0 < n"
    and o: "n < GetRewardWeight (tw_state w) * n sdiv one_dec"
  shows "SettleSeigniorage S E w = Panic"
proof -
  have "distribute_seigniorage S E n w \<noteq> Ok w'" for w'
  proof
    assume d: "distribute_seigniorage S E n w = Ok w'"
    show False by (rule distribute_stages [OF d S(1-3) n(2)]) (use o in simp)
  qed
  with distribute_no_Err [OF S i(2)] have "distribute_seigniorage S E n w = Panic"
    by (cases "distribute_seigniorage S E n w") auto
  then show ?thesis using n by (simp add: SettleSeigniorage_def)
qed

section \<open>Windows\<close>

lemma indicator_loop_stop: "\<not> (0 \<le> i \<and> low < i) \<Longrightarrow> indicator_loop S f low i s = Ok (i, s)"
  by (subst indicator_loop.simps) (rule if_not_P)

lemma indicator_loop_step:
  "0 \<le> i \<Longrightarrow> low < i \<Longrightarrow> indicator_loop S f low i s
    = andThen (f i) (\<lambda>val. andThen (dec_add S s val) (indicator_loop S f low (i - 1)))"
  by (subst indicator_loop.simps) simp

lemma indicator_loop_floor: "-1 \<le> i \<Longrightarrow> indicator_loop S f low i s = indicator_loop S f (max low (-1)) i s"
proof (induction "nat (i + 1)" arbitrary: i s)
  case 0
  then show ?case by (simp add: indicator_loop_stop)
next
  case (Suc n)
  then have IH: "indicator_loop S f low (i - 1) = indicator_loop S f (max low (-1)) (i - 1)" by (intro ext) simp
  from Suc have "0 \<le> i" by simp
  then show ?case by (cases "low < i") (simp_all add: indicator_loop_step indicator_loop_stop IH)
qed

lemma indicator_loop_sum:
  assumes S: "dec_laws S" and "-1 \<le> low" "low \<le> i" and "\<And>j. low < j \<Longrightarrow> j \<le> i \<Longrightarrow> f j = Ok (v j) \<and> \<bar>v j\<bar> \<le> M"
    and "\<bar>s\<bar> + M * (i - low) < 2 ^ 255"
  shows "indicator_loop S f low i s = Ok (low, s + (\<Sum>j\<in>{low<..i}. v j))"
  using assms(3-5)
proof (induction "nat (i - low)" arbitrary: i s)
  case 0
  then show ?case by (simp add: indicator_loop_stop)
next
  case (Suc n)
  then have i: "low < i" by simp
  then have i0: "0 \<le> i" using assms(2) by simp
  have v: "f i = Ok (v i)" "\<bar>v i\<bar> \<le> M" using Suc.prems(2) [of i] i by auto
  have M: "M * (i - low) = M * (i - 1 - low) + M" by (simp add: algebra_simps)
  have M0: "0 \<le> M * (i - 1 - low)" using v(2) i by (intro mult_nonneg_nonneg) auto
  have fit: "\<bar>s + v i\<bar> + M * (i - 1 - low) < 2 ^ 255" using Suc.prems(3) v(2) M by linarith
  then have "dec_add S s (v i) = Ok (s + v i)"
    using M0 dec_bitsD [OF S] by (simp only: dec_addI [OF S]) (rule chk_fits; linarith)
  moreover have "indicator_loop S f low (i - 1) (s + v i) = Ok (low, s + v i + (\<Sum>j\<in>{low<..i - 1}. v j))"
    using Suc.hyps(2) i fit by (intro Suc.hyps(1)) (auto intro!: Suc.prems(2))
  moreover have "{low<..i} = insert i {low<..i - 1}" using i by auto
  ultimately show ?case using i i0 v by (simp add: indicator_loop_step algebra_simps)
qed

text \<open>
  the rolling average ends and is the average. For a window of at least one epoch, an indicator
  that is defined and bounded on the window, and sums that fit, the loop visits the epochs of the
  window that exist, from the current one down, and the result is their sum divided by their
  number, rounded towards zero.
\<close>

theorem rolling_average:
  assumes S: "dec_laws S" and h: "0 \<le> ctx_height c" "ctx_height c < 2 ^ 63" and n: "0 < n" "n < 2 ^ 63"
    and f: "\<And>j. 0 \<le> j \<Longrightarrow> j \<le> GetEpoch c \<Longrightarrow> f j = Ok (v j) \<and> \<bar>v j\<bar> \<le> M" and M: "M < 2 ^ 190"
  shows "rollingAverageIndicator S c n f
    = Ok ((\<Sum>j\<in>{max 0 (GetEpoch c - n + 1)..GetEpoch c}. v j) sdiv min n (GetEpoch c + 1))"
proof -
  let ?e = "GetEpoch c" let ?l = "max (?e - n) (-1)"
  have b: "sint BlocksPerWeek = 100800" by (simp add: blocks_defs)
  then have e: "?e = ctx_height c div 100800" using h by (simp add: GetEpoch_def sdiv_nonneg)
  have e0: "0 \<le> ?e" "?e < 2 ^ 63" using h unfolding e by (simp_all add: div_less_iff_int pos_imp_zdiv_nonneg_iff)
  have w: "i64 (?e - n) = ?e - n" using e0 n by (intro i64_id) (auto simp: in_i64_def)
  have "0 \<le> M" using f [of 0] e0 by auto
  then have "M * (?e - ?l) \<le> 2 ^ 190 * 2 ^ 64" using M e0 n by (intro mult_mono) auto
  also have "\<dots> < (2::int) ^ 255" by simp
  finally have fit: "\<bar>0\<bar> + M * (?e - ?l) < 2 ^ 255" by simp
  have "indicator_loop S f (?e - n) ?e 0 = indicator_loop S f ?l ?e 0"
    by (rule indicator_loop_floor) (use e0 in simp)
  also have "\<dots> = Ok (?l, 0 + (\<Sum>j\<in>{?l<..?e}. v j))"
    by (rule indicator_loop_sum [OF S _ _ _ fit]) (use e0 n f in auto)
  also have "{?l<..?e} = {max 0 (?e - n + 1)..?e}" by auto
  finally have "indicator_loop S f (?e - n) ?e 0 = Ok (?l, \<Sum>j\<in>{max 0 (?e - n + 1)..?e}. v j)" by simp
  moreover have "?e - ?l = min n (?e + 1)" "?e - ?l \<noteq> 0" using n e0 by auto
  ultimately show ?thesis
    unfolding rollingAverageIndicator_def Let_def w by (simp add: dec_quo_intI [OF S])
qed

theorem rolling_average_witness:
  "rollingAverageIndicator sdk_ref \<lparr>ctx_height = 403199, ctx_chain = ''''\<rparr> 2 (\<lambda>j. Ok (j * one_dec)) = Ok (5 * one_dec sdiv 2)"
proof -
  let ?c = "\<lparr>ctx_height = 403199, ctx_chain = ''''\<rparr>"
  have e: "GetEpoch ?c = 3" by (simp add: GetEpoch_def blocks_defs sdiv_nonneg)
  have s: "{2..3::int} = {2, 3}" by auto
  have "rollingAverageIndicator sdk_ref ?c 2 (\<lambda>j. Ok (j * one_dec))
    = Ok ((\<Sum>j\<in>{max 0 (GetEpoch ?c - 2 + 1)..GetEpoch ?c}. j * one_dec) sdiv min 2 (GetEpoch ?c + 1))"
    by (rule rolling_average [where M = "3 * one_dec"]) (auto simp: e one_dec_def)
  then show ?thesis by (simp add: e s)
qed

section \<open>The end of an epoch\<close>

lemma burn_account_empty:
  assumes S: "dec_coin_laws S" "bank_laws (te_bank E)" and b: "BurnCoinsFromBurnAccount S E b = Ok b'"
  shows "bk_balance (te_bank E) b' (Mod burn_name) d = 0"
    "h \<noteq> Mod burn_name \<Longrightarrow> bk_balance (te_bank E) b' h d = bk_balance (te_bank E) b h d"
    "bk_supply (te_bank E) b' d = bk_supply (te_bank E) b d - bk_balance (te_bank E) b (Mod burn_name) d"
proof -
  let ?cs = "bk_all_balances (te_bank E) b (Mod burn_name)"
  note bal = bank_balances [OF S(2), of b "Mod burn_name"]
  have z: "coins_is_zero S ?cs \<longleftrightarrow> (\<forall>x\<in>set ?cs. coin_amount x = 0)" using S(1) unfolding dec_coin_laws_def by blast
  have "bk_balance (te_bank E) b' (Mod burn_name) d = 0 \<and>
    (h \<noteq> Mod burn_name \<longrightarrow> bk_balance (te_bank E) b' h d = bk_balance (te_bank E) b h d) \<and>
    bk_supply (te_bank E) b' d = bk_supply (te_bank E) b d - bk_balance (te_bank E) b (Mod burn_name) d"
  proof (cases "coins_is_zero S ?cs")
    case True
    then have "?cs = []" using z bal(1) by (cases ?cs) (auto simp: coins_wf_def)
    then have "bk_balance (te_bank E) b (Mod burn_name) d = 0" using bal(2) [of d] by simp
    with True b show ?thesis by (simp add: BurnCoinsFromBurnAccount_def Let_def)
  next
    case False
    with b have u: "bk_burn (te_bank E) burn_name ?cs b = Ok b'" by (simp add: BurnCoinsFromBurnAccount_def Let_def)
    note D = bank_burnD [OF S(2) bal(1) u]
    show ?thesis using D(2,3) bal(2) by (simp add: at_def)
  qed
  then show "bk_balance (te_bank E) b' (Mod burn_name) d = 0"
    "h \<noteq> Mod burn_name \<Longrightarrow> bk_balance (te_bank E) b' h d = bk_balance (te_bank E) b h d"
    "bk_supply (te_bank E) b' d = bk_supply (te_bank E) b d - bk_balance (te_bank E) b (Mod burn_name) d" by blast+
qed

lemma amt_mset: "mset xs = mset ys \<Longrightarrow> amt xs d = amt ys d"
proof -
  assume e: "mset xs = mset ys"
  let ?f = "\<lambda>c. if coin_denom c = d then coin_amount c else 0"
  have "sum_mset (image_mset ?f (mset xs)) = sum_mset (image_mset ?f (mset ys))" by (simp only: e)
  then show ?thesis unfolding amt_def by (simp only: mset_map [symmetric] sum_mset_sum_list)
qed

lemma issuance_recorded:
  assumes S: "dec_laws S" "coin_op_laws S" "coin_set_laws S"
    and d: "distinct (map di_name (te_whitelist E))" "MicroLunaDenom \<notin> di_name ` set (te_whitelist E)"
  shows "d \<in> insert MicroLunaDenom (di_name ` set (te_whitelist E)) \<Longrightarrow>
      amt (GetEpochInitialIssuance (RecordEpochInitialIssuance S E b t)) d = bk_supply (te_bank E) b d"
    "PeekEpochSeigniorage S E b (RecordEpochInitialIssuance S E b t) = Ok 0"
proof -
  let ?cs = "GetSupply (te_bank E) b MicroLunaDenom # map (\<lambda>x. GetSupply (te_bank E) b (di_name x)) (te_whitelist E)"
  let ?I = "GetEpochInitialIssuance (RecordEpochInitialIssuance S E b t)"
  have I: "?I = coins_sort S ?cs" by (simp add: RecordEpochInitialIssuance_def Let_def)
  have so: "mset (coins_sort S ?cs) = mset ?cs" "sorted (map coin_denom (coins_sort S ?cs))"
    using S(2) unfolding coin_op_laws_def by blast+
  have dn: "map coin_denom ?cs = MicroLunaDenom # map di_name (te_whitelist E)" by (simp add: GetSupply_def comp_def)
  have "mset (map coin_denom (coins_sort S ?cs)) = mset (map coin_denom ?cs)" using so(1) by (metis mset_map)
  then have "distinct (map coin_denom (coins_sort S ?cs))" using d dn by (metis distinct.simps(2) mset_eq_imp_distinct_iff set_map)
  then have st: "sorted_wrt (<) (map coin_denom ?I)" using so(2) I by (simp add: strict_sorted_iff)
  have am: "amt ?I d = amt ?cs d" for d unfolding I by (rule amt_mset [OF so(1)])
  have w: "amt (map (\<lambda>x. GetSupply (te_bank E) b (di_name x)) ws) d
      = (if d \<in> di_name ` set ws then bk_supply (te_bank E) b d else 0)" if "distinct (map di_name ws)" for ws d
    using that by (induction ws) (auto simp: amt_Cons GetSupply_def)
  have all: "amt ?cs d = bk_supply (te_bank E) b d" if "d \<in> insert MicroLunaDenom (di_name ` set (te_whitelist E))" for d
    using that d w [OF d(1)] by (auto simp: amt_Cons GetSupply_def)
  show "d \<in> insert MicroLunaDenom (di_name ` set (te_whitelist E)) \<Longrightarrow> amt ?I d = bk_supply (te_bank E) b d"
    using am all by simp
  have "coins_amount_of S ?I MicroLunaDenom = bk_supply (te_bank E) b MicroLunaDenom"
    using S(3) st am all [of MicroLunaDenom] unfolding coin_set_laws_def by simp
  then show "PeekEpochSeigniorage S E b (RecordEpochInitialIssuance S E b t) = Ok 0"
    by (simp add: PeekEpochSeigniorage_def Let_def int_subI [OF S(1)] chk_eval)
qed

text \<open>
  C23: the last block of an epoch closes it. The recorded taxes are reset, the staked Luna of the
  epoch is stored, the burn account is empty, and the issuance that the next epoch starts from is
  the supply of Luna and of every whitelisted denom after everything that the block minted and
  burned, so that the next epoch starts with no seigniorage. During probation rates, weights, caps and the
  community pool stay as they are.
\<close>

theorem epoch_end:
  assumes S: "dec_laws S" "coin_laws S" "coin_op_laws S" "coin_set_laws S" "dec_coin_laws S" "bank_laws (te_bank E)"
    and n: "te_distribution E \<noteq> treasury_name" "te_distribution E \<noteq> burn_name"
    and wl: "distinct (map di_name (te_whitelist E))" "MicroLunaDenom \<notin> di_name ` set (te_whitelist E)"
    and i: "treasury_inv S (tw_state w)" "dec_coins_wf (tw_pool w)"
    and l: "IsPeriodLastBlock c BlocksPerWeek = Ok True" and e: "treasury_EndBlocker S E c w = Ok w'"
  shows "PeekEpochTaxProceeds (tw_state w') = [] \<and> GetTSL (tw_state w') (GetEpoch c) = te_bonded E
    \<and> (\<forall>d. bk_balance (te_bank E) (tw_bank w') (Mod burn_name) d = 0)
    \<and> (\<forall>d \<in> insert MicroLunaDenom (di_name ` set (te_whitelist E)).
         amt (GetEpochInitialIssuance (tw_state w')) d = bk_supply (te_bank E) (tw_bank w') d)
    \<and> PeekEpochSeigniorage S E (tw_bank w') (tw_state w') = Ok 0
    \<and> (ctx_height c < sint (BlocksPerWeek * WindowProbation (ts_params (tw_state w))) \<longrightarrow>
         policies (tw_state w') = policies (tw_state w) \<and> tw_pool w' = tw_pool w)"
  using e
proof (cases rule: EndBlocker_cases)
  case (quiet b)
  with l show ?thesis by simp
next
  case (probation b t1)
  note I = UpdateIndicators_Ok [OF probation(3)]
  have w': "tw_state w' = RecordEpochInitialIssuance S E b t1" "tw_bank w' = b" "tw_pool w' = tw_pool w"
    using probation(5) by (simp_all add: record_issuance_def)
  have "policies (tw_state w') = policies (tw_state w)"
    using UpdateIndicators_policies [OF probation(3)] by (simp add: w')
  moreover have "GetTSL (RecordEpochInitialIssuance S E b t1) x = GetTSL t1 x" for x
    by (simp add: GetTSL_def RecordEpochInitialIssuance_def Let_def)
  ultimately show ?thesis
    using I burn_account_empty(1) [OF S(5,6) probation(1)] issuance_recorded [OF S(1,3,4) wl] by (simp add: w')
next
  case (epoch b t1 w2 t3 t4 t5 caps)
  note I = UpdateIndicators_Ok [OF epoch(3)] and P = policies_eqD [OF UpdateIndicators_policies [OF epoch(3)]]
  have t2: "tw_state w2 = t1" using SettleSeigniorage_state [OF epoch(5) S(1-3)] by simp
  obtain r m where r: "t3 = SetTaxRate r t1" by (rule UpdateTaxPolicy_Ok [OF epoch(6)]) (simp add: t2)
  obtain v k where v: "t4 = SetRewardWeight v t3" by (rule UpdateRewardPolicy_Ok [OF epoch(7)]) (simp add: r)
  have c4: "go_map (ts_tax_caps t4)" "go_all (\<lambda>_ c. 0 \<le> c) (ts_tax_caps t4)"
    using i by (simp_all add: v r P treasury_inv_def)
  note u = UpdateTaxCap_Ok [OF S(1,3) epoch(8) c4]
  have w': "tw_state w' = RecordEpochInitialIssuance S E (tw_bank w') t5" "tw_bank w' = tw_bank w2"
    using epoch(9) by (simp_all add: record_issuance_def)
  have "GetTSL (RecordEpochInitialIssuance S E b t) x = go_get 0 (ts_TSL t) x" for b t x
    by (simp add: GetTSL_def RecordEpochInitialIssuance_def Let_def)
  then have tsl: "GetTSL (tw_state w') (GetEpoch c) = te_bonded E"
    using I(2) by (subst w'(1)) (simp add: u v r GetTSL_def)
  have pr: "PeekEpochTaxProceeds (tw_state w') = []" using I(1) by (subst w'(1)) (simp add: u v r)
  have n': "Mod burn_name \<noteq> Mod (te_distribution E)" using n by auto
  have "bk_balance (te_bank E) (tw_bank w2) (Mod burn_name) d = bk_balance (te_bank E) b (Mod burn_name) d" for d
    using seigniorage_balance [OF S n(1) _ epoch(5)] i(2) n' by simp
  then have bu: "bk_balance (te_bank E) (tw_bank w') (Mod burn_name) d = 0" for d
    using burn_account_empty(1) [OF S(5,6) epoch(1)] by (simp add: w'(2))
  have iss: "d \<in> insert MicroLunaDenom (di_name ` set (te_whitelist E)) \<Longrightarrow>
      amt (GetEpochInitialIssuance (tw_state w')) d = bk_supply (te_bank E) (tw_bank w') d" for d
    by (subst w'(1)) (rule issuance_recorded(1) [OF S(1,3,4) wl])
  have sg: "PeekEpochSeigniorage S E (tw_bank w') (tw_state w') = Ok 0"
    by (subst w'(1)) (rule issuance_recorded(2) [OF S(1,3,4) wl])
  from pr tsl bu iss sg epoch(4) show ?thesis by (simp add: P)
qed

section \<open>A complete epoch on concrete values\<close>

definition epoch_ctx :: ctx where
  "epoch_ctx = \<lparr>ctx_height = 1310399, ctx_chain = ''''\<rparr>"

definition treasury_state1 :: treasury_state where
  "treasury_state1 = SetSR 12 0 (SetEpochTaxProceeds [] (SetTR 12 0 (SetTSL 12 500 sample_treasury)))"

lemma epoch_ctx_last: "IsPeriodLastBlock epoch_ctx BlocksPerWeek = Ok True" "GetEpoch epoch_ctx = 12"
  by (simp_all add: IsPeriodLastBlock_def epoch_ctx_def blocks_defs GetEpoch_def sdiv_nonneg)

lemma zero_window:
  assumes "dec_laws S" "\<And>j. f j = Ok 0" "-1 \<le> i"
  shows "\<exists>j. indicator_loop S f low i 0 = Ok (j, 0)"
proof -
  have "indicator_loop S f low i 0 = indicator_loop S f (max low (-1)) i 0" by (rule indicator_loop_floor [OF assms(3)])
  also have "\<exists>j. \<dots> = Ok (j, 0)"
  proof (cases "max low (-1) \<le> i")
    case True
    then show ?thesis using indicator_loop_sum [OF assms(1) _ True, of f "\<lambda>_. 0" 0 0] assms(2) by auto
  next
    case False
    then show ?thesis by (intro exI [of _ i] indicator_loop_stop) linarith
  qed
  finally show ?thesis .
qed

lemma zero_windows:
  assumes "\<And>j. f j = Ok 0"
  shows "rollingAverageIndicator sdk_ref epoch_ctx n f = Ok 0" "sumIndicator sdk_ref epoch_ctx n f = Ok 0"
proof -
  obtain j where "indicator_loop sdk_ref f (i64 (12 - n)) 12 0 = Ok (j, 0)"
    using zero_window [where f = f, OF dec_laws_sdk_ref assms, of 12 "i64 (12 - n)"] by auto
  then show "rollingAverageIndicator sdk_ref epoch_ctx n f = Ok 0" "sumIndicator sdk_ref epoch_ctx n f = Ok 0"
    by (simp_all add: rollingAverageIndicator_def sumIndicator_def epoch_ctx_last Let_def signed_divide_int_def)
qed

lemma state1_zero: "GetTR treasury_state1 j = 0" "GetSR treasury_state1 j = 0"
  by (simp_all add: treasury_state1_def GetTR_def GetSR_def SetSR_def SetTR_def SetTSL_def SetEpochTaxProceeds_def
    sample_treasury_def empty_treasury_def go_get_def)

lemma state1_policies: "GetTaxRate treasury_state1 = 10 ^ 15" "GetRewardWeight treasury_state1 = 5 * 10 ^ 16"
  "ts_params treasury_state1 = treasury_DefaultParams"
  by (simp_all add: treasury_state1_def SetSR_def SetTR_def SetTSL_def SetEpochTaxProceeds_def GetTaxRate_def
    GetRewardWeight_def sample_treasury_def empty_treasury_def DefaultTaxRate_def DefaultRewardWeight_def)

lemma env0_sel [simp]: "te_bank treasury_env0 = bank_ref" "te_swap treasury_env0 c d = Err (ErrNoEffectivePrice d)"
  "te_whitelist treasury_env0 = []" "te_bonded treasury_env0 = 500" "te_distribution treasury_env0 = ''distribution''"
  by (simp_all add: treasury_env0_def)

lemma indicators0: "UpdateIndicators sdk_ref treasury_env0 epoch_ctx ([], \<lambda>d. 900) sample_treasury = Ok treasury_state1"
proof -
  have p: "PeekEpochSeigniorage sdk_ref treasury_env0 ([], \<lambda>d. 900) t = Ok 100" if "ts_issuance t = ts_issuance sample_treasury" for t
    using that world0_seigniorage by (simp add: PeekEpochSeigniorage_def GetEpochInitialIssuance_def treasury_world0_def Let_def)
  have d: "dec_coins_of_coins sdk_ref [] = []" by (simp add: sdk_ref_def of_units_def)
  show ?thesis
    by (simp add: UpdateIndicators_def Let_def epoch_ctx_last treasury_state1_def alignCoins_def p d align_step_def
      SetTSL_def SetTR_def SetSR_def SetEpochTaxProceeds_def PeekEpochTaxProceeds_def GetRewardWeight_def
      sample_treasury_def empty_treasury_def DefaultRewardWeight_def MicroLunaDenom_def MicroSDRDenom_def chk_eval)
qed


lemma epoch0_settles: "\<exists>w'. SettleSeigniorage sdk_ref treasury_env0 (treasury_world0\<lparr>tw_state := treasury_state1\<rparr>) = Ok w'"
proof -
  have k: "GetRewardWeight treasury_state1 = 50000000000000000" by (simp add: state1_policies)
  have "\<exists>w'. distribute_seigniorage sdk_ref treasury_env0 100 (treasury_world0\<lparr>tw_state := treasury_state1\<rparr>) = Ok w'"
    by (simp add: distribute_seigniorage_def k treasury_world0_def MicroLunaDenom_def coin_op_eval
      coins_is_validI [OF coin_op_laws_sdk_ref] ref_eval coins_eval bank_eval treasury_name_def)
  moreover have "PeekEpochSeigniorage sdk_ref treasury_env0 (tw_bank treasury_world0) treasury_state1 = Ok 100"
    using world0_seigniorage
    by (simp add: PeekEpochSeigniorage_def GetEpochInitialIssuance_def treasury_world0_def Let_def treasury_state1_def
      SetSR_def SetTR_def SetTSL_def SetEpochTaxProceeds_def)
  ultimately show ?thesis by (simp add: SettleSeigniorage_def)
qed

lemma epoch0_policies:
  "UpdateTaxPolicy sdk_ref epoch_ctx treasury_state1 = Ok (SetTaxRate (125 * 10 ^ 13) treasury_state1)"
  "UpdateRewardPolicy sdk_ref epoch_ctx (SetTaxRate r treasury_state1)
    = Ok (SetRewardWeight (75 * 10 ^ 15) (SetTaxRate r treasury_state1))"
proof -
  have "TRL sdk_ref treasury_state1 j = Ok 0" for j by (simp add: TRL_def state1_zero)
  note z = zero_windows(1) [of "TRL sdk_ref treasury_state1", OF this]
  show "UpdateTaxPolicy sdk_ref epoch_ctx treasury_state1 = Ok (SetTaxRate (125 * 10 ^ 13) treasury_state1)"
    by (simp add: UpdateTaxPolicy_def Let_def z state1_policies Clamp_def treasury_DefaultParams_def DefaultTaxPolicy_def chk_eval)
  have s: "GetSR (SetTaxRate r treasury_state1) j = 0" "GetTR (SetTaxRate r treasury_state1) j = 0" for j
    using state1_zero by (simp_all add: GetSR_def GetTR_def SetTaxRate_def)
  then have "SR (SetTaxRate r treasury_state1) j = Ok 0" for j by (simp add: SR_def)
  note z1 = zero_windows(2) [of "SR (SetTaxRate r treasury_state1)", OF this]
  have "MR sdk_ref (SetTaxRate r treasury_state1) j = Ok 0" for j by (simp add: MR_def s chk_eval)
  note z2 = zero_windows(2) [of "MR sdk_ref (SetTaxRate r treasury_state1)", OF this]
  show "UpdateRewardPolicy sdk_ref epoch_ctx (SetTaxRate r treasury_state1)
    = Ok (SetRewardWeight (75 * 10 ^ 15) (SetTaxRate r treasury_state1))"
    by (simp add: UpdateRewardPolicy_def Let_def z1 z2 state1_policies Clamp_def treasury_DefaultParams_def
      DefaultRewardPolicy_def chk_eval)
qed

lemma epoch0: "\<exists>w'. treasury_EndBlocker sdk_ref treasury_env0 epoch_ctx treasury_world0 = Ok w'"
proof -
  obtain w2 where w2: "SettleSeigniorage sdk_ref treasury_env0 (treasury_world0\<lparr>tw_state := treasury_state1\<rparr>) = Ok w2"
    using epoch0_settles by blast
  have t2: "tw_state w2 = treasury_state1" using SettleSeigniorage_state [OF w2] by simp
  have b: "BurnCoinsFromBurnAccount sdk_ref treasury_env0 (tw_bank treasury_world0) = Ok (tw_bank treasury_world0)"
    by (simp add: BurnCoinsFromBurnAccount_def treasury_world0_def bank_eval coins_eval)
  have i: "UpdateIndicators sdk_ref treasury_env0 epoch_ctx (tw_bank treasury_world0) (tw_state treasury_world0) = Ok treasury_state1"
    using indicators0 by (simp add: treasury_world0_def)
  have u: "\<exists>t cs. UpdateTaxCap sdk_ref treasury_env0 (SetRewardWeight v (SetTaxRate r treasury_state1)) = Ok (t, cs)" for v r
    by (simp add: UpdateTaxCap_def state1_policies treasury_DefaultParams_def DefaultTaxPolicy_def dec_coin_of_coin_def
      MicroSDRDenom_def MicroUnit_def dec_of_int_def)
  have p: "\<not> ctx_height epoch_ctx < sint (BlocksPerWeek * WindowProbation (ts_params treasury_state1))"
    by (simp add: epoch_ctx_def state1_policies treasury_DefaultParams_def blocks_defs)
  have w: "treasury_world0\<lparr>tw_bank := tw_bank treasury_world0\<rparr> = treasury_world0" by simp
  obtain t5 cs where "UpdateTaxCap sdk_ref treasury_env0 (SetRewardWeight (75 * 10 ^ 15) (SetTaxRate (125 * 10 ^ 13) treasury_state1))
    = Ok (t5, cs)" using u by blast
  with epoch_ctx_last(1) p show ?thesis
    by (simp add: treasury_EndBlocker_def Let_def b i w2 t2 epoch0_policies del: power_numeral power_Suc)
qed

lemma world0_inv: "treasury_inv sdk_ref (tw_state treasury_world0)"
  using sample_treasury_params
  by (simp add: treasury_world0_def treasury_inv_def sample_treasury_def empty_treasury_def in_policy_def GetTaxRate_def
    GetRewardWeight_def PeekEpochTaxProceeds_def treasury_DefaultParams_def DefaultTaxPolicy_def DefaultRewardPolicy_def
    DefaultTaxRate_def DefaultRewardWeight_def)


theorem epoch_end_witness:
  "\<exists>w'. treasury_EndBlocker sdk_ref treasury_env0 epoch_ctx treasury_world0 = Ok w'
     \<and> GetTSL (tw_state w') 12 = 500 \<and> PeekEpochSeigniorage sdk_ref treasury_env0 (tw_bank w') (tw_state w') = Ok 0"
proof -
  obtain w' where w': "treasury_EndBlocker sdk_ref treasury_env0 epoch_ctx treasury_world0 = Ok w'" using epoch0 by blast
  have "dec_coins_wf (tw_pool treasury_world0)" by (simp add: treasury_world0_def)
  from epoch_end [OF _ _ _ _ _ _ _ _ _ _ world0_inv this epoch_ctx_last(1) w'] w' show ?thesis
    by (auto simp: epoch_ctx_last treasury_name_def burn_name_def)
qed

theorem overweight_reward_halts_witness:
  "SettleSeigniorage sdk_ref treasury_env0 (treasury_world0\<lparr>tw_state := sample_treasury\<lparr>ts_reward_weight := Some (2 * one_dec),
     ts_params := treasury_DefaultParams\<lparr>RewardPolicy := DefaultRewardPolicy\<lparr>RateMax := 2 * one_dec\<rparr>\<rparr>\<rparr>\<rparr>) = Panic"
proof (rule overweight_reward_halts)
  let ?t = "sample_treasury\<lparr>ts_reward_weight := Some (2 * one_dec),
     ts_params := treasury_DefaultParams\<lparr>RewardPolicy := DefaultRewardPolicy\<lparr>RateMax := 2 * one_dec\<rparr>\<rparr>\<rparr>"
  show "PeekEpochSeigniorage sdk_ref treasury_env0 (tw_bank (treasury_world0\<lparr>tw_state := ?t\<rparr>)) (tw_state (treasury_world0\<lparr>tw_state := ?t\<rparr>)) = Ok 100"
    using world0_seigniorage by (simp add: PeekEpochSeigniorage_def GetEpochInitialIssuance_def treasury_world0_def Let_def)
  show "treasury_inv sdk_ref (tw_state (treasury_world0\<lparr>tw_state := ?t\<rparr>))"
    using sample_treasury_params
    by (simp add: treasury_inv_def sample_treasury_def empty_treasury_def in_policy_def GetTaxRate_def
      GetRewardWeight_def PeekEpochTaxProceeds_def treasury_DefaultParams_def DefaultTaxPolicy_def DefaultRewardPolicy_def
      DefaultTaxRate_def DefaultRewardWeight_def treasury_ParamSetPairs_def validateRewardPolicy_def validateTaxPolicy_def one_dec_def)
qed (simp_all add: treasury_world0_def GetRewardWeight_def sdiv_nonneg one_dec_def)

section \<open>Genesis\<close>

lemma sint_of_epoch: "0 \<le> e \<Longrightarrow> e < 2 ^ 63 \<Longrightarrow> sint (word_of_int e :: u64) = e"
  by (subst sint_small) (simp_all add: uint_word_of_int)

lemma init_epochs_get:
  assumes "\<forall>e\<in>set es. 0 \<le> e \<and> e < 2 ^ 63"
  shows "GetTR (fold init_epoch (map (\<lambda>e. \<lparr>es_epoch = word_of_int e, es_TR = GetTR t e, es_SR = GetSR t e, es_TSL = GetTSL t e\<rparr>) es) t0) x
      = (if x \<in> set es then GetTR t x else GetTR t0 x)"
    "GetSR (fold init_epoch (map (\<lambda>e. \<lparr>es_epoch = word_of_int e, es_TR = GetTR t e, es_SR = GetSR t e, es_TSL = GetTSL t e\<rparr>) es) t0) x
      = (if x \<in> set es then GetSR t x else GetSR t0 x)"
    "GetTSL (fold init_epoch (map (\<lambda>e. \<lparr>es_epoch = word_of_int e, es_TR = GetTR t e, es_SR = GetSR t e, es_TSL = GetTSL t e\<rparr>) es) t0) x
      = (if x \<in> set es then GetTSL t x else GetTSL t0 x)"
  using assms
  by (induction es arbitrary: t0)
     (simp_all add: init_epoch_def sint_of_epoch GetTR_def SetTR_def GetSR_def SetSR_def GetTSL_def SetTSL_def)

lemma init_epoch_issuance: "GetEpochInitialIssuance (fold init_epoch es t) = GetEpochInitialIssuance t"
  by (induction es arbitrary: t)
     (simp_all add: init_epoch_def GetEpochInitialIssuance_def SetTR_def SetSR_def SetTSL_def)

lemma export_epochs_range:
  assumes "0 \<le> ctx_height c" "ctx_height c < 2 ^ 63"
  shows "\<forall>e\<in>set (export_epochs c l). 0 \<le> e \<and> e < 2 ^ 63"
proof -
  have "GetEpoch c = ctx_height c div 100800" using assms by (simp add: GetEpoch_def blocks_defs sdiv_nonneg)
  then have "GetEpoch c < 2 ^ 63" using assms by (simp add: div_less_iff_int)
  then show ?thesis by (auto simp: export_epochs_def Let_def)
qed

text \<open>
  C37: exporting the treasury and importing the result into an empty store succeeds and gives back
  the parameters, tax rate, reward weight, every tax cap, the recorded taxes, the initial issuance
  and the indicators of every epoch, provided the parameters pass their validators, the initial
  issuance is not empty and the store has no indicator of a later epoch.
\<close>

theorem treasury_genesis_roundtrip:
  assumes p: "treasury_ParamSetPairs S (ts_params t) = Ok ()" and z: "\<not> coins_is_zero S (GetEpochInitialIssuance t)"
    and m: "go_map (ts_tax_caps t)" and h: "0 \<le> ctx_height c" "ctx_height c < 2 ^ 63"
    and l: "IsPeriodLastBlock c BlocksPerWeek = Ok l"
    and k: "keys (ts_TR t) \<union> keys (ts_SR t) \<union> keys (ts_TSL t) \<subseteq> set (export_epochs c l)"
    and e: "treasury_ExportGenesis c t = Ok g"
  shows "\<exists>t'. treasury_InitGenesis S E True True b g empty_treasury = Ok t' \<and> ts_params t' = ts_params t
    \<and> GetTaxRate t' = GetTaxRate t \<and> GetRewardWeight t' = GetRewardWeight t \<and> (\<forall>d. GetTaxCap t' d = GetTaxCap t d)
    \<and> PeekEpochTaxProceeds t' = PeekEpochTaxProceeds t \<and> GetEpochInitialIssuance t' = GetEpochInitialIssuance t
    \<and> (\<forall>e. GetTR t' e = GetTR t e \<and> GetSR t' e = GetSR t e \<and> GetTSL t' e = GetTSL t e)"
proof -
  let ?es = "map (\<lambda>e. \<lparr>es_epoch = word_of_int e, es_TR = GetTR t e, es_SR = GetSR t e, es_TSL = GetTSL t e\<rparr>) (export_epochs c l)"
  have g: "g = \<lparr>tg_params = ts_params t, tg_tax_rate = GetTaxRate t, tg_reward_weight = GetRewardWeight t,
        tg_tax_caps = kv_iter (ts_tax_caps t), tg_proceeds = PeekEpochTaxProceeds t,
        tg_issuance = GetEpochInitialIssuance t, tg_epochs = ?es\<rparr>"
    using e l by (simp add: treasury_ExportGenesis_def IterateTaxCap_def)
  define t4 where "t4 = fold (\<lambda>(d, c). SetTaxCap d c) (kv_iter (ts_tax_caps t))
     (SetEpochInitialIssuance (GetEpochInitialIssuance t) (SetEpochTaxProceeds (PeekEpochTaxProceeds t)
       (SetRewardWeight (GetRewardWeight t) (SetTaxRate (GetTaxRate t) (empty_treasury\<lparr>ts_params := ts_params t\<rparr>)))))"
  have i: "treasury_InitGenesis S E True True b g empty_treasury = Ok (fold init_epoch ?es t4)"
    using p z by (simp add: treasury_InitGenesis_def treasury_SetParams_def Let_def g t4_def)
  have p4: "policies t4 = (GetTaxRate t, GetRewardWeight t, kv_iter (ts_tax_caps t), ts_params t)"
    "PeekEpochTaxProceeds t4 = PeekEpochTaxProceeds t" "GetEpochInitialIssuance t4 = GetEpochInitialIssuance t"
    "ts_TR t4 = []" "ts_SR t4 = []" "ts_TSL t4 = []"
    using copy_kv_iter [OF m]
    by (simp_all add: t4_def fold_SetTaxCap policies_def empty_treasury_def SetEpochInitialIssuance_def SetEpochTaxProceeds_def
      SetRewardWeight_def SetTaxRate_def GetTaxRate_def GetRewardWeight_def PeekEpochTaxProceeds_def GetEpochInitialIssuance_def)
  let ?t = "fold init_epoch ?es t4"
  have P: "policies ?t = (GetTaxRate t, GetRewardWeight t, kv_iter (ts_tax_caps t), ts_params t)"
    using p4(1) by (simp add: init_epoch_keep)
  then have P': "GetTaxRate ?t = GetTaxRate t" "GetRewardWeight ?t = GetRewardWeight t"
    "ts_tax_caps ?t = kv_iter (ts_tax_caps t)" "ts_params ?t = ts_params t"
    unfolding policies_def prod.inject by blast+
  have cap: "GetTaxCap ?t d = GetTaxCap t d" for d
    unfolding GetTaxCap_def P'(3,4) map_of_kv_iter [OF m] ..
  have "GetTR t4 x = 0" "GetSR t4 x = 0" "GetTSL t4 x = 0" for x using p4 by (simp_all add: GetTR_def GetSR_def GetTSL_def)
  moreover have "GetTR t x = 0" "GetSR t x = 0" "GetTSL t x = 0" if "x \<notin> set (export_epochs c l)" for x
    unfolding GetTR_def GetSR_def GetTSL_def using k that by (intro go_get_notin; blast)+
  ultimately have "GetTR ?t x = GetTR t x \<and> GetSR ?t x = GetSR t x \<and> GetTSL ?t x = GetTSL t x" for x
    using init_epochs_get [OF export_epochs_range [OF h, of l], of t t4 x] by auto
  with i P' cap p4(2,3) show ?thesis
    by (intro exI [of _ ?t]) (simp only: init_epoch_keep init_epoch_issuance simp_thms)
qed

theorem treasury_genesis_roundtrip_witness:
  "\<exists>g t'. treasury_ExportGenesis epoch_ctx treasury_state1 = Ok g
    \<and> treasury_InitGenesis sdk_ref treasury_env0 True True ([], \<lambda>d. 900) g empty_treasury = Ok t' \<and> GetTSL t' 12 = 500"
proof -
  obtain g where g: "treasury_ExportGenesis epoch_ctx treasury_state1 = Ok g"
    using epoch_ctx_last(1) by (simp add: treasury_ExportGenesis_def)
  have s: "ts_params treasury_state1 = treasury_DefaultParams" "GetTSL treasury_state1 12 = 500"
    "GetEpochInitialIssuance treasury_state1 = [\<lparr>coin_denom = ''uluna'', coin_amount = 1000\<rparr>]"
    "go_map (ts_tax_caps treasury_state1)" "keys (ts_TR treasury_state1) = {12}" "keys (ts_SR treasury_state1) = {12}"
    "keys (ts_TSL treasury_state1) = {12}"
    by (simp_all add: state1_policies treasury_state1_def SetSR_def SetTR_def SetTSL_def SetEpochTaxProceeds_def
      sample_treasury_def empty_treasury_def GetTSL_def GetEpochInitialIssuance_def go_get_def)
  have e: "12 \<in> set (export_epochs epoch_ctx True)" by (simp add: export_epochs_def epoch_ctx_last)
  show ?thesis
    using treasury_genesis_roundtrip [OF _ _ s(4) _ _ epoch_ctx_last(1) _ g, of sdk_ref treasury_env0 "([], \<lambda>d. 900)"]
      sample_treasury_params g e s by (auto simp: epoch_ctx_def)
qed

end
