(* ===== verification/AnteTax.thy ===== *)
theory AnteTax
  imports Treasury
begin

text \<open>
  The two decorators that the chain adds to transaction checking, \<open>src/custom/auth/ante/tax.go\<close> (the
  stability tax on transfers) and \<open>src/custom/auth/ante/spamming_prevention.go\<close> (free oracle
  transactions, at most one per validator and height). They use the treasury and the oracle through
  the interfaces of \<open>expected_keeper.go\<close>.
\<close>

section \<open>Transactions\<close>

text \<open>
  The messages the decorators look at; an \<open>authz.MsgExec\<close> holds the result of unpacking its
  messages, which is an error when one cannot be unpacked.
\<close>

datatype tx_msg =
    MsgSend coins
  | MsgMultiSend "coins list"
  | MsgSwapSendTx coin
  | MsgInstantiateContract coins
  | MsgExecuteContract coins
  | MsgExec "tx_msg list option"
  | MsgPrevote msg_prevote
  | MsgVote msg_vote
  | MsgOther

record fee_tx =
  tx_fee :: coins
  tx_gas :: u64
  tx_msgs :: "tx_msg list"

text \<open>What the context says of the mode a transaction is run in.\<close>

record tx_mode =
  mode_check :: bool
  mode_recheck :: bool
  mode_simulate :: bool
  mode_min_gas :: dec_coins

definition MaxOracleMsgGasUsage :: u64 where
  "MaxOracleMsgGasUsage = 100000"


section \<open>The stability tax\<close>

text \<open>The bond denom is a variable of the SDK.\<close>

definition compute_tax_step ::
  "sdk \<Rightarrow> denom \<Rightarrow> dec \<Rightarrow> (denom \<Rightarrow> int) \<Rightarrow> coin \<Rightarrow> coins \<Rightarrow> coins outcome" where
  "compute_tax_step S bond taxRate cap coin taxes =
    (if coin_denom coin = MicroLunaDenom \<or> coin_denom coin = bond then Ok taxes
     else
     andThen (dec_mul S (dec_of_int (coin_amount coin)) taxRate) (\<lambda>x.
     andThen (dec_trunc S x) (\<lambda>due.
     let taxCap = cap (coin_denom coin);
         taxDue = (if taxCap < due then taxCap else due) in
     if taxDue = 0 then Ok taxes
     else andThen (new_coin S (coin_denom coin) taxDue) (\<lambda>c. coins_add S taxes [c]))))"

definition computeTax :: "sdk \<Rightarrow> denom \<Rightarrow> dec \<Rightarrow> (denom \<Rightarrow> int) \<Rightarrow> coins \<Rightarrow> coins outcome" where
  "computeTax S bond taxRate cap principalCoins =
    (if taxRate = 0 then Ok [] else forEach (compute_tax_step S bond taxRate cap) principalCoins [])"

text \<open>The loop over the messages, with the taxes so far.\<close>

fun filter_msgs_tax ::
  "sdk \<Rightarrow> denom \<Rightarrow> dec \<Rightarrow> (denom \<Rightarrow> int) \<Rightarrow> tx_msg list \<Rightarrow> coins \<Rightarrow> coins outcome" where
  "filter_msgs_tax S bond r cap [] taxes = Ok taxes"
| "filter_msgs_tax S bond r cap (MsgSend amount # ms) taxes =
    andThen (andThen (computeTax S bond r cap amount) (coins_add S taxes)) (filter_msgs_tax S bond r cap ms)"
| "filter_msgs_tax S bond r cap (MsgMultiSend inputs # ms) taxes =
    andThen (forEach (\<lambda>input taxes. andThen (computeTax S bond r cap input) (coins_add S taxes)) inputs taxes)
      (filter_msgs_tax S bond r cap ms)"
| "filter_msgs_tax S bond r cap (MsgSwapSendTx offerCoin # ms) taxes =
    andThen (andThen (new_coins S [offerCoin]) (\<lambda>cs. andThen (computeTax S bond r cap cs) (coins_add S taxes)))
      (filter_msgs_tax S bond r cap ms)"
| "filter_msgs_tax S bond r cap (MsgInstantiateContract initCoins # ms) taxes =
    andThen (andThen (computeTax S bond r cap initCoins) (coins_add S taxes)) (filter_msgs_tax S bond r cap ms)"
| "filter_msgs_tax S bond r cap (MsgExecuteContract cs # ms) taxes =
    andThen (andThen (computeTax S bond r cap cs) (coins_add S taxes)) (filter_msgs_tax S bond r cap ms)"
| "filter_msgs_tax S bond r cap (MsgExec None # ms) taxes = Panic"
| "filter_msgs_tax S bond r cap (MsgExec (Some messages) # ms) taxes =
    andThen (andThen (filter_msgs_tax S bond r cap messages []) (coins_add S taxes)) (filter_msgs_tax S bond r cap ms)"
| "filter_msgs_tax S bond r cap (m # ms) taxes = filter_msgs_tax S bond r cap ms taxes"

definition FilterMsgAndComputeTax ::
  "sdk \<Rightarrow> denom \<Rightarrow> dec \<Rightarrow> (denom \<Rightarrow> int) \<Rightarrow> tx_msg list \<Rightarrow> coins outcome" where
  "FilterMsgAndComputeTax S bond taxRate cap msgs = filter_msgs_tax S bond taxRate cap msgs []"

definition isOracleTx :: "tx_msg list \<Rightarrow> bool" where
  "isOracleTx msgs = list_all (\<lambda>m. case m of MsgPrevote _ \<Rightarrow> True | MsgVote _ \<Rightarrow> True | _ \<Rightarrow> False) msgs"

text \<open>The texts of the errors are not modelled.\<close>

definition EnsureSufficientMempoolFees :: "sdk \<Rightarrow> dec_coins \<Rightarrow> u64 \<Rightarrow> coins \<Rightarrow> coins \<Rightarrow> unit outcome" where
  "EnsureSufficientMempoolFees S minGasPrices gas feeCoins taxes =
    andThen
      (if \<not> dec_coins_is_zero S minGasPrices
       then forEach (\<lambda>gp fees.
              andThen (dec_mul S (dc_amount gp) (dec_of_int (sint gas))) (\<lambda>fee.
              andThen (dec_ceil S fee) (\<lambda>up.
              andThen (dec_round S up) (\<lambda>n.
              andThen (new_coin S (dc_denom gp) n) (\<lambda>c. Ok (fees @ [c])))))) minGasPrices []
       else Ok []) (\<lambda>requiredFees.
    andThen (coins_safe_sub S feeCoins taxes) (\<lambda>(left, hasNeg).
    if hasNeg then Err (ErrMsg ''insufficient fees'')
    else if \<not> coins_is_zero S requiredFees \<and> \<not> coins_any_gte S left requiredFees
    then Err (ErrMsg ''insufficient fees'')
    else Ok ()))"

text \<open>
  The decorator: \<open>None\<close> is a transaction without a fee; the treasury it returns is what the rest of the
  chain of decorators continues with.
\<close>

definition tax_AnteHandle ::
  "sdk \<Rightarrow> denom \<Rightarrow> tx_mode \<Rightarrow> fee_tx option \<Rightarrow> treasury_state \<Rightarrow> treasury_state outcome" where
  "tax_AnteHandle S bond mode tx t =
    (case tx of None \<Rightarrow> Err ErrTxDecode
     | Some feeTx \<Rightarrow>
       (if mode_simulate mode then Ok t
        else
        andThen (FilterMsgAndComputeTax S bond (GetTaxRate t) (GetTaxCap t) (tx_msgs feeTx)) (\<lambda>taxes.
        andThen
          (if mode_check mode \<and> \<not> (isOracleTx (tx_msgs feeTx)
              \<and> tx_gas feeTx \<le> word_of_nat (length (tx_msgs feeTx)) * MaxOracleMsgGasUsage)
           then wrapErr ErrInsufficientFee
                  (EnsureSufficientMempoolFees S (mode_min_gas mode) (tx_gas feeTx) (tx_fee feeTx) taxes)
           else Ok ()) (\<lambda>_.
        andThen (coins_safe_sub S (tx_fee feeTx) taxes) (\<lambda>(_, hasNeg).
        if hasNeg then Err ErrInsufficientFee
        else if \<not> coins_is_zero S taxes then RecordEpochTaxProceeds S taxes t
        else Ok t)))))"


section \<open>Spamming prevention\<close>

text \<open>
  The two maps live in the decorator, outside of the store: what a check wrote stays when it fails.
\<close>

record spam_maps =
  sp_prevotes :: "(string, int) gomap"
  sp_votes :: "(string, int) gomap"

definition check_feeder ::
  "sdk \<Rightarrow> (addr \<Rightarrow> addr \<Rightarrow> unit outcome) \<Rightarrow> string \<Rightarrow> string \<Rightarrow> unit outcome" where
  "check_feeder S validateFeeder feeder validator =
    andThen (acc_of_bech32 S feeder) (\<lambda>feederAddr.
    andThen (val_of_bech32 S validator) (\<lambda>valAddr.
    validateFeeder feederAddr valAddr))"

fun CheckOracleSpamming ::
  "sdk \<Rightarrow> (addr \<Rightarrow> addr \<Rightarrow> unit outcome) \<Rightarrow> int \<Rightarrow> tx_msg list \<Rightarrow> spam_maps \<Rightarrow> unit outcome \<times> spam_maps" where
  "CheckOracleSpamming S validateFeeder curHeight [] sp = (Ok (), sp)"
| "CheckOracleSpamming S validateFeeder curHeight (MsgPrevote msg # ms) sp =
    (case check_feeder S validateFeeder (mp_feeder msg) (mp_validator msg) of
       Ok _ \<Rightarrow>
         (if map_of (sp_prevotes sp) (mp_validator msg) = Some curHeight then (Err ErrInvalidRequest, sp)
          else CheckOracleSpamming S validateFeeder curHeight ms
                 (sp\<lparr>sp_prevotes := go_put (mp_validator msg) curHeight (sp_prevotes sp)\<rparr>))
     | r \<Rightarrow> (r, sp))"
| "CheckOracleSpamming S validateFeeder curHeight (MsgVote msg # ms) sp =
    (case check_feeder S validateFeeder (mv_feeder msg) (mv_validator msg) of
       Ok _ \<Rightarrow>
         (if map_of (sp_votes sp) (mv_validator msg) = Some curHeight then (Err ErrInvalidRequest, sp)
          else CheckOracleSpamming S validateFeeder curHeight ms
                 (sp\<lparr>sp_votes := go_put (mv_validator msg) curHeight (sp_votes sp)\<rparr>))
     | r \<Rightarrow> (r, sp))"
| "CheckOracleSpamming S validateFeeder curHeight (m # ms) sp = (Ok (), sp)"

definition spam_AnteHandle ::
  "sdk \<Rightarrow> (addr \<Rightarrow> addr \<Rightarrow> unit outcome) \<Rightarrow> tx_mode \<Rightarrow> int \<Rightarrow> tx_msg list \<Rightarrow> spam_maps \<Rightarrow>
    unit outcome \<times> spam_maps" where
  "spam_AnteHandle S validateFeeder mode height msgs sp =
    (if mode_recheck mode then (Ok (), sp)
     else if \<not> mode_simulate mode \<and> mode_check mode
     then CheckOracleSpamming S validateFeeder height msgs sp
     else (Ok (), sp))"

section \<open>What is taxed\<close>

text \<open>
  The specification: the tax on an amount of a denom, on a payment, and the payments of a list of
  messages, those inside an authorisation included.
\<close>

definition tax_due :: "denom \<Rightarrow> dec \<Rightarrow> (denom \<Rightarrow> int) \<Rightarrow> denom \<Rightarrow> int \<Rightarrow> int" where
  "tax_due bond r cap d a = (if d = MicroLunaDenom \<or> d = bond then 0 else min (cap d) (a * r sdiv one_dec))"

definition tax_on :: "denom \<Rightarrow> dec \<Rightarrow> (denom \<Rightarrow> int) \<Rightarrow> coins \<Rightarrow> denom \<Rightarrow> int" where
  "tax_on bond r cap cs d = (\<Sum>c\<leftarrow>cs. if coin_denom c = d then tax_due bond r cap d (coin_amount c) else 0)"

fun payments :: "tx_msg list \<Rightarrow> coins list" where
  "payments [] = []"
| "payments (MsgSend cs # ms) = cs # payments ms"
| "payments (MsgMultiSend css # ms) = css @ payments ms"
| "payments (MsgSwapSendTx c # ms) = [c] # payments ms"
| "payments (MsgInstantiateContract cs # ms) = cs # payments ms"
| "payments (MsgExecuteContract cs # ms) = cs # payments ms"
| "payments (MsgExec (Some ms') # ms) = payments ms' @ payments ms"
| "payments (m # ms) = payments ms"

definition taxes_of :: "denom \<Rightarrow> dec \<Rightarrow> (denom \<Rightarrow> int) \<Rightarrow> tx_msg list \<Rightarrow> denom \<Rightarrow> int" where
  "taxes_of bond r cap ms d = (\<Sum>p\<leftarrow>payments ms. tax_on bond r cap p d)"

lemma mul_rate_exact:
  assumes "dec_laws S" "dec_mul S (dec_of_int a) r = Ok x"
  shows "x = a * r"
proof -
  have "nearest x (dec_of_int a * r) one_dec" by (rule dec_mulD [OF assms])
  then have "nearest x (a * r * one_dec) one_dec" by (simp add: dec_of_int_def algebra_simps)
  then show ?thesis by (rule nearest_exact) simp
qed

lemma tax_due_zero: "0 \<le> cap d \<Longrightarrow> tax_due bond 0 cap d a = 0"
  by (simp add: tax_due_def signed_divide_int_def)

lemma tax_on_Cons:
  "tax_on bond r cap (c # cs) d = (if coin_denom c = d then tax_due bond r cap d (coin_amount c) else 0) + tax_on bond r cap cs d"
  by (simp add: tax_on_def)

lemma tax_on_wf:
  assumes "coins_wf cs" "0 \<le> cap d"
  shows "tax_on bond r cap cs d = tax_due bond r cap d (amt cs d)"
  using assms(1)
proof (induction cs)
  case Nil
  then show ?case using assms(2) by (simp add: tax_on_def tax_due_def signed_divide_int_def)
next
  case (Cons c cs)
  have z: "tax_due bond r cap d 0 = 0" using assms(2) by (simp add: tax_due_def signed_divide_int_def)
  from Cons.prems have cs: "coins_wf cs" "\<forall>c'\<in>set cs. coin_denom c < coin_denom c'" by (auto simp: coins_wf_Cons)
  then have n: "amt cs (coin_denom c) = 0" by (intro amt_notin) auto
  show ?case using Cons.IH [OF cs(1)] n z by (auto simp: tax_on_Cons amt_Cons)
qed

lemma compute_tax_step_Ok:
  assumes S: "dec_laws S" "coin_laws S" and t: "coins_wf taxes"
    and s: "compute_tax_step S bond r cap c taxes = Ok taxes'"
  shows "coins_wf taxes'"
    "amt taxes' d = amt taxes d + (if coin_denom c = d then tax_due bond r cap d (coin_amount c) else 0)"
proof -
  let ?d = "coin_denom c" let ?q = "tax_due bond r cap (coin_denom c) (coin_amount c)"
  have "coins_wf taxes' \<and> (\<forall>d. amt taxes' d = amt taxes d + (if coin_denom c = d then ?q else 0))"
  proof (cases "?d = MicroLunaDenom \<or> ?d = bond")
    case True
    with s t show ?thesis by (auto simp: compute_tax_step_def tax_due_def)
  next
    case False
    with s obtain x due where x: "dec_mul S (dec_of_int (coin_amount c)) r = Ok x" "dec_trunc S x = Ok due"
      and r: "(if (if cap ?d < due then cap ?d else due) = 0 then Ok taxes
        else andThen (new_coin S ?d (if cap ?d < due then cap ?d else due)) (\<lambda>c. coins_add S taxes [c])) = Ok taxes'"
      unfolding compute_tax_step_def Let_def by (auto simp del: if_split)
    have q: "(if cap ?d < due then cap ?d else due) = ?q"
      using x False mul_rate_exact [OF S(1) x(1)] by (auto simp: dec_truncI [OF S(1)] tax_due_def min_def)
    show ?thesis
    proof (cases "?q = 0")
      case True
      with r t show ?thesis unfolding q by simp
    next
      case nz: False
      with r obtain n where n: "new_coin S ?d ?q = Ok n" "coins_add S taxes [n] = Ok taxes'" unfolding q by auto
      have n': "n = \<lparr>coin_denom = ?d, coin_amount = ?q\<rparr>" "0 \<le> ?q" using n(1) by (auto simp: new_coinI [OF S(2)] split: if_splits)
      have "coins_wf [n]" using n' nz by simp
      note a = coins_addD [OF S(2) t this n(2)]
      show ?thesis using a n'(1) by (auto simp: amt_Cons)
    qed
  qed
  then show "coins_wf taxes'"
    "amt taxes' d = amt taxes d + (if coin_denom c = d then tax_due bond r cap d (coin_amount c) else 0)" by auto
qed

lemma computeTax_Ok:
  assumes S: "dec_laws S" "coin_laws S" and cap: "\<And>d. 0 \<le> cap d" and c: "computeTax S bond r cap cs = Ok taxes"
  shows "coins_wf taxes" "amt taxes d = tax_on bond r cap cs d"
proof -
  have *: "forEach (compute_tax_step S bond r cap) cs t0 = Ok taxes \<Longrightarrow> coins_wf t0 \<Longrightarrow>
      coins_wf taxes \<and> amt taxes d = amt t0 d + tax_on bond r cap cs d" for t0 d
  proof (induction cs arbitrary: t0)
    case Nil
    then show ?case by (simp add: tax_on_def)
  next
    case (Cons x cs)
    from Cons.prems(1) obtain t1 where t1: "compute_tax_step S bond r cap x t0 = Ok t1"
      "forEach (compute_tax_step S bond r cap) cs t1 = Ok taxes" by auto
    note st = compute_tax_step_Ok [OF S Cons.prems(2) t1(1)]
    show ?case using Cons.IH [OF t1(2) st(1)] st(2) by (simp add: tax_on_Cons)
  qed
  have z: "tax_on bond 0 cap cs d = 0" for d
    by (induction cs) (simp_all add: tax_on_def tax_due_zero cap)
  have "coins_wf taxes \<and> amt taxes d = tax_on bond r cap cs d"
  proof (cases "r = 0")
    case True
    with c z show ?thesis by (simp add: computeTax_def)
  next
    case False
    with c have "forEach (compute_tax_step S bond r cap) cs [] = Ok taxes" by (simp add: computeTax_def)
    from * [OF this] show ?thesis by simp
  qed
  then show "coins_wf taxes" "amt taxes d = tax_on bond r cap cs d" by auto
qed

lemma add_tax_Ok:
  assumes S: "dec_laws S" "coin_laws S" and cap: "\<And>d. 0 \<le> cap d" and t: "coins_wf taxes"
    and a: "andThen (computeTax S bond r cap cs) (coins_add S taxes) = Ok taxes'"
  shows "coins_wf taxes' \<and> (\<forall>d. amt taxes' d = amt taxes d + tax_on bond r cap cs d)"
proof -
  from a obtain x where x: "computeTax S bond r cap cs = Ok x" "coins_add S taxes x = Ok taxes'" by auto
  note c = computeTax_Ok [OF S cap x(1)]
  show ?thesis using coins_addD [OF S(2) t c(1) x(2)] c(2) by simp
qed

lemma add_taxes_Ok:
  assumes S: "dec_laws S" "coin_laws S" and cap: "\<And>d. 0 \<le> cap d" and t: "coins_wf taxes"
    and a: "forEach (\<lambda>input taxes. andThen (computeTax S bond r cap input) (coins_add S taxes)) css taxes = Ok taxes'"
  shows "coins_wf taxes' \<and> (\<forall>d. amt taxes' d = amt taxes d + (\<Sum>p\<leftarrow>css. tax_on bond r cap p d))"
  using t a
proof (induction css arbitrary: taxes)
  case (Cons cs css)
  from Cons.prems(2) obtain u where u: "andThen (computeTax S bond r cap cs) (coins_add S taxes) = Ok u"
    "forEach (\<lambda>input taxes. andThen (computeTax S bond r cap input) (coins_add S taxes)) css u = Ok taxes'"
    unfolding forEach.simps andThen_Ok_iff [of "andThen _ _"] by blast
  note st = add_tax_Ok [OF S cap Cons.prems(1) u(1)]
  show ?case using Cons.IH [OF _ u(2)] st by simp
qed simp

lemma taxes_of_simps [simp]:
  "taxes_of bond r cap [] d = 0"
  "taxes_of bond r cap (MsgSend cs # ms) d = tax_on bond r cap cs d + taxes_of bond r cap ms d"
  "taxes_of bond r cap (MsgMultiSend css # ms) d = (\<Sum>p\<leftarrow>css. tax_on bond r cap p d) + taxes_of bond r cap ms d"
  "taxes_of bond r cap (MsgSwapSendTx c # ms) d = tax_on bond r cap [c] d + taxes_of bond r cap ms d"
  "taxes_of bond r cap (MsgInstantiateContract cs # ms) d = tax_on bond r cap cs d + taxes_of bond r cap ms d"
  "taxes_of bond r cap (MsgExecuteContract cs # ms) d = tax_on bond r cap cs d + taxes_of bond r cap ms d"
  "taxes_of bond r cap (MsgExec (Some ms') # ms) d = taxes_of bond r cap ms' d + taxes_of bond r cap ms d"
  "taxes_of bond r cap (MsgPrevote p # ms) d = taxes_of bond r cap ms d"
  "taxes_of bond r cap (MsgVote v # ms) d = taxes_of bond r cap ms d"
  "taxes_of bond r cap (MsgOther # ms) d = taxes_of bond r cap ms d"
  by (simp_all add: taxes_of_def)

lemma tax_seq:
  assumes "andThen m f = Ok t'" "\<And>u. m = Ok u \<Longrightarrow> coins_wf u \<and> (\<forall>d. amt u d = amt taxes d + x d)"
    and "\<And>u. m = Ok u \<Longrightarrow> f u = Ok t' \<Longrightarrow> coins_wf u \<Longrightarrow> coins_wf t' \<and> (\<forall>d. amt t' d = amt u d + y d)"
  shows "coins_wf t' \<and> (\<forall>d. amt t' d = amt taxes d + (x d + y d))"
proof -
  from assms(1) obtain u where u: "m = Ok u" "f u = Ok t'" by auto
  with assms(2) [OF u(1)] assms(3) [OF u] show ?thesis by simp
qed

lemma filter_msgs_tax_Ok:
  assumes "filter_msgs_tax S bond r cap ms taxes = Ok taxes'" "dec_laws S" "coin_laws S" "coin_op_laws S"
    and "\<forall>d. 0 \<le> cap d" "coins_wf taxes"
  shows "coins_wf taxes' \<and> (\<forall>d. amt taxes' d = amt taxes d + taxes_of bond r cap ms d)"
  using assms
proof (induction S bond r cap ms taxes arbitrary: taxes' rule: filter_msgs_tax.induct)
  case (2 S bond r cap cs ms taxes)
  from tax_seq [OF 2(2) [unfolded filter_msgs_tax.simps(2)] add_tax_Ok [OF 2(3,4) 2(6) [rule_format] 2(7)]
    2(1) [OF _ _ 2(3-6)]] show ?case unfolding taxes_of_simps(2) .
next
  case (3 S bond r cap css ms taxes)
  from tax_seq [OF 3(2) [unfolded filter_msgs_tax.simps(3)] add_taxes_Ok [OF 3(3,4) 3(6) [rule_format] 3(7)]
    3(1) [OF _ _ 3(3-6)]] show ?case unfolding taxes_of_simps(3) .
next
  case (4 S bond r cap c ms taxes)
  have "coins_wf u \<and> (\<forall>d. amt u d = amt taxes d + tax_on bond r cap [c] d)"
    if u: "andThen (new_coins S [c]) (\<lambda>cs. andThen (computeTax S bond r cap cs) (coins_add S taxes)) = Ok u" for u
  proof -
    from u obtain cs where cs: "new_coins S [c] = Ok cs" "andThen (computeTax S bond r cap cs) (coins_add S taxes) = Ok u"
      unfolding andThen_Ok_iff [of "new_coins S [c]"] by blast
    have "cs = [c] \<or> cs = [] \<and> coin_amount c = 0" using cs(1) by (auto simp: new_coinsI [OF 4(5)] split: if_splits)
    moreover have "tax_due bond r cap (coin_denom c) 0 = 0" using 4(6) by (simp add: tax_due_def signed_divide_int_def)
    ultimately have "tax_on bond r cap cs d = tax_on bond r cap [c] d" for d by (auto simp: tax_on_def)
    with add_tax_Ok [OF 4(3,4) _ 4(7) cs(2)] 4(6) show ?thesis by simp
  qed
  from tax_seq [OF 4(2) [unfolded filter_msgs_tax.simps(4)] this 4(1) [OF _ _ 4(3-6)]] show ?case
    unfolding taxes_of_simps(4) .
next
  case (5 S bond r cap cs ms taxes)
  from tax_seq [OF 5(2) [unfolded filter_msgs_tax.simps(5)] add_tax_Ok [OF 5(3,4) 5(6) [rule_format] 5(7)]
    5(1) [OF _ _ 5(3-6)]] show ?case unfolding taxes_of_simps(5) .
next
  case (6 S bond r cap cs ms taxes)
  from tax_seq [OF 6(2) [unfolded filter_msgs_tax.simps(6)] add_tax_Ok [OF 6(3,4) 6(6) [rule_format] 6(7)]
    6(1) [OF _ _ 6(3-6)]] show ?case unfolding taxes_of_simps(6) .
next
  case (8 S bond r cap ms' ms taxes)
  have "coins_wf u \<and> (\<forall>d. amt u d = amt taxes d + taxes_of bond r cap ms' d)"
    if u: "andThen (filter_msgs_tax S bond r cap ms' []) (coins_add S taxes) = Ok u" for u
  proof -
    from u obtain x where x: "filter_msgs_tax S bond r cap ms' [] = Ok x" "coins_add S taxes x = Ok u" by auto
    from 8(1) [OF x(1) 8(4-7)] have "coins_wf x" "\<forall>d. amt x d = taxes_of bond r cap ms' d" by simp_all
    with coins_addD [OF 8(5) 8(8) _ x(2)] show ?thesis by simp
  qed
  from tax_seq [OF 8(3) [unfolded filter_msgs_tax.simps(8)] this 8(2) [OF _ _ 8(4-7)]] show ?case
    unfolding taxes_of_simps(7) .
qed auto

section \<open>What the decorators rely on\<close>

text \<open>
  The treasury: rates and caps that are not negative, and a cap of zero for Luna. A payment of
  bounded amounts is then taxed without a panic.
\<close>

locale tax_keeper =
  fixes inv :: "sdk \<Rightarrow> 's \<Rightarrow> bool" and rate :: "'s \<Rightarrow> dec" and cap :: "'s \<Rightarrow> denom \<Rightarrow> int"
  assumes rate_nonneg: "coin_laws S \<Longrightarrow> inv S s \<Longrightarrow> 0 \<le> rate s"
    and cap_nonneg: "coin_laws S \<Longrightarrow> inv S s \<Longrightarrow> 0 \<le> cap s d"
begin

lemma due_nonneg:
  assumes "coin_laws S" "inv S s" "0 \<le> a"
  shows "0 \<le> tax_due bond (rate s) (cap s) d a" "tax_due bond (rate s) (cap s) d a \<le> a * rate s div one_dec"
  using rate_nonneg [OF assms(1,2)] cap_nonneg [OF assms(1,2), of d] assms(3)
  by (simp_all add: tax_due_def sdiv_nonneg pos_imp_zdiv_nonneg_iff)

lemma computeTax_total:
  assumes S: "dec_laws S" "coin_laws S" and i: "inv S s" and cs: "coins_wf cs"
    and v: "\<And>c. c \<in> set cs \<Longrightarrow> denom_valid S (coin_denom c)" and b: "\<And>c. c \<in> set cs \<Longrightarrow> coin_amount c * rate s < 2 ^ 255"
  shows "\<exists>t. computeTax S bond (rate s) (cap s) cs = Ok t"
proof -
  let ?f = "compute_tax_step S bond (rate s) (cap s)"
  have "\<exists>t. forEach ?f cs t0 = Ok t" if "coins_wf t0" "\<forall>c\<in>set cs. amt t0 (coin_denom c) = 0" "\<forall>d. amt t0 d < 2 ^ 255" for t0
    using cs v b that
  proof (induction cs arbitrary: t0)
    case (Cons c cs)
    let ?a = "coin_amount c" let ?d = "coin_denom c" let ?q = "tax_due bond (rate s) (cap s) ?d ?a"
    have c: "0 < ?a" "coins_wf cs" "\<forall>c'\<in>set cs. ?d < coin_denom c'" using Cons.prems(1) by (auto simp: coins_wf_Cons)
    have r0: "0 \<le> rate s" by (rule rate_nonneg [OF S(2) i])
    have m0: "0 \<le> ?a * rate s" "?a * rate s < 2 ^ 255" using c(1) r0 Cons.prems(3) [of c] by simp_all
    obtain x where x: "nearest x (dec_of_int ?a * rate s) one_dec" "dec_mul S (dec_of_int ?a) (rate s) = chk (dec_bits S) x"
      by (rule dec_mulE [OF S(1)])
    have "nearest x (?a * rate s * one_dec) one_dec" using x(1) by (simp add: dec_of_int_def algebra_simps)
    then have xe: "x = ?a * rate s" by (rule nearest_exact) simp
    have mul: "dec_mul S (dec_of_int ?a) (rate s) = Ok (?a * rate s)"
      using x(2) xe m0 dec_bitsD [OF S(1)] chk_fits [of x] by simp
    have le: "?a * rate s div one_dec \<le> ?a * rate s"
      using m0(1) by (metis div_by_1 one_dec_pos(1) zdiv_mono2 int_one_le_iff_zero_less zero_less_one)
    have tr: "dec_trunc S (?a * rate s) = Ok (?a * rate s div one_dec)"
      using m0 le dec_bitsD [OF S(1)]
      by (simp add: dec_truncI [OF S(1)] sdiv_nonneg chk_fits pos_imp_zdiv_nonneg_iff)
    note q = due_nonneg [OF S(2) i, of ?a bond ?d]
    have qb: "0 \<le> ?q" "?q < 2 ^ 255" using q le m0 c(1) by linarith+
    have "\<exists>t1. ?f c t0 = Ok t1 \<and> coins_wf t1 \<and> (\<forall>d. amt t1 d = amt t0 d + (if ?d = d then ?q else 0))"
    proof (cases "?d = MicroLunaDenom \<or> ?d = bond \<or> ?q = 0")
      case True
      then have "?f c t0 = Ok t0 \<and> ?q = 0"
        using m0(1) by (auto simp: compute_tax_step_def mul tr tax_due_def sdiv_nonneg min_def split: if_splits)
      with Cons.prems(4) show ?thesis by simp
    next
      case False
      let ?n = "\<lparr>coin_denom = ?d, coin_amount = ?q\<rparr>"
      have n: "new_coin S ?d ?q = Ok ?n" using Cons.prems(2) [of c] qb by (simp add: new_coinI [OF S(2)])
      have f: "?f c t0 = coins_add S t0 [?n]"
        using False n m0(1)
        by (auto simp: compute_tax_step_def mul tr Let_def tax_due_def sdiv_nonneg min_def split: if_splits)
      have wf: "coins_wf [?n]" using False qb by simp
      have "\<forall>d. bit_len (amt t0 d + amt [?n] d) \<le> int_bits S"
      proof
        fix d
        have "0 \<le> amt t0 d + amt [?n] d" "amt t0 d + amt [?n] d < 2 ^ 255"
          using coins_wf_amt_nonneg [OF Cons.prems(4), of d] qb Cons.prems(5,6) by (auto simp: amt_Cons)
        then show "bit_len (amt t0 d + amt [?n] d) \<le> int_bits S"
          using dec_bitsD [OF S(1)] chk_fits [of "amt t0 d + amt [?n] d" "int_bits S"] by (simp add: chk_def split: if_splits)
      qed
      then obtain t1 where "coins_add S t0 [?n] = Ok t1" "coins_wf t1" "\<And>d. amt t1 d = amt t0 d + amt [?n] d"
        using coins_add_law [OF S(2)] Cons.prems(4) wf by metis
      then show ?thesis using f by (auto simp: amt_Cons)
    qed
    then obtain t1 where t1: "?f c t0 = Ok t1" "coins_wf t1" "\<forall>d. amt t1 d = amt t0 d + (if ?d = d then ?q else 0)" by blast
    have "\<exists>t. forEach ?f cs t1 = Ok t"
      using Cons.prems c t1 qb by (intro Cons.IH) auto
    then show ?case using t1(1) by auto
  qed simp
  from this [of "[]"] show ?thesis by (simp add: computeTax_def)
qed

end

interpretation treasury_tax: tax_keeper treasury_inv GetTaxRate GetTaxCap
proof
  fix S t d assume S: "coin_laws S" and i: "treasury_inv S t"
  then have p: "treasury_ParamSetPairs S (ts_params t) = Ok ()" by (simp add: treasury_inv_def)
  show "0 \<le> GetTaxRate t" using ParamSetPairs_Ok(2) [OF p] i by (simp add: treasury_inv_def in_policy_def)
  have "0 \<le> coin_amount (Cap (TaxPolicy (ts_params t)))"
    using ParamSetPairs_Ok(7) [OF p] by (auto simp: coin_is_valid_def new_coinI [OF S] split: if_splits)
  moreover have "0 \<le> c" if "map_of (ts_tax_caps t) d = Some c" for c
    using i map_of_SomeD [OF that] by (auto simp: treasury_inv_def go_all_def)
  ultimately show "0 \<le> GetTaxCap t d" by (auto simp: GetTaxCap_def split: option.splits)
qed

text \<open>The oracle: asking for a feeder's permission does not panic, so neither does the spam check.\<close>

locale feeder_check =
  fixes validate :: "'k \<Rightarrow> addr \<Rightarrow> addr \<Rightarrow> unit outcome"
  assumes validate_no_panic: "validate k f v \<noteq> Panic"
begin

lemma check_feeder_no_panic: "addr_laws S \<Longrightarrow> check_feeder S (validate k) f v \<noteq> Panic"
  using validate_no_panic unfolding addr_laws_def check_feeder_def by (auto simp: andThen_Panic_iff)

lemma check_no_panic: "addr_laws S \<Longrightarrow> fst (CheckOracleSpamming S (validate k) h ms sp) \<noteq> Panic"
  by (induction S "validate k" h ms sp rule: CheckOracleSpamming.induct)
     (use check_feeder_no_panic in \<open>auto split: outcome.splits\<close>)

end

interpretation oracle_feeders: feeder_check "\<lambda>(vals, k). ValidateFeeder vals k"
  by unfold_locales (auto simp: ValidateFeeder_def andThen_Panic_iff require_def split: option.splits prod.splits if_splits)

section \<open>Properties\<close>

text \<open>
  the tax on a payment. In every state of the treasury's invariant, taxing a valid set of coins of
  bounded amounts returns a valid set of coins that holds of every denom the amount times the tax
  rate, rounded down, but at most the denom's cap, and nothing of Luna and of the bond denom.
\<close>

theorem tax_exact:
  assumes S: "dec_laws S" "coin_laws S" and i: "treasury_inv S t" and cs: "coins_wf cs"
    and v: "\<forall>c\<in>set cs. denom_valid S (coin_denom c)" and b: "\<forall>c\<in>set cs. coin_amount c * GetTaxRate t < 2 ^ 255"
  shows "\<exists>taxes. computeTax S bond (GetTaxRate t) (GetTaxCap t) cs = Ok taxes \<and> coins_wf taxes
    \<and> (\<forall>d. amt taxes d = (if d = MicroLunaDenom \<or> d = bond then 0
         else min (GetTaxCap t d) (amt cs d * GetTaxRate t div one_dec)))"
proof -
  obtain taxes where t: "computeTax S bond (GetTaxRate t) (GetTaxCap t) cs = Ok taxes"
    using treasury_tax.computeTax_total [OF S i cs] v b by blast
  note k = computeTax_Ok [OF S treasury_tax.cap_nonneg [OF S(2) i] t]
  have "0 \<le> amt cs d * GetTaxRate t" for d
    using coins_wf_amt_nonneg [OF cs] treasury_tax.rate_nonneg [OF S(2) i] by simp
  then have "amt taxes d = (if d = MicroLunaDenom \<or> d = bond then 0
         else min (GetTaxCap t d) (amt cs d * GetTaxRate t div one_dec))" for d
    using k(2) [of d] tax_on_wf [where cap = "GetTaxCap t" and d = d, OF cs treasury_tax.cap_nonneg [OF S(2) i]]
    by (simp add: tax_due_def sdiv_nonneg)
  with t k(1) show ?thesis by blast
qed

theorem tax_exact_witness:
  "\<exists>taxes. computeTax sdk_ref ''stake'' (GetTaxRate sample_treasury) (GetTaxCap sample_treasury)
      [\<lparr>coin_denom = ''ukrw'', coin_amount = 5500\<rparr>, \<lparr>coin_denom = ''uluna'', coin_amount = 70000\<rparr>] = Ok taxes
    \<and> amt taxes ''ukrw'' = 5 \<and> amt taxes ''uluna'' = 0"
proof -
  have i: "treasury_inv sdk_ref sample_treasury" using world0_inv by (simp add: treasury_world0_def)
  have r: "GetTaxRate sample_treasury = 10 ^ 15" "GetTaxCap sample_treasury ''ukrw'' = 1000000"
    by (simp_all add: sample_treasury_def empty_treasury_def GetTaxRate_def DefaultTaxRate_def GetTaxCap_def MicroLunaDenom_def
      treasury_DefaultParams_def DefaultTaxPolicy_def MicroUnit_def)
  show ?thesis
    using tax_exact [OF _ _ i, where cs = "[\<lparr>coin_denom = ''ukrw'', coin_amount = 5500\<rparr>, \<lparr>coin_denom = ''uluna'', coin_amount = 70000\<rparr>]"
      and bond = "''stake''"]
    by (auto simp: coins_wf_def r MicroLunaDenom_def amt_Cons one_dec_def)
qed

text \<open>
  C5: a transaction pays its taxes. When the decorator lets a transaction pass outside of simulation,
  the fee covers in every denom the taxes of all payments of its messages, those inside
  authorisations included, the recorded tax proceeds grow by exactly these taxes, and the
  rest of the treasury and its invariant are kept.
\<close>

theorem taxes_paid:
  assumes S: "dec_laws S" "coin_laws S" "coin_op_laws S" "dec_coin_laws S" and i: "treasury_inv S t" and f: "coins_wf (tx_fee tx)"
    and m: "\<not> mode_simulate mode" and h: "tax_AnteHandle S bond mode (Some tx) t = Ok t'"
  shows "treasury_inv S t' \<and> policies t' = policies t
    \<and> (\<forall>d. taxes_of bond (GetTaxRate t) (GetTaxCap t) (tx_msgs tx) d \<le> amt (tx_fee tx) d
         \<and> amt (PeekEpochTaxProceeds t') d
           = amt (PeekEpochTaxProceeds t) d + taxes_of bond (GetTaxRate t) (GetTaxCap t) (tx_msgs tx) d)"
proof -
  let ?T = "taxes_of bond (GetTaxRate t) (GetTaxCap t) (tx_msgs tx)"
  obtain taxes l neg where x: "FilterMsgAndComputeTax S bond (GetTaxRate t) (GetTaxCap t) (tx_msgs tx) = Ok taxes"
    and s: "coins_safe_sub S (tx_fee tx) taxes = Ok (l, neg)"
    and r: "(if neg then Err ErrInsufficientFee else if \<not> coins_is_zero S taxes then RecordEpochTaxProceeds S taxes t else Ok t) = Ok t'"
    using h m unfolding tax_AnteHandle_def option.case andThen_Ok_iff
    by (auto simp del: if_split simp: if_not_P split: prod.splits)
  have T: "coins_wf taxes" "amt taxes d = ?T d" for d
    using filter_msgs_tax_Ok [OF x [unfolded FilterMsgAndComputeTax_def] S(1-3)] treasury_tax.cap_nonneg [OF S(2) i] by simp_all
  have neg: "neg = (\<exists>d. amt (tx_fee tx) d < amt taxes d)"
    by (rule coins_safe_subD [OF S(3) f T(1)]) (use s in simp)
  then have cover: "?T d \<le> amt (tx_fee tx) d" for d using r T(2) by (auto simp: not_less split: if_splits)
  have z: "coins_is_zero S taxes \<longleftrightarrow> (\<forall>c\<in>set taxes. coin_amount c = 0)" using S(4) unfolding dec_coin_laws_def by blast
  have "treasury_inv S t' \<and> policies t' = policies t
    \<and> (\<forall>d. amt (PeekEpochTaxProceeds t') d = amt (PeekEpochTaxProceeds t) d + ?T d)"
  proof (cases "coins_is_zero S taxes")
    case True
    then have "taxes = []" using z T(1) by (cases taxes) (auto simp: coins_wf_def)
    then have "?T d = 0" for d using T(2) [of d] by simp
    then show ?thesis using r True i by (auto split: if_splits)
  next
    case False
    then have "RecordEpochTaxProceeds S taxes t = Ok t'" using r by (auto split: if_splits)
    from RecordTax_inv [OF S(2) i T(1) this] False T(2) show ?thesis by simp
  qed
  with cover show ?thesis by blast
qed

definition exec_tx :: fee_tx where
  "exec_tx = \<lparr>tx_fee = [\<lparr>coin_denom = ''ukrw'', coin_amount = 7\<rparr>], tx_gas = 200000,
     tx_msgs = [MsgExec (Some [MsgSend [\<lparr>coin_denom = ''ukrw'', coin_amount = 5500\<rparr>]]), MsgOther]\<rparr>"

definition deliver_mode :: tx_mode where
  "deliver_mode = \<lparr>mode_check = False, mode_recheck = False, mode_simulate = False, mode_min_gas = []\<rparr>"

lemma safe_sub_ref: "coins_safe_sub sdk_ref a b
    = (let c = coins_sum a (map neg_coin b) in Ok (c, list_ex (\<lambda>x. coin_amount x < 0) c))"
  by (simp add: sdk_ref_def)

lemma exec_tx_passes: "\<exists>t'. tax_AnteHandle sdk_ref ''stake'' deliver_mode (Some exec_tx) sample_treasury = Ok t'"
proof -
  have r: "GetTaxRate sample_treasury = 1000000000000000" "GetTaxCap sample_treasury ''ukrw'' = 1000000"
    "PeekEpochTaxProceeds sample_treasury = []"
    by (simp_all add: sample_treasury_def empty_treasury_def GetTaxRate_def DefaultTaxRate_def GetTaxCap_def MicroLunaDenom_def
      treasury_DefaultParams_def DefaultTaxPolicy_def MicroUnit_def PeekEpochTaxProceeds_def)
  have c: "computeTax sdk_ref ''stake'' 1000000000000000 (GetTaxCap sample_treasury) [\<lparr>coin_denom = ''ukrw'', coin_amount = 5500\<rparr>]
    = Ok [\<lparr>coin_denom = ''ukrw'', coin_amount = 5\<rparr>]"
    by (simp add: computeTax_def compute_tax_step_def r MicroLunaDenom_def ref_eval coins_eval)
  have f: "FilterMsgAndComputeTax sdk_ref ''stake'' 1000000000000000 (GetTaxCap sample_treasury) (tx_msgs exec_tx)
    = Ok [\<lparr>coin_denom = ''ukrw'', coin_amount = 5\<rparr>]"
    by (simp add: FilterMsgAndComputeTax_def exec_tx_def c coins_eval ref_eval)
  have e: "tx_fee exec_tx = [\<lparr>coin_denom = ''ukrw'', coin_amount = 7\<rparr>]" by (simp add: exec_tx_def)
  show ?thesis
    by (simp add: tax_AnteHandle_def r f e deliver_mode_def safe_sub_ref coins_eval ref_eval RecordEpochTaxProceeds_def)
qed

theorem taxes_paid_witness:
  "\<exists>t'. tax_AnteHandle sdk_ref ''stake'' deliver_mode (Some exec_tx) sample_treasury = Ok t'
    \<and> amt (PeekEpochTaxProceeds t') ''ukrw'' = 5"
proof -
  obtain t' where t': "tax_AnteHandle sdk_ref ''stake'' deliver_mode (Some exec_tx) sample_treasury = Ok t'"
    using exec_tx_passes by blast
  have i: "treasury_inv sdk_ref sample_treasury" using world0_inv by (simp add: treasury_world0_def)
  have "coins_wf (tx_fee exec_tx)" "\<not> mode_simulate deliver_mode" by (simp_all add: exec_tx_def deliver_mode_def)
  from taxes_paid [OF _ _ _ _ i this t'] have "amt (PeekEpochTaxProceeds t') ''ukrw'' = amt (PeekEpochTaxProceeds sample_treasury) ''ukrw''
      + taxes_of ''stake'' (GetTaxRate sample_treasury) (GetTaxCap sample_treasury) (tx_msgs exec_tx) ''ukrw''" by simp
  also have "\<dots> = 5"
    by (simp add: exec_tx_def tax_on_def tax_due_def sample_treasury_def empty_treasury_def GetTaxRate_def DefaultTaxRate_def
      GetTaxCap_def MicroLunaDenom_def treasury_DefaultParams_def DefaultTaxPolicy_def MicroUnit_def PeekEpochTaxProceeds_def
      ref_eval)
  finally show ?thesis using t' by blast
qed

section \<open>Spamming\<close>

text \<open>The messages that the check looks at: those before the first message that is not of the oracle.\<close>

fun oracle_prefix :: "tx_msg list \<Rightarrow> tx_msg list" where
  "oracle_prefix (MsgPrevote p # ms) = MsgPrevote p # oracle_prefix ms"
| "oracle_prefix (MsgVote v # ms) = MsgVote v # oracle_prefix ms"
| "oracle_prefix ms = []"

text \<open>What was submitted for whom, as the maps record it at a height.\<close>

fun submitted :: "int \<Rightarrow> spam_maps \<Rightarrow> tx_msg \<Rightarrow> bool" where
  "submitted h sp (MsgPrevote p) = (map_of (sp_prevotes sp) (mp_validator p) = Some h)"
| "submitted h sp (MsgVote v) = (map_of (sp_votes sp) (mv_validator v) = Some h)"
| "submitted h sp m = False"

text \<open>What a message uses up at a height: the prevote or the vote of a validator, by the spelling of its address.\<close>

datatype free_slot = PrevoteOf string | VoteOf string | NoSlot

fun slot :: "tx_msg \<Rightarrow> free_slot" where
  "slot (MsgPrevote p) = PrevoteOf (mp_validator p)"
| "slot (MsgVote v) = VoteOf (mv_validator v)"
| "slot m = NoSlot"

fun feeder_ok :: "sdk \<Rightarrow> (addr \<Rightarrow> addr \<Rightarrow> unit outcome) \<Rightarrow> tx_msg \<Rightarrow> bool" where
  "feeder_ok S vf (MsgPrevote p) = (check_feeder S vf (mp_feeder p) (mp_validator p) = Ok ())"
| "feeder_ok S vf (MsgVote v) = (check_feeder S vf (mv_feeder v) (mv_validator v) = Ok ())"
| "feeder_ok S vf m = False"

lemma submitted_keep:
  "submitted h sp m \<Longrightarrow> submitted h (snd (CheckOracleSpamming S vf h ms sp)) m"
proof (induction S vf h ms sp rule: CheckOracleSpamming.induct)
  case (2 S vf h p ms sp)
  then show ?case by (cases m) (auto split: outcome.splits)
next
  case (3 S vf h v ms sp)
  then show ?case by (cases m) (auto split: outcome.splits)
qed auto

lemma submitted_recorded:
  "fst (CheckOracleSpamming S vf h ms sp) = Ok () \<Longrightarrow> m \<in> set (oracle_prefix ms) \<Longrightarrow>
    submitted h (snd (CheckOracleSpamming S vf h ms sp)) m"
proof (induction S vf h ms sp rule: CheckOracleSpamming.induct)
  case (2 S vf h p ms sp)
  let ?sp = "sp\<lparr>sp_prevotes := go_put (mp_validator p) h (sp_prevotes sp)\<rparr>"
  have "submitted h (snd (CheckOracleSpamming S vf h ms ?sp)) (MsgPrevote p)" by (rule submitted_keep) simp
  with 2 show ?case by (auto split: outcome.splits if_splits)
next
  case (3 S vf h v ms sp)
  let ?sp = "sp\<lparr>sp_votes := go_put (mv_validator v) h (sp_votes sp)\<rparr>"
  have "submitted h (snd (CheckOracleSpamming S vf h ms ?sp)) (MsgVote v)" by (rule submitted_keep) simp
  with 3 show ?case by (auto split: outcome.splits if_splits)
qed auto

lemma slot_submitted: "slot m = slot m' \<Longrightarrow> submitted h sp m = submitted h sp m'"
  by (cases m; cases m') auto

lemma submitted_put_iff:
  "m \<in> set (oracle_prefix ms) \<Longrightarrow>
    submitted h (sp\<lparr>sp_prevotes := go_put v h (sp_prevotes sp)\<rparr>) m \<longleftrightarrow> slot m = PrevoteOf v \<or> submitted h sp m"
  "m \<in> set (oracle_prefix ms) \<Longrightarrow>
    submitted h (sp\<lparr>sp_votes := go_put v h (sp_votes sp)\<rparr>) m \<longleftrightarrow> slot m = VoteOf v \<or> submitted h sp m"
  by (cases m; auto)+

lemma fresh_put_iff:
  "(\<forall>m\<in>set (oracle_prefix ms). P m \<and> \<not> submitted h (sp\<lparr>sp_prevotes := go_put v h (sp_prevotes sp)\<rparr>) m)
    \<longleftrightarrow> (\<forall>m\<in>set (oracle_prefix ms). P m \<and> \<not> submitted h sp m) \<and> PrevoteOf v \<notin> slot ` set (oracle_prefix ms)"
  "(\<forall>m\<in>set (oracle_prefix ms). P m \<and> \<not> submitted h (sp\<lparr>sp_votes := go_put v h (sp_votes sp)\<rparr>) m)
    \<longleftrightarrow> (\<forall>m\<in>set (oracle_prefix ms). P m \<and> \<not> submitted h sp m) \<and> VoteOf v \<notin> slot ` set (oracle_prefix ms)"
  by (simp_all add: submitted_put_iff image_iff) metis+

lemma check_Ok_iff:
  "fst (CheckOracleSpamming S vf h ms sp) = Ok () \<longleftrightarrow>
    (\<forall>m\<in>set (oracle_prefix ms). feeder_ok S vf m \<and> \<not> submitted h sp m) \<and> distinct (map slot (oracle_prefix ms))"
proof (induction S vf h ms sp rule: CheckOracleSpamming.induct)
  case (2 S vf h p ms sp)
  then show ?case by (cases "check_feeder S vf (mp_feeder p) (mp_validator p)") (auto simp: fresh_put_iff)
next
  case (3 S vf h v ms sp)
  then show ?case by (cases "check_feeder S vf (mv_feeder v) (mv_validator v)") (auto simp: fresh_put_iff)
qed auto

text \<open>The free messages of the transactions that pass, when transactions are checked one after the other.\<close>

fun passed :: "sdk \<Rightarrow> int \<Rightarrow> ((addr \<Rightarrow> addr \<Rightarrow> unit outcome) \<times> tx_msg list) list \<Rightarrow> spam_maps \<Rightarrow> tx_msg list" where
  "passed S h [] sp = []"
| "passed S h ((vf, ms) # txs) sp =
    (case CheckOracleSpamming S vf h ms sp of (r, sp') \<Rightarrow> (if r = Ok () then oracle_prefix ms else []) @ passed S h txs sp')"

lemma passed_fresh: "m \<in> set (passed S h txs sp) \<Longrightarrow> \<not> submitted h sp m"
proof (induction S h txs sp rule: passed.induct)
  case (2 S h vf ms txs sp)
  obtain r sp' where c: "CheckOracleSpamming S vf h ms sp = (r, sp')" by (cases "CheckOracleSpamming S vf h ms sp")
  have "\<not> submitted h sp m" if "fst (CheckOracleSpamming S vf h ms sp) = Ok ()" "m \<in> set (oracle_prefix ms)"
    using that check_Ok_iff by blast
  moreover have "\<not> submitted h sp m" if "m \<in> set (passed S h txs sp')"
    using "2.IH" [OF c [symmetric] that] submitted_keep [of h sp m S vf ms] c by auto
  ultimately show ?case using "2.prems" c by (auto split: if_splits)
qed simp

lemma passed_distinct: "distinct (map slot (passed S h txs sp))"
proof (induction S h txs sp rule: passed.induct)
  case (2 S h vf ms txs sp)
  obtain r sp' where c: "CheckOracleSpamming S vf h ms sp = (r, sp')" by (cases "CheckOracleSpamming S vf h ms sp")
  have IH: "distinct (map slot (passed S h txs sp'))" using "2.IH" [OF c [symmetric]] by simp
  show ?case
  proof (cases "r = Ok ()")
    case False
    with IH c show ?thesis by simp
  next
    case True
    then have f: "fst (CheckOracleSpamming S vf h ms sp) = Ok ()" using c by simp
    have "slot m \<noteq> slot m'" if m: "m \<in> set (oracle_prefix ms)" "m' \<in> set (passed S h txs sp')" for m m'
    proof -
      have "submitted h sp' m" using submitted_recorded [OF f m(1)] c by simp
      moreover have "\<not> submitted h sp' m'" by (rule passed_fresh [OF m(2)])
      ultimately show ?thesis using slot_submitted by metis
    qed
    moreover have "distinct (map slot (oracle_prefix ms))" using f by (simp only: check_Ok_iff)
    ultimately show ?thesis using IH c True by auto
  qed
qed simp

text \<open>
  C24: at most one free prevote and one free vote per validator and height. The check of a transaction
  at a height never panics, and it passes exactly when every leading oracle message comes from a
  feeder of its validator, no two of these messages are prevotes (votes) for the same validator, and
  none is for a validator that already had a prevote (a vote) recorded at that height. So, however many
  transactions are checked at a height, passed or failed ones between them, the prevotes (votes) of the
  transactions that pass are for pairwise different validators. The maps are keyed by the validator
  address as it is written in the message, so that two spellings of one address count as two.
\<close>

theorem spam_once:
  assumes a: "addr_laws S"
  shows "fst (CheckOracleSpamming S (ValidateFeeder vals k) h ms sp) \<noteq> Panic
    \<and> (fst (CheckOracleSpamming S (ValidateFeeder vals k) h ms sp) = Ok () \<longleftrightarrow>
        (\<forall>m\<in>set (oracle_prefix ms). feeder_ok S (ValidateFeeder vals k) m \<and> \<not> submitted h sp m)
        \<and> distinct (map slot (oracle_prefix ms)))
    \<and> distinct (map slot (passed S h txs sp))"
  using oracle_feeders.check_no_panic [OF a, of "(vals, k)"] check_Ok_iff [of S "ValidateFeeder vals k"] passed_distinct
  by simp

definition free_prevote :: msg_prevote where
  "free_prevote = \<lparr>mp_hash = ''h'', mp_feeder = ''terra1aaaaaaaaaaaaaaaaaaaa'', mp_validator = ''terravaloper1aaaaaaaaaaaaaaaaaaaa''\<rparr>"

definition bonded_validators :: validators where
  "bonded_validators v = Some \<lparr>val_operator = v, val_bonded = True, val_jailed = False, val_power = 1\<rparr>"

theorem spam_once_witness:
  "fst (CheckOracleSpamming sdk_ref (ValidateFeeder bonded_validators swap_oracle) 7 [MsgPrevote free_prevote]
      \<lparr>sp_prevotes = [], sp_votes = []\<rparr>) = Ok ()
    \<and> (\<exists>e. fst (CheckOracleSpamming sdk_ref (ValidateFeeder bonded_validators swap_oracle) 7
      [MsgPrevote free_prevote, MsgPrevote free_prevote] \<lparr>sp_prevotes = [], sp_votes = []\<rparr>) = Err e)"
proof -
  let ?vf = "ValidateFeeder bonded_validators swap_oracle" and ?sp = "\<lparr>sp_prevotes = [], sp_votes = []\<rparr>"
  have v: "check_feeder sdk_ref ?vf (mp_feeder free_prevote) (mp_validator free_prevote) = Ok ()"
    by (simp add: check_feeder_def ValidateFeeder_def require_def free_prevote_def bonded_validators_def)
  have "fst (CheckOracleSpamming sdk_ref ?vf 7 [MsgPrevote free_prevote] ?sp) = Ok ()"
    using spam_once [OF addr_laws_sdk_ref, of bonded_validators swap_oracle 7 "[MsgPrevote free_prevote]" ?sp "[]"]
    by (simp add: v)
  moreover have "fst (CheckOracleSpamming sdk_ref ?vf 7 [MsgPrevote free_prevote, MsgPrevote free_prevote] ?sp) \<notin> {Ok (), Panic}"
    using spam_once [OF addr_laws_sdk_ref, of bonded_validators swap_oracle 7
      "[MsgPrevote free_prevote, MsgPrevote free_prevote]" ?sp "[]"] by simp
  then have "\<exists>e. fst (CheckOracleSpamming sdk_ref ?vf 7 [MsgPrevote free_prevote, MsgPrevote free_prevote] ?sp) = Err e"
    by (cases "fst (CheckOracleSpamming sdk_ref ?vf 7 [MsgPrevote free_prevote, MsgPrevote free_prevote] ?sp)") auto
  ultimately show ?thesis by blast
qed

end
