(* ===== verification/Gas.thy ===== *)
theory Gas
  imports Prelude
begin

text \<open>
  Actions that can fail, panic and run out of gas, for the components that charge a gas meter: the
  checks of signatures and the contracts.
\<close>

section \<open>Calls with a gas meter\<close>

text \<open>
  A call of the module works on a state that outlives its failure, because the gas meter does. It
  returns a value or an error, or panics; running out of gas is the one panic the code recovers
  from. \<open>Unfinished\<close> says that the bound on the nesting of contract calls was reached.
\<close>

datatype 'a call = Ret 'a | Fail err | OutOfGas | Crash | Unfinished

type_synonym ('s, 'a) action = "'s \<Rightarrow> 'a call \<times> 's"

definition thenDo :: "('s, 'a) action \<Rightarrow> ('a \<Rightarrow> ('s, 'b) action) \<Rightarrow> ('s, 'b) action" where
  "thenDo m f s = (case m s of
      (Ret a, s') \<Rightarrow> f a s'
    | (Fail e, s') \<Rightarrow> (Fail e, s')
    | (OutOfGas, s') \<Rightarrow> (OutOfGas, s')
    | (Crash, s') \<Rightarrow> (Crash, s')
    | (Unfinished, s') \<Rightarrow> (Unfinished, s'))"

fun lift :: "'a outcome \<Rightarrow> ('s, 'a) action" where
  "lift (Ok a) s = (Ret a, s)"
| "lift (Err e) s = (Fail e, s)"
| "lift Panic s = (Crash, s)"

definition give :: "'a \<Rightarrow> ('s, 'a) action" where
  "give a s = (Ret a, s)"

type_synonym bytes = "8 word list"

text \<open>
  What a gas meter shows of itself; the meter of a block's own code has no limit and shows the
  limit zero.
\<close>

record gas_meter =
  gm_limit :: u64
  gm_consumed :: u64
  gm_infinite :: bool


record event =
  ev_type :: string
  ev_attrs :: "(string \<times> string) list"


section \<open>Sequences of actions\<close>

text \<open>How a sequence of actions runs.\<close>

lemma thenDo_eq:
  "thenDo f g s = (case f s of (Ret a, s') \<Rightarrow> g a s' | (Fail e, s') \<Rightarrow> (Fail e, s') | (OutOfGas, s') \<Rightarrow> (OutOfGas, s')
    | (Crash, s') \<Rightarrow> (Crash, s') | (Unfinished, s') \<Rightarrow> (Unfinished, s'))"
  by (simp add: thenDo_def)

lemma thenDo_cases:
  assumes "thenDo f g s = (r, s')"
  obtains (ret) a s1 where "f s = (Ret a, s1)" "g a s1 = (r, s')"
    | (fail) e where "f s = (Fail e, s')" "r = Fail e"
    | (gas) "f s = (OutOfGas, s')" "r = OutOfGas"
    | (crash) "f s = (Crash, s')" "r = Crash"
    | (unfinished) "f s = (Unfinished, s')" "r = Unfinished"
  using assms unfolding thenDo_def by (cases "f s"; cases "fst (f s)") auto

lemma thenDo_Ret:
  "thenDo f g s = (Ret b, s') \<longleftrightarrow> (\<exists>a s1. f s = (Ret a, s1) \<and> g a s1 = (Ret b, s'))"
proof
  assume "thenDo f g s = (Ret b, s')"
  then show "\<exists>a s1. f s = (Ret a, s1) \<and> g a s1 = (Ret b, s')" by (cases rule: thenDo_cases) auto
qed (auto simp: thenDo_def)

lemma lift_cases: "lift r s = (case r of Ok a \<Rightarrow> (Ret a, s) | Err e \<Rightarrow> (Fail e, s) | Panic \<Rightarrow> (Crash, s))"
  by (cases r) auto

lemma lift_Ret: "lift r s = (Ret a, s') \<longleftrightarrow> r = Ok a \<and> s' = s"
  by (cases r) auto

lemma thenDo_Fail: "thenDo f g s = (Fail e, s') \<longleftrightarrow>
    f s = (Fail e, s') \<or> (\<exists>a s1. f s = (Ret a, s1) \<and> g a s1 = (Fail e, s'))"
  by (auto simp: thenDo_def split: prod.splits call.splits)

lemma lift_Fail: "lift r s = (Fail e, s') \<longleftrightarrow> r = Err e \<and> s' = s"
  by (cases r) auto

end
