(* ===== verification/WasmTypes.thy ===== *)
theory WasmTypes
  imports AnteTax Gas
begin

text \<open>
  The data of \<open>src/x/wasm\<close>: gas accounting (\<open>types/gas_meter.go\<close>, \<open>types/gas_store.go\<close>,
  \<open>keeper/api.go\<close>), parameters, messages and their checks (\<open>types/msgs.go\<close>), events
  (\<open>types/connector.go\<close>), the contract address, and the parsers that turn a contract's message into
  a message of the chain (\<open>types/msg_binding.go\<close>, \<open>keeper/wasm_interface.go\<close> and the \<open>wasm\<close>
  packages of \<open>src/custom\<close>). The record \<open>wasm_env\<close> holds the code the module calls: the SDK's gas
  meter, account and bank keepers, the contract virtual machine, the handlers of other modules.
\<close>

section \<open>Data\<close>

record wasm_params =
  MaxContractSize :: u64
  MaxContractGas :: u64
  MaxContractMsgSize :: u64

record code_info =
  ci_code_id :: u64
  ci_hash :: bytes
  ci_creator :: string

record contract_info =
  co_address :: string
  co_creator :: string
  co_admin :: string
  co_code_id :: u64
  co_init_msg :: bytes

type_synonym kv = "(bytes, bytes) gomap"

text \<open>
  The store of the module; each of its key prefixes is a map of its own, and a contract's store is
  the part below its address, whose encoding starts with its length.
\<close>

record wasm_store =
  ws_params :: wasm_params
  ws_last_code :: "u64 option"
  ws_last_instance :: "u64 option"
  ws_codes :: "(u64, code_info) gomap"
  ws_contracts :: "(addr, contract_info) gomap"
  ws_stores :: "(addr, kv) gomap"

text \<open>The state of the other modules with the gas meter and the event manager of the context.\<close>

record 'x host =
  h_rest :: 'x
  h_gas :: gas_meter
  h_events :: "event list"

record 'x kstate =
  ks_wasm :: wasm_store
  ks_host :: "'x host"

text \<open>The context of a block with its time in nanoseconds and the depth of contract queries.\<close>

record wasm_ctx = ctx +
  ctx_nanos :: int
  ctx_depth :: "8 word option"

text \<open>The entries of the store, by which the access to one of them is charged.\<close>

datatype store_key = LastCodeKey | LastInstanceKey | CodeKey u64 | ContractKey addr | ModelKey addr bytes | ParamKey string

record msg_store_code =
  sc_sender :: string
  sc_code :: bytes

record msg_migrate_code =
  mcd_code_id :: u64
  mcd_sender :: string
  mcd_code :: bytes

record msg_instantiate =
  mi_sender :: string
  mi_admin :: string
  mi_code_id :: u64
  mi_msg :: bytes
  mi_coins :: coins

record msg_execute =
  me_sender :: string
  me_contract :: string
  me_msg :: bytes
  me_coins :: coins

record msg_migrate =
  mm_admin :: string
  mm_contract :: string
  mm_new_code :: u64
  mm_msg :: bytes

record msg_update_admin =
  mu_admin :: string
  mu_new_admin :: string
  mu_contract :: string

record msg_clear_admin =
  mc_admin :: string
  mc_contract :: string

datatype wasm_msg =
    WStoreCode msg_store_code
  | WMigrateCode msg_migrate_code
  | WInstantiate msg_instantiate
  | WExecute msg_execute
  | WMigrate msg_migrate
  | WUpdateAdmin msg_update_admin
  | WClearAdmin msg_clear_admin

datatype wasm_response =
    StoreCodeResponse u64
  | MigrateCodeResponse
  | InstantiateResponse string "bytes option"
  | ExecuteResponse "bytes option"
  | MigrateResponse "bytes option"
  | UpdateAdminResponse
  | ClearAdminResponse

text \<open>
  The messages a contract can cause: those of this module, those its parsers build for other
  modules, and any other message of the chain (\<open>'m\<close>), which it can send in encoded form.
\<close>

datatype vote_option = OptionEmpty | OptionYes | OptionAbstain | OptionNo | OptionNoWithVeto

datatype 'm sdk_msg =
    WasmMsg wasm_msg
  | BankSend addr addr coins
  | StakingDelegate addr addr coin
  | StakingRedelegate addr addr addr coin
  | StakingUndelegate addr addr coin
  | DistrSetWithdraw addr addr
  | DistrWithdraw addr addr
  | GovVote u64 addr vote_option
  | MarketMsg market_msg
  | OtherMsg 'm

text \<open>The messages in the form a contract gives them; a pointer that may be nil is an option.\<close>

type_synonym wasm_coin = "string \<times> string"

record vm_bank_msg =
  vb_send :: "(string \<times> wasm_coin list) option"
  vb_burn :: "wasm_coin list option"

record vm_staking_msg =
  vs_delegate :: "(string \<times> wasm_coin) option"
  vs_redelegate :: "(string \<times> string \<times> wasm_coin) option"
  vs_undelegate :: "(string \<times> wasm_coin) option"

record vm_distribution_msg =
  vd_set_withdraw :: "string option"
  vd_withdraw :: "string option"

datatype vm_vote = VoteUnset | VoteYes | VoteNo | VoteAbstain | VoteNoWithVeto

record vm_execute_msg =
  vx_contract :: string
  vx_msg :: bytes
  vx_funds :: "wasm_coin list"

record vm_instantiate_msg =
  vi_code_id :: u64
  vi_msg :: bytes
  vi_funds :: "wasm_coin list"
  vi_admin :: string

record vm_wasm_msg =
  vw_execute :: "vm_execute_msg option"
  vw_instantiate :: "vm_instantiate_msg option"
  vw_migrate :: "(string \<times> u64 \<times> bytes) option"
  vw_update_admin :: "(string \<times> string) option"
  vw_clear_admin :: "string option"

record cosmos_msg =
  cw_bank :: "vm_bank_msg option"
  cw_custom :: "bytes option"
  cw_staking :: "vm_staking_msg option"
  cw_distribution :: "vm_distribution_msg option"
  cw_gov :: "(u64 \<times> vm_vote) option option"
  cw_wasm :: "vm_wasm_msg option"
  cw_stargate :: "(string \<times> bytes) option"
  cw_ibc :: bool

datatype reply_on = ReplySuccess | ReplyError | ReplyAlways | ReplyNever | ReplyUnknown

record sub_msg =
  sm_id :: u64
  sm_msg :: cosmos_msg
  sm_gas_limit :: "u64 option"
  sm_reply_on :: reply_on

text \<open>What a contract returns, and what a contract is told of a message it dispatched.\<close>

record vm_response =
  vr_messages :: "sub_msg list"
  vr_data :: "bytes option"
  vr_attributes :: "(string \<times> string) list"
  vr_events :: "event list"

datatype subcall_result = SubOk "event list" bytes | SubErr string

record vm_reply =
  rp_id :: u64
  rp_result :: subcall_result

record vm_env =
  ve_height :: u64
  ve_time :: u64
  ve_chain :: string
  ve_contract :: string

record vm_info =
  vf_sender :: string
  vf_funds :: "wasm_coin list"

datatype wasm_query = Smart string bytes | Raw string "bytes option" | NoWasmQuery

record query_request =
  qr_bank :: "bytes option"
  qr_custom :: "bytes option"
  qr_staking :: "bytes option"
  qr_wasm :: "wasm_query option"
  qr_stargate :: "(string \<times> bytes) option"
  qr_ibc :: bool

record go_api =
  api_human :: "bytes \<Rightarrow> string outcome \<times> u64"
  api_canonical :: "string \<Rightarrow> bytes outcome \<times> u64"


section \<open>The code the module calls\<close>

text \<open>
  A handler of another module works on the state of the host and may route further messages of this
  module (\<open>authz\<close> does); it is a program that either ends or asks for such a message and continues
  with what it returned.
\<close>

datatype 'x program =
    Stop "(bytes \<times> event list) call" "'x host"
  | Route wasm_msg "'x host" "(bytes \<times> event list) outcome \<Rightarrow> 'x host \<Rightarrow> 'x program"

text \<open>What reading a compressed stream gives, read by read.\<close>

datatype stream_read = Chunk bytes | LastChunk bytes | ReadError err

text \<open>A querier sees the store of the running contract as it is at the time of the query.\<close>

type_synonym vm_querier = "kv \<Rightarrow> query_request \<Rightarrow> u64 \<Rightarrow> (gas_meter, bytes option) action"

type_synonym 'r vm_out = "'r outcome \<times> u64 \<times> kv \<times> gas_meter"

text \<open>
  The virtual machine gets the contract's store, the address functions, the querier, the gas meter
  and the gas limit; it returns its result with the gas it used, the store and the meter.
\<close>

type_synonym 'r vm_run = "kv \<Rightarrow> go_api \<Rightarrow> vm_querier \<Rightarrow> gas_meter \<Rightarrow> u64 \<Rightarrow> 'r vm_out"

record ('x, 'm) wasm_env =
  we_sdk :: sdk
  we_bond :: denom
  new_gas_meter :: "u64 \<Rightarrow> gas_meter"
  consume_gas :: "u64 \<Rightarrow> (gas_meter, unit) action"
  is_out_of_gas :: "gas_meter \<Rightarrow> bool"
  read_gas :: "store_key \<Rightarrow> wasm_store \<Rightarrow> (gas_meter, unit) action"
  write_gas :: "store_key \<Rightarrow> wasm_store \<Rightarrow> (gas_meter, unit) action"
  uint_add :: "int \<Rightarrow> int \<Rightarrow> int outcome"
  uint_mul :: "int \<Rightarrow> int \<Rightarrow> int outcome"
  uint_uint64 :: "int \<Rightarrow> u64 outcome"
  parse_int :: "string \<Rightarrow> int option"
  int_text :: "int \<Rightarrow> string"
  verify_address :: "bytes \<Rightarrow> bool"
  addr_of_bytes :: "bytes \<Rightarrow> addr"
  bytes_of_addr :: "addr \<Rightarrow> bytes"
  address_hash :: "bytes \<Rightarrow> addr"
  json_valid :: "bytes \<Rightarrow> bool"
  json_custom :: "bytes \<Rightarrow> (string \<times> bytes) outcome"
  json_market :: "bytes \<Rightarrow> market_cosmos_msg outcome"
  gzip_reads :: "bytes \<Rightarrow> stream_read list outcome"
  err_text :: "err \<Rightarrow> string"
  marshal_response :: "wasm_response \<Rightarrow> bytes"
  unpack_any :: "string \<Rightarrow> bytes \<Rightarrow> 'm sdk_msg outcome"
  get_account :: "addr \<Rightarrow> ('x host, bool) action"
  new_account :: "addr \<Rightarrow> ('x host, unit) action"
  send_coins :: "addr \<Rightarrow> addr \<Rightarrow> coins \<Rightarrow> ('x host, unit) action"
  deduct_fees :: "addr \<Rightarrow> coins \<Rightarrow> ('x host, unit) action"
  tax_rate :: "'x \<Rightarrow> dec"
  tax_cap :: "'x \<Rightarrow> denom \<Rightarrow> int"
  module_validate :: "'m sdk_msg \<Rightarrow> unit outcome"
  module_signers :: "'m sdk_msg \<Rightarrow> addr list outcome"
  module_view :: "'m \<Rightarrow> tx_msg"
  module_handler :: "wasm_ctx \<Rightarrow> 'm sdk_msg \<Rightarrow> ('x host \<Rightarrow> 'x program) option"
  module_query :: "string \<Rightarrow> query_request \<Rightarrow> wasm_ctx \<Rightarrow> 'x \<Rightarrow> (gas_meter, bytes option) action"
  custom_query :: "string \<Rightarrow> (bytes \<Rightarrow> wasm_ctx \<Rightarrow> 'x \<Rightarrow> (gas_meter, bytes option) action) option"
  stargate_query :: "string \<Rightarrow> (bytes \<Rightarrow> wasm_ctx \<Rightarrow> 'x \<Rightarrow> (gas_meter, bytes option) action) option"
  json_query :: "bytes \<Rightarrow> (string \<times> bytes) outcome"
  json_contract_query :: "bytes \<Rightarrow> string option outcome"
  json_contract_info :: "contract_info \<Rightarrow> bytes outcome"
  vm_create :: "bytes \<Rightarrow> bytes outcome"
  vm_get_code :: "bytes \<Rightarrow> bytes outcome"
  vm_instantiate :: "bytes \<Rightarrow> vm_env \<Rightarrow> vm_info \<Rightarrow> bytes \<Rightarrow> vm_response vm_run"
  vm_execute :: "bytes \<Rightarrow> vm_env \<Rightarrow> vm_info \<Rightarrow> bytes \<Rightarrow> vm_response vm_run"
  vm_migrate :: "bytes \<Rightarrow> vm_env \<Rightarrow> bytes \<Rightarrow> vm_response vm_run"
  vm_reply_call :: "bytes \<Rightarrow> vm_env \<Rightarrow> vm_reply \<Rightarrow> vm_response vm_run"
  vm_query :: "bytes \<Rightarrow> vm_env \<Rightarrow> bytes \<Rightarrow> bytes vm_run"

section \<open>Gas\<close>

text \<open>Charging the meter; a cost that does not fit 64 bits is a panic of its computation.\<close>

definition charge :: "('x, 'm) wasm_env \<Rightarrow> u64 outcome \<Rightarrow> (gas_meter, unit) action" where
  "charge E cost = thenDo (lift cost) (consume_gas E)"

definition len64 :: "'a list \<Rightarrow> int" where
  "len64 xs = uint (word_of_nat (length xs) :: u64)"

definition GasMultiplier :: u64 where "GasMultiplier = 100"
definition compileCostPerByte :: u64 where "compileCostPerByte = 2"
definition instantiateCost :: u64 where "instantiateCost = 40000"
definition registerCost :: u64 where "registerCost = 160000"
definition humanizeCost :: u64 where "humanizeCost = 5"
definition canonicalizeCost :: u64 where "canonicalizeCost = 4"
definition eventAttributeCost :: u64 where "eventAttributeCost = 10"
definition customEventCost :: u64 where "customEventCost = 20"
definition eventAttributeDataCostPerByte :: u64 where "eventAttributeDataCostPerByte = 1"
definition contractMessageDataCostPerByte :: u64 where "contractMessageDataCostPerByte = 1"
definition HumanizeWasmGasCost :: u64 where "HumanizeWasmGasCost = humanizeCost * GasMultiplier"
definition CanonicalizeWasmGasCost :: u64 where "CanonicalizeWasmGasCost = canonicalizeCost * GasMultiplier"

lemmas gas_consts = GasMultiplier_def compileCostPerByte_def instantiateCost_def registerCost_def
  humanizeCost_def canonicalizeCost_def eventAttributeCost_def customEventCost_def
  eventAttributeDataCostPerByte_def contractMessageDataCostPerByte_def HumanizeWasmGasCost_def
  CanonicalizeWasmGasCost_def

definition CompileCosts :: "('x, 'm) wasm_env \<Rightarrow> bytes \<Rightarrow> u64 outcome" where
  "CompileCosts E code = andThen (uint_mul E (uint compileCostPerByte) (len64 code)) (uint_uint64 E)"

definition InstantiateContractCosts :: "('x, 'm) wasm_env \<Rightarrow> nat \<Rightarrow> u64 outcome" where
  "InstantiateContractCosts E msgLen =
    andThen (uint_mul E (uint (word_of_nat msgLen :: u64)) (uint contractMessageDataCostPerByte)) (\<lambda>dataCosts.
    andThen (uint_add E dataCosts (uint instantiateCost)) (uint_uint64 E))"

definition RegisterContractCosts :: u64 where
  "RegisterContractCosts = registerCost"

definition eventTypeCosts :: "('x, 'm) wasm_env \<Rightarrow> string \<Rightarrow> u64 outcome" where
  "eventTypeCosts E eventType =
    (if eventType = [] then Ok 0
     else andThen (uint_mul E (len64 eventType) (uint eventAttributeDataCostPerByte)) (uint_uint64 E))"

definition eventAttributeCosts :: "('x, 'm) wasm_env \<Rightarrow> (string \<times> string) list \<Rightarrow> u64 outcome" where
  "eventAttributeCosts E attrs =
    (if attrs = [] then Ok 0
     else
     andThen (forEach (\<lambda>(k, v) storedBytes. uint_add E storedBytes (len64 (k @ v))) attrs 0) (\<lambda>storedBytes.
     andThen (uint_mul E storedBytes (uint eventAttributeDataCostPerByte)) (\<lambda>lengthCost.
     andThen (uint_mul E (uint eventAttributeCost) (len64 attrs)) (\<lambda>attributeCost.
     andThen (uint_add E lengthCost attributeCost) (uint_uint64 E)))))"

definition EventCosts :: "('x, 'm) wasm_env \<Rightarrow> (string \<times> string) list \<Rightarrow> event list \<Rightarrow> u64 outcome" where
  "EventCosts E attrs events =
    andThen (eventAttributeCosts E attrs) (\<lambda>g.
    andThen (forEach (\<lambda>e gas.
       andThen (eventTypeCosts E (ev_type e)) (\<lambda>typeCost.
       andThen (eventAttributeCosts E (ev_attrs e)) (\<lambda>attributeCost.
       andThen (uint_add E (uint customEventCost) (uint typeCost)) (\<lambda>eventCost.
       andThen (uint_add E eventCost (uint attributeCost)) (uint_add E gas))))) events (uint g))
      (uint_uint64 E))"

definition ReplyCosts :: "('x, 'm) wasm_env \<Rightarrow> vm_reply \<Rightarrow> u64 outcome" where
  "ReplyCosts E reply =
    (case rp_result reply of
       SubErr text \<Rightarrow>
         andThen (InstantiateContractCosts E (length text)) (\<lambda>g.
         andThen (uint_add E 0 (uint g)) (uint_uint64 E))
     | SubOk events data \<Rightarrow>
         (let msgLen = length data + (\<Sum>e\<leftarrow>events. length (ev_type e));
              attrs = concat (map ev_attrs events) in
          andThen (eventAttributeCosts E attrs) (\<lambda>a.
          andThen (uint_add E 0 (uint a)) (\<lambda>eventGas.
          andThen (InstantiateContractCosts E msgLen) (\<lambda>g.
          andThen (uint_add E eventGas (uint g)) (uint_uint64 E))))))"

definition ToWasmVMGas :: "('x, 'm) wasm_env \<Rightarrow> u64 \<Rightarrow> u64 outcome" where
  "ToWasmVMGas E source = andThen (uint_mul E (uint source) (uint GasMultiplier)) (uint_uint64 E)"

definition FromWasmVMGas :: "u64 \<Rightarrow> u64" where
  "FromWasmVMGas source = source div GasMultiplier"

text \<open>What the virtual machine may use, with the largest number for a meter without limit.\<close>

definition getWasmVMGasRemaining :: "('x, 'm) wasm_env \<Rightarrow> gas_meter \<Rightarrow> u64 outcome" where
  "getWasmVMGasRemaining E meter =
    (if is_out_of_gas E meter then Ok 0
     else if gm_limit meter = 0 then Ok (- 1)
     else ToWasmVMGas E (gm_limit meter - gm_consumed meter))"

definition consumeWasmVMGas :: "('x, 'm) wasm_env \<Rightarrow> u64 \<Rightarrow> (gas_meter, unit) action" where
  "consumeWasmVMGas E wasmVMGas = consume_gas E (FromWasmVMGas wasmVMGas)"

definition getCosmWasmAPI :: "('x, 'm) wasm_env \<Rightarrow> go_api" where
  "getCosmWasmAPI E = \<lparr>
     api_human = (\<lambda>canon.
       if \<not> verify_address E canon then (Ok '''', HumanizeWasmGasCost * GasMultiplier)
       else (Ok (acc_bech32 (we_sdk E) (addr_of_bytes E canon)), HumanizeWasmGasCost * GasMultiplier)),
     api_canonical = (\<lambda>human.
       (andThen (acc_of_bech32 (we_sdk E) human) (\<lambda>a. Ok (bytes_of_addr E a)),
        CanonicalizeWasmGasCost * GasMultiplier))\<rparr>"


section \<open>The metered store of a contract\<close>

text \<open>
  The store that the virtual machine works on charges for every access; the prices and the checks of
  keys and values are the SDK's. The products wrap at 64 bits.
\<close>

record gas_config =
  HasCost :: u64
  DeleteCost :: u64
  ReadCostFlat :: u64
  ReadCostPerByte :: u64
  WriteCostFlat :: u64
  WriteCostPerByte :: u64
  IterNextCostFlat :: u64
  valid_key :: "bytes \<Rightarrow> bool"
  valid_value :: "bytes \<Rightarrow> bool"

record gas_store =
  gs_meter :: gas_meter
  gs_parent :: kv

definition gs_charge :: "('x, 'm) wasm_env \<Rightarrow> u64 \<Rightarrow> (gas_store, unit) action" where
  "gs_charge E amount gs = (case consume_gas E amount (gs_meter gs) of (r, m) \<Rightarrow> (r, gs\<lparr>gs_meter := m\<rparr>))"

definition Store_Get :: "('x, 'm) wasm_env \<Rightarrow> gas_config \<Rightarrow> bytes \<Rightarrow> (gas_store, bytes option) action" where
  "Store_Get E cfg key =
    thenDo (gs_charge E (ReadCostFlat cfg)) (\<lambda>_ gs.
    let value = map_of (gs_parent gs) key in
    thenDo (gs_charge E (ReadCostPerByte cfg * word_of_nat (length key))) (\<lambda>_.
    thenDo (gs_charge E (ReadCostPerByte cfg * (case value of None \<Rightarrow> 0 | Some v \<Rightarrow> word_of_nat (length v)))) (\<lambda>_.
    give value)) gs)"

definition Store_Set :: "('x, 'm) wasm_env \<Rightarrow> gas_config \<Rightarrow> bytes \<Rightarrow> bytes \<Rightarrow> (gas_store, unit) action" where
  "Store_Set E cfg key value =
    (if \<not> valid_key cfg key \<or> \<not> valid_value cfg value then (\<lambda>gs. (Crash, gs))
     else
     thenDo (gs_charge E (WriteCostFlat cfg)) (\<lambda>_.
     thenDo (gs_charge E (WriteCostPerByte cfg * word_of_nat (length key))) (\<lambda>_.
     thenDo (gs_charge E (WriteCostPerByte cfg * word_of_nat (length value))) (\<lambda>_ gs.
     (Ret (), gs\<lparr>gs_parent := go_put key value (gs_parent gs)\<rparr>)))))"

definition Store_Has :: "('x, 'm) wasm_env \<Rightarrow> gas_config \<Rightarrow> bytes \<Rightarrow> (gas_store, bool) action" where
  "Store_Has E cfg key =
    thenDo (gs_charge E (HasCost cfg)) (\<lambda>_ gs. (Ret (map_of (gs_parent gs) key \<noteq> None), gs))"

definition Store_Delete :: "('x, 'm) wasm_env \<Rightarrow> gas_config \<Rightarrow> bytes \<Rightarrow> (gas_store, unit) action" where
  "Store_Delete E cfg key =
    thenDo (gs_charge E (DeleteCost cfg)) (\<lambda>_ gs. (Ret (), gs\<lparr>gs_parent := go_del key (gs_parent gs)\<rparr>))"

text \<open>An iterator is the list of the entries it has yet to visit.\<close>

definition consumeSeekGas :: "('x, 'm) wasm_env \<Rightarrow> gas_config \<Rightarrow> kv \<Rightarrow> (gas_store, unit) action" where
  "consumeSeekGas E cfg it =
    thenDo (case it of
        [] \<Rightarrow> give ()
      | (key, value) # _ \<Rightarrow>
          thenDo (gs_charge E (ReadCostPerByte cfg * word_of_nat (length key))) (\<lambda>_.
          gs_charge E (ReadCostPerByte cfg * word_of_nat (length value)))) (\<lambda>_.
    gs_charge E (IterNextCostFlat cfg))"

definition in_range :: "bytes option \<Rightarrow> bytes option \<Rightarrow> bytes \<Rightarrow> bool" where
  "in_range start stop key \<longleftrightarrow>
    (case start of None \<Rightarrow> True | Some s \<Rightarrow> map unat s \<le> map unat key)
    \<and> (case stop of None \<Rightarrow> True | Some s \<Rightarrow> map unat key < map unat s)"

definition Store_iterator ::
  "('x, 'm) wasm_env \<Rightarrow> gas_config \<Rightarrow> bytes option \<Rightarrow> bytes option \<Rightarrow> bool \<Rightarrow> (gas_store, kv) action" where
  "Store_iterator E cfg start stop ascending gs =
    (let entries = filter (\<lambda>(k, v). in_range start stop k) (sort_key (\<lambda>(k, v). map unat k) (gs_parent gs));
         it = (if ascending then entries else rev entries) in
     thenDo (consumeSeekGas E cfg it) (\<lambda>_. give it) gs)"

definition gasIterator_Next :: "('x, 'm) wasm_env \<Rightarrow> gas_config \<Rightarrow> kv \<Rightarrow> (gas_store, kv) action" where
  "gasIterator_Next E cfg it = thenDo (consumeSeekGas E cfg it) (\<lambda>_. give (tl it))"


section \<open>Parameters and basic checks\<close>

definition EnforcedMaxContractSize :: u64 where "EnforcedMaxContractSize = 3000 * 1024"
definition EnforcedMaxContractGas :: u64 where "EnforcedMaxContractGas = 100000000"
definition EnforcedMaxContractMsgSize :: u64 where "EnforcedMaxContractMsgSize = 20 * 1024"

definition wasm_DefaultParams :: wasm_params where
  "wasm_DefaultParams =
    \<lparr>MaxContractSize = 600 * 1024, MaxContractGas = 20000000, MaxContractMsgSize = 4 * 1024\<rparr>"

definition wasm_Params_Validate :: "wasm_params \<Rightarrow> unit outcome" where
  "wasm_Params_Validate p =
    (if EnforcedMaxContractSize < MaxContractSize p then Err (ErrMsg ''max contract byte size'')
     else if EnforcedMaxContractGas < MaxContractGas p then Err (ErrMsg ''max contract gas'')
     else if EnforcedMaxContractMsgSize < MaxContractMsgSize p then Err (ErrMsg ''max contract msg byte size'')
     else Ok ())"

definition validateMaxContractSize :: "u64 \<Rightarrow> unit outcome" where
  "validateMaxContractSize v = require (v \<le> EnforcedMaxContractSize) (ErrMsg ''max contract byte size'')"

definition validateMaxContractGas :: "u64 \<Rightarrow> unit outcome" where
  "validateMaxContractGas v = require (v \<le> EnforcedMaxContractGas) (ErrMsg ''max contract gas'')"

definition validateMaxContractMsgSize :: "u64 \<Rightarrow> unit outcome" where
  "validateMaxContractMsgSize v = require (v \<le> EnforcedMaxContractMsgSize) (ErrMsg ''max contract msg byte size'')"

definition wasm_ParamSetPairs :: "wasm_params \<Rightarrow> unit outcome" where
  "wasm_ParamSetPairs p =
    andThen (validateMaxContractSize (MaxContractSize p)) (\<lambda>_.
    andThen (validateMaxContractGas (MaxContractGas p)) (\<lambda>_.
    validateMaxContractMsgSize (MaxContractMsgSize p)))"

definition valid_acc :: "sdk \<Rightarrow> string \<Rightarrow> unit outcome" where
  "valid_acc S a = wrapErr ErrInvalidAddress (andThen (acc_of_bech32 S a) (\<lambda>_. Ok ()))"

definition valid_code :: "bytes \<Rightarrow> unit outcome" where
  "valid_code code =
    (if code = [] then Err ErrInvalidRequest
     else require (word_of_nat (length code) \<le> EnforcedMaxContractSize) ErrInvalidRequest)"

definition valid_json_msg :: "('x, 'm) wasm_env \<Rightarrow> bytes \<Rightarrow> unit outcome" where
  "valid_json_msg E msg =
    (if EnforcedMaxContractMsgSize < word_of_nat (length msg) then Err ErrInvalidRequest
     else require (json_valid E msg) ErrInvalidRequest)"

definition MsgStoreCode_ValidateBasic :: "('x, 'm) wasm_env \<Rightarrow> msg_store_code \<Rightarrow> unit outcome" where
  "MsgStoreCode_ValidateBasic E msg =
    andThen (valid_acc (we_sdk E) (sc_sender msg)) (\<lambda>_. valid_code (sc_code msg))"

definition MsgMigrateCode_ValidateBasic :: "('x, 'm) wasm_env \<Rightarrow> msg_migrate_code \<Rightarrow> unit outcome" where
  "MsgMigrateCode_ValidateBasic E msg =
    andThen (valid_acc (we_sdk E) (mcd_sender msg)) (\<lambda>_. valid_code (mcd_code msg))"

definition MsgInstantiateContract_ValidateBasic :: "('x, 'm) wasm_env \<Rightarrow> msg_instantiate \<Rightarrow> unit outcome" where
  "MsgInstantiateContract_ValidateBasic E msg =
    andThen (valid_acc (we_sdk E) (mi_sender msg)) (\<lambda>_.
    andThen (if mi_admin msg \<noteq> '''' then valid_acc (we_sdk E) (mi_admin msg) else Ok ()) (\<lambda>_.
    andThen (require (coins_is_valid (we_sdk E) (mi_coins msg)) ErrInvalidCoins) (\<lambda>_.
    valid_json_msg E (mi_msg msg))))"

definition MsgExecuteContract_ValidateBasic :: "('x, 'm) wasm_env \<Rightarrow> msg_execute \<Rightarrow> unit outcome" where
  "MsgExecuteContract_ValidateBasic E msg =
    andThen (valid_acc (we_sdk E) (me_sender msg)) (\<lambda>_.
    andThen (valid_acc (we_sdk E) (me_contract msg)) (\<lambda>_.
    andThen (require (coins_is_valid (we_sdk E) (me_coins msg)) ErrInvalidCoins) (\<lambda>_.
    valid_json_msg E (me_msg msg))))"

definition MsgMigrateContract_ValidateBasic :: "('x, 'm) wasm_env \<Rightarrow> msg_migrate \<Rightarrow> unit outcome" where
  "MsgMigrateContract_ValidateBasic E msg =
    andThen (require (mm_new_code msg \<noteq> 0) ErrInvalidRequest) (\<lambda>_.
    andThen (valid_acc (we_sdk E) (mm_admin msg)) (\<lambda>_.
    andThen (valid_acc (we_sdk E) (mm_contract msg)) (\<lambda>_.
    valid_json_msg E (mm_msg msg))))"

definition MsgUpdateContractAdmin_ValidateBasic :: "('x, 'm) wasm_env \<Rightarrow> msg_update_admin \<Rightarrow> unit outcome" where
  "MsgUpdateContractAdmin_ValidateBasic E msg =
    andThen (valid_acc (we_sdk E) (mu_admin msg)) (\<lambda>_.
    andThen (valid_acc (we_sdk E) (mu_new_admin msg)) (\<lambda>_.
    valid_acc (we_sdk E) (mu_contract msg)))"

definition MsgClearContractAdmin_ValidateBasic :: "('x, 'm) wasm_env \<Rightarrow> msg_clear_admin \<Rightarrow> unit outcome" where
  "MsgClearContractAdmin_ValidateBasic E msg =
    andThen (valid_acc (we_sdk E) (mc_admin msg)) (\<lambda>_. valid_acc (we_sdk E) (mc_contract msg))"

fun wasm_ValidateBasic :: "('x, 'm) wasm_env \<Rightarrow> wasm_msg \<Rightarrow> unit outcome" where
  "wasm_ValidateBasic E (WStoreCode m) = MsgStoreCode_ValidateBasic E m"
| "wasm_ValidateBasic E (WMigrateCode m) = MsgMigrateCode_ValidateBasic E m"
| "wasm_ValidateBasic E (WInstantiate m) = MsgInstantiateContract_ValidateBasic E m"
| "wasm_ValidateBasic E (WExecute m) = MsgExecuteContract_ValidateBasic E m"
| "wasm_ValidateBasic E (WMigrate m) = MsgMigrateContract_ValidateBasic E m"
| "wasm_ValidateBasic E (WUpdateAdmin m) = MsgUpdateContractAdmin_ValidateBasic E m"
| "wasm_ValidateBasic E (WClearAdmin m) = MsgClearContractAdmin_ValidateBasic E m"

text \<open>The account that signs a message: its sender, or the contract's admin.\<close>

fun wasm_signer :: "wasm_msg \<Rightarrow> string" where
  "wasm_signer (WStoreCode m) = sc_sender m"
| "wasm_signer (WMigrateCode m) = mcd_sender m"
| "wasm_signer (WInstantiate m) = mi_sender m"
| "wasm_signer (WExecute m) = me_sender m"
| "wasm_signer (WMigrate m) = mm_admin m"
| "wasm_signer (WUpdateAdmin m) = mu_admin m"
| "wasm_signer (WClearAdmin m) = mc_admin m"

definition wasm_GetSigners :: "('x, 'm) wasm_env \<Rightarrow> wasm_msg \<Rightarrow> addr list outcome" where
  "wasm_GetSigners E msg = andThen (mustOk (acc_of_bech32 (we_sdk E) (wasm_signer msg))) (\<lambda>a. Ok [a])"

fun market_GetSigners :: "sdk \<Rightarrow> market_msg \<Rightarrow> addr list outcome" where
  "market_GetSigners S (MsgSwap m) = andThen (mustOk (acc_of_bech32 S (ms_trader m))) (\<lambda>a. Ok [a])"
| "market_GetSigners S (MsgSwapSend m) = andThen (mustOk (acc_of_bech32 S (mss_from m))) (\<lambda>a. Ok [a])"

fun GetSigners :: "('x, 'm) wasm_env \<Rightarrow> 'm sdk_msg \<Rightarrow> addr list outcome" where
  "GetSigners E (WasmMsg m) = wasm_GetSigners E m"
| "GetSigners E (MarketMsg m) = market_GetSigners (we_sdk E) m"
| "GetSigners E m = module_signers E m"

section \<open>Contracts, coins and events\<close>

definition NewCodeInfo :: "('x, 'm) wasm_env \<Rightarrow> u64 \<Rightarrow> bytes \<Rightarrow> addr \<Rightarrow> code_info" where
  "NewCodeInfo E codeID codeHash creator =
    \<lparr>ci_code_id = codeID, ci_hash = codeHash, ci_creator = acc_bech32 (we_sdk E) creator\<rparr>"

definition NewContractInfo :: "('x, 'm) wasm_env \<Rightarrow> u64 \<Rightarrow> addr \<Rightarrow> addr \<Rightarrow> addr \<Rightarrow> bytes \<Rightarrow> contract_info" where
  "NewContractInfo E codeID address creator admin initMsg =
    \<lparr>co_address = acc_bech32 (we_sdk E) address, co_creator = acc_bech32 (we_sdk E) creator,
     co_admin = (if admin \<noteq> [] then acc_bech32 (we_sdk E) admin else ''''),
     co_code_id = codeID, co_init_msg = initMsg\<rparr>"

definition NewEnv :: "('x, 'm) wasm_env \<Rightarrow> wasm_ctx \<Rightarrow> addr \<Rightarrow> vm_env" where
  "NewEnv E c contractAddr =
    \<lparr>ve_height = word_of_int (ctx_height c), ve_time = word_of_int (ctx_nanos c), ve_chain = ctx_chain c,
     ve_contract = acc_bech32 (we_sdk E) contractAddr\<rparr>"

definition EncodeSdkCoin :: "('x, 'm) wasm_env \<Rightarrow> coin \<Rightarrow> wasm_coin" where
  "EncodeSdkCoin E c = (coin_denom c, int_text E (coin_amount c))"

definition NewWasmCoins :: "('x, 'm) wasm_env \<Rightarrow> coins \<Rightarrow> wasm_coin list" where
  "NewWasmCoins E cosmosCoins = map (\<lambda>c. (coin_denom c, int_text E (coin_amount c))) cosmosCoins"

definition EncodeSdkCoins :: "('x, 'm) wasm_env \<Rightarrow> coins \<Rightarrow> wasm_coin list" where
  "EncodeSdkCoins E cs = map (EncodeSdkCoin E) cs"

definition NewInfo :: "('x, 'm) wasm_env \<Rightarrow> addr \<Rightarrow> coins \<Rightarrow> vm_info" where
  "NewInfo E creator deposit =
    \<lparr>vf_sender = acc_bech32 (we_sdk E) creator, vf_funds = NewWasmCoins E deposit\<rparr>"

text \<open>\<open>binary.PutUvarint\<close>: seven bits a byte, the lowest first, the top bit set on all but the last.\<close>

fun put_uvarint :: "nat \<Rightarrow> bytes" where
  "put_uvarint n = (if n < 128 then [word_of_nat n] else word_of_nat (n mod 128 + 128) # put_uvarint (n div 128))"

declare put_uvarint.simps [simp del]

definition contract_id :: "u64 \<Rightarrow> u64 \<Rightarrow> u64" where
  "contract_id codeID instanceID = push_bit 32 codeID + instanceID"

definition addr_preimage :: "u64 \<Rightarrow> bytes" where
  "addr_preimage n = 67 # take 19 (put_uvarint (unat n) @ replicate 19 0)"

definition addrFromUint64 :: "('x, 'm) wasm_env \<Rightarrow> u64 \<Rightarrow> addr" where
  "addrFromUint64 E n = address_hash E (addr_preimage n)"

definition GenerateContractAddress :: "('x, 'm) wasm_env \<Rightarrow> u64 \<Rightarrow> u64 \<Rightarrow> addr" where
  "GenerateContractAddress E codeID instanceID = addrFromUint64 E (contract_id codeID instanceID)"

definition AttributeKeyContractAddress :: string where
  "AttributeKeyContractAddress = ''contract_address''"

definition EventTypeWasmPrefix :: string where "EventTypeWasmPrefix = ''wasm''"
definition EventTypeFromContract :: string where "EventTypeFromContract = ''from_contract''"

text \<open>A nil event pointer is \<open>None\<close>.\<close>

definition buildEvent ::
  "('x, 'm) wasm_env \<Rightarrow> string \<Rightarrow> addr \<Rightarrow> (string \<times> string) list \<Rightarrow> event option" where
  "buildEvent E eventType contractAddr attributes =
    (if attributes = [] then None
     else Some \<lparr>ev_type = eventType,
       ev_attrs = (AttributeKeyContractAddress, acc_bech32 (we_sdk E) contractAddr)
         # filter (\<lambda>(k, v). k \<noteq> AttributeKeyContractAddress) attributes\<rparr>)"

definition ParseEvents ::
  "('x, 'm) wasm_env \<Rightarrow> addr \<Rightarrow> (string \<times> string) list \<Rightarrow> event list \<Rightarrow> event list outcome" where
  "ParseEvents E contractAddr attributes events =
    (if attributes = [] \<and> events = [] then Ok []
     else
     andThen
       (if attributes \<noteq> [] then
          (case buildEvent E EventTypeWasmPrefix contractAddr attributes of
             None \<Rightarrow> Panic
           | Some sdkEvent \<Rightarrow> Ok [sdkEvent, sdkEvent\<lparr>ev_type := EventTypeFromContract\<rparr>])
        else Ok [])
       (forEach (\<lambda>e sdkEvents.
          case buildEvent E (EventTypeWasmPrefix @ ''-'' @ ev_type e) contractAddr (ev_attrs e) of
            None \<Rightarrow> Panic
          | Some sdkEvent \<Rightarrow> Ok (sdkEvents @ [sdkEvent])) events))"

definition ParseToCoin :: "('x, 'm) wasm_env \<Rightarrow> wasm_coin \<Rightarrow> coin outcome" where
  "ParseToCoin E wasmCoin =
    (case parse_int E (snd wasmCoin) of
       None \<Rightarrow> Err ErrInvalidCoins
     | Some amount \<Rightarrow> Ok \<lparr>coin_denom = fst wasmCoin, coin_amount = amount\<rparr>)"

definition ParseToCoins :: "('x, 'm) wasm_env \<Rightarrow> wasm_coin list \<Rightarrow> coins outcome" where
  "ParseToCoins E wasmCoins = forEach (\<lambda>w cs. andThen (ParseToCoin E w) (\<lambda>c. Ok (cs @ [c]))) wasmCoins []"

text \<open>The deprecated events are skipped, which leaves an empty event in their place.\<close>

definition EncodeSdkEvents :: "event list \<Rightarrow> event list" where
  "EncodeSdkEvents events =
    map (\<lambda>ev. if ev_type ev = EventTypeFromContract then \<lparr>ev_type = '''', ev_attrs = []\<rparr> else ev) events"


section \<open>Parsing the messages of contracts\<close>

record 'm parser =
  pa_parse :: "addr \<Rightarrow> cosmos_msg \<Rightarrow> 'm sdk_msg option outcome"
  pa_custom :: "addr \<Rightarrow> bytes \<Rightarrow> 'm sdk_msg option outcome"

text \<open>\<open>return cosmosMsg, cosmosMsg.ValidateBasic()\<close>.\<close>

definition checked :: "('x, 'm) wasm_env \<Rightarrow> 'm sdk_msg \<Rightarrow> 'm sdk_msg option outcome" where
  "checked E msg =
    andThen (case msg of WasmMsg m \<Rightarrow> wasm_ValidateBasic E m | _ \<Rightarrow> module_validate E msg) (\<lambda>_. Ok (Some msg))"

definition bank_Parse :: "('x, 'm) wasm_env \<Rightarrow> addr \<Rightarrow> cosmos_msg \<Rightarrow> 'm sdk_msg option outcome" where
  "bank_Parse E contractAddr wasmMsg =
    (case cw_bank wasmMsg of None \<Rightarrow> Panic | Some msg \<Rightarrow>
     (case vb_send msg of None \<Rightarrow> Err ErrInvalidMsg | Some (to, amounts) \<Rightarrow>
      andThen (wrapErr ErrInvalidAddress (acc_of_bech32 (we_sdk E) to)) (\<lambda>toAddr.
      andThen (ParseToCoins E amounts) (\<lambda>amount.
      checked E (BankSend contractAddr toAddr amount)))))"

definition staking_Parse :: "('x, 'm) wasm_env \<Rightarrow> addr \<Rightarrow> cosmos_msg \<Rightarrow> 'm sdk_msg option outcome" where
  "staking_Parse E contractAddr wasmMsg =
    (case cw_staking wasmMsg of None \<Rightarrow> Panic | Some msg \<Rightarrow>
     (case vs_delegate msg of Some (val, amount) \<Rightarrow>
        andThen (wrapErr ErrInvalidAddress (val_of_bech32 (we_sdk E) val)) (\<lambda>validator.
        andThen (ParseToCoin E amount) (\<lambda>coin.
        checked E (StakingDelegate contractAddr validator coin)))
      | None \<Rightarrow>
     (case vs_redelegate msg of Some (s, d, amount) \<Rightarrow>
        andThen (wrapErr ErrInvalidAddress (val_of_bech32 (we_sdk E) s)) (\<lambda>src.
        andThen (wrapErr ErrInvalidAddress (val_of_bech32 (we_sdk E) d)) (\<lambda>dst.
        andThen (ParseToCoin E amount) (\<lambda>coin.
        checked E (StakingRedelegate contractAddr src dst coin))))
      | None \<Rightarrow>
     (case vs_undelegate msg of Some (val, amount) \<Rightarrow>
        andThen (wrapErr ErrInvalidAddress (val_of_bech32 (we_sdk E) val)) (\<lambda>validator.
        andThen (ParseToCoin E amount) (\<lambda>coin.
        checked E (StakingUndelegate contractAddr validator coin)))
      | None \<Rightarrow> Err ErrInvalidMsg))))"

definition distribution_Parse :: "('x, 'm) wasm_env \<Rightarrow> addr \<Rightarrow> cosmos_msg \<Rightarrow> 'm sdk_msg option outcome" where
  "distribution_Parse E contractAddr wasmMsg =
    (case cw_distribution wasmMsg of None \<Rightarrow> Panic | Some msg \<Rightarrow>
     (case vd_set_withdraw msg of Some a \<Rightarrow>
        andThen (wrapErr ErrInvalidAddress (acc_of_bech32 (we_sdk E) a)) (\<lambda>rcpt.
        checked E (DistrSetWithdraw contractAddr rcpt))
      | None \<Rightarrow>
     (case vd_withdraw msg of Some val \<Rightarrow>
        andThen (wrapErr ErrInvalidAddress (val_of_bech32 (we_sdk E) val)) (\<lambda>validator.
        checked E (DistrWithdraw contractAddr validator))
      | None \<Rightarrow> Err ErrInvalidMsg)))"

text \<open>A governance message without a vote is a nil pointer that the parser follows.\<close>

definition gov_Parse :: "('x, 'm) wasm_env \<Rightarrow> addr \<Rightarrow> cosmos_msg \<Rightarrow> 'm sdk_msg option outcome" where
  "gov_Parse E contractAddr wasmMsg =
    (case cw_gov wasmMsg of Some (Some (proposal, vote)) \<Rightarrow>
       checked E (GovVote proposal contractAddr
         (case vote of VoteYes \<Rightarrow> OptionYes | VoteNo \<Rightarrow> OptionNo | VoteNoWithVeto \<Rightarrow> OptionNoWithVeto
          | VoteAbstain \<Rightarrow> OptionAbstain | VoteUnset \<Rightarrow> OptionEmpty))
     | _ \<Rightarrow> Panic)"

definition market_Parse_custom :: "('x, 'm) wasm_env \<Rightarrow> addr \<Rightarrow> bytes \<Rightarrow> 'm sdk_msg option outcome" where
  "market_Parse_custom E contractAddr data =
    andThen (market_ParseCustom (we_sdk E) contractAddr (json_market E data)) (\<lambda>m. Ok (Some (MarketMsg m)))"

definition wasm_parse_execute :: "('x, 'm) wasm_env \<Rightarrow> addr \<Rightarrow> vm_execute_msg \<Rightarrow> 'm sdk_msg option outcome" where
  "wasm_parse_execute E contractAddr msg =
    andThen (wrapErr ErrInvalidAddress (acc_of_bech32 (we_sdk E) (vx_contract msg))) (\<lambda>dest.
    andThen (ParseToCoins E (vx_funds msg)) (\<lambda>cs.
    checked E (WasmMsg (WExecute \<lparr>me_sender = acc_bech32 (we_sdk E) contractAddr,
      me_contract = acc_bech32 (we_sdk E) dest, me_msg = vx_msg msg, me_coins = cs\<rparr>))))"

definition wasm_parse_instantiate :: "('x, 'm) wasm_env \<Rightarrow> addr \<Rightarrow> vm_instantiate_msg \<Rightarrow> 'm sdk_msg option outcome" where
  "wasm_parse_instantiate E contractAddr msg =
    andThen (ParseToCoins E (vi_funds msg)) (\<lambda>cs.
    andThen (if vi_admin msg \<noteq> '''' then acc_of_bech32 (we_sdk E) (vi_admin msg) else Ok []) (\<lambda>adminAddr.
    checked E (WasmMsg (WInstantiate \<lparr>mi_sender = acc_bech32 (we_sdk E) contractAddr,
      mi_admin = (if adminAddr \<noteq> [] then acc_bech32 (we_sdk E) adminAddr else ''''),
      mi_code_id = vi_code_id msg, mi_msg = vi_msg msg, mi_coins = cs\<rparr>))))"

definition wasm_Parse :: "('x, 'm) wasm_env \<Rightarrow> addr \<Rightarrow> cosmos_msg \<Rightarrow> 'm sdk_msg option outcome" where
  "wasm_Parse E contractAddr wasmMsg =
    (let self = acc_bech32 (we_sdk E) contractAddr in
     case cw_wasm wasmMsg of None \<Rightarrow> Panic | Some msg \<Rightarrow>
     (case vw_execute msg of Some m \<Rightarrow> wasm_parse_execute E contractAddr m
      | None \<Rightarrow>
     (case vw_instantiate msg of Some m \<Rightarrow> wasm_parse_instantiate E contractAddr m
      | None \<Rightarrow>
     (case vw_migrate msg of Some (contract, newCode, m) \<Rightarrow>
        andThen (acc_of_bech32 (we_sdk E) contract) (\<lambda>target.
        checked E (WasmMsg (WMigrate \<lparr>mm_admin = self, mm_contract = acc_bech32 (we_sdk E) target,
          mm_new_code = newCode, mm_msg = m\<rparr>)))
      | None \<Rightarrow>
     (case vw_update_admin msg of Some (contract, admin) \<Rightarrow>
        andThen (acc_of_bech32 (we_sdk E) contract) (\<lambda>target.
        andThen (acc_of_bech32 (we_sdk E) admin) (\<lambda>newAdmin.
        checked E (WasmMsg (WUpdateAdmin \<lparr>mu_admin = self, mu_new_admin = acc_bech32 (we_sdk E) newAdmin,
          mu_contract = acc_bech32 (we_sdk E) target\<rparr>))))
      | None \<Rightarrow>
     (case vw_clear_admin msg of Some contract \<Rightarrow>
        andThen (acc_of_bech32 (we_sdk E) contract) (\<lambda>target.
        checked E (WasmMsg (WClearAdmin \<lparr>mc_admin = self, mc_contract = acc_bech32 (we_sdk E) target\<rparr>)))
      | None \<Rightarrow> Err ErrInvalidMsg))))))"

text \<open>The encoded message of any type; nothing is checked of it here.\<close>

definition stargate_Parse :: "('x, 'm) wasm_env \<Rightarrow> cosmos_msg \<Rightarrow> 'm sdk_msg option outcome" where
  "stargate_Parse E wasmMsg =
    (case cw_stargate wasmMsg of None \<Rightarrow> Panic | Some (typeURL, value) \<Rightarrow>
     andThen (wrapErr ErrInvalidMsg (unpack_any E typeURL value)) (\<lambda>m. Ok (Some m)))"

definition no_custom :: "addr \<Rightarrow> bytes \<Rightarrow> 'm sdk_msg option outcome" where
  "no_custom contractAddr data = Ok None"

text \<open>The parsers the application registers.\<close>

definition app_parsers :: "('x, 'm) wasm_env \<Rightarrow> (string, 'm parser) gomap" where
  "app_parsers E =
    [(''bank'', \<lparr>pa_parse = bank_Parse E, pa_custom = no_custom\<rparr>),
     (''staking'', \<lparr>pa_parse = staking_Parse E, pa_custom = no_custom\<rparr>),
     (''market'', \<lparr>pa_parse = (\<lambda>_ _. Ok None), pa_custom = market_Parse_custom E\<rparr>),
     (''wasm'', \<lparr>pa_parse = wasm_Parse E, pa_custom = no_custom\<rparr>),
     (''distribution'', \<lparr>pa_parse = distribution_Parse E, pa_custom = no_custom\<rparr>),
     (''gov'', \<lparr>pa_parse = gov_Parse E, pa_custom = no_custom\<rparr>)]"

definition parse_route :: "(string, 'm parser) gomap \<Rightarrow> string \<Rightarrow> addr \<Rightarrow> cosmos_msg \<Rightarrow> 'm sdk_msg option outcome" where
  "parse_route parsers route contractAddr msg =
    (case map_of parsers route of
       Some p \<Rightarrow> pa_parse p contractAddr msg
     | None \<Rightarrow> Err ErrNoRegisteredParser)"

definition MsgParser_Parse ::
  "('x, 'm) wasm_env \<Rightarrow> (string, 'm parser) gomap \<Rightarrow> addr \<Rightarrow> cosmos_msg \<Rightarrow> 'm sdk_msg option outcome" where
  "MsgParser_Parse E parsers contractAddr msg =
    (case cw_bank msg of Some b \<Rightarrow>
       (if vb_burn b \<noteq> None then Err ErrNoRegisteredParser
        else parse_route parsers ''bank'' contractAddr msg)
     | None \<Rightarrow>
     case cw_custom msg of Some raw \<Rightarrow>
       andThen (wrapErr ErrJSONUnmarshal (json_custom E raw)) (\<lambda>(route, data).
       case map_of parsers route of
         Some p \<Rightarrow> pa_custom p contractAddr data
       | None \<Rightarrow> Err ErrNoRegisteredParser)
     | None \<Rightarrow>
     if cw_staking msg \<noteq> None then parse_route parsers ''staking'' contractAddr msg
     else if cw_distribution msg \<noteq> None then parse_route parsers ''distribution'' contractAddr msg
     else if cw_gov msg \<noteq> None then parse_route parsers ''gov'' contractAddr msg
     else if cw_wasm msg \<noteq> None then parse_route parsers ''wasm'' contractAddr msg
     else if cw_stargate msg \<noteq> None then stargate_Parse E msg
     else if cw_ibc msg then Err ErrNoRegisteredParser
     else Err ErrInvalidMsg)"

text \<open>What the tax computation sees of a message.\<close>

fun tx_view :: "('x, 'm) wasm_env \<Rightarrow> 'm sdk_msg \<Rightarrow> tx_msg" where
  "tx_view E (WasmMsg (WInstantiate m)) = MsgInstantiateContract (mi_coins m)"
| "tx_view E (WasmMsg (WExecute m)) = MsgExecuteContract (me_coins m)"
| "tx_view E (BankSend f t cs) = MsgSend cs"
| "tx_view E (MarketMsg (MsgSwapSend m)) = MsgSwapSendTx (mss_offer m)"
| "tx_view E (OtherMsg m) = module_view E m"
| "tx_view E _ = MsgOther"

end
