(* ===== verification/WasmKeeper.thy ===== *)
theory WasmKeeper
  imports WasmTypes
begin

text \<open>
  The keeper of \<open>src/x/wasm\<close>: its store (\<open>keeper/keeper.go\<close>), codes and contracts
  (\<open>keeper/contract.go\<close>, \<open>keeper/ioutil.go\<close>), the queries of contracts (\<open>keeper/querier.go\<close>,
  \<open>keeper/wasm_interface.go\<close>), the dispatch of their messages and replies (\<open>keeper/connector.go\<close>), the
  message server with its nested calls (\<open>keeper/msg_server.go\<close>) and the genesis (\<open>genesis.go\<close>).
\<close>

section \<open>Actions on the state of the keeper\<close>

definition onHost :: "('x host, 'a) action \<Rightarrow> ('x kstate, 'a) action" where
  "onHost f st = (case f (ks_host st) of (r, h) \<Rightarrow> (r, st\<lparr>ks_host := h\<rparr>))"

definition st_gas :: "'x kstate \<Rightarrow> gas_meter" where
  "st_gas st = h_gas (ks_host st)"

definition with_gas :: "gas_meter \<Rightarrow> 'x kstate \<Rightarrow> 'x kstate" where
  "with_gas m st = st\<lparr>ks_host := (ks_host st)\<lparr>h_gas := m\<rparr>\<rparr>"

definition st_events :: "'x kstate \<Rightarrow> event list" where
  "st_events st = h_events (ks_host st)"

definition with_events :: "event list \<Rightarrow> 'x kstate \<Rightarrow> 'x kstate" where
  "with_events es st = st\<lparr>ks_host := (ks_host st)\<lparr>h_events := es\<rparr>\<rparr>"

definition onGas :: "(gas_meter, 'a) action \<Rightarrow> ('x kstate, 'a) action" where
  "onGas f st = (case f (st_gas st) of (r, m) \<Rightarrow> (r, with_gas m st))"

text \<open>
  The SDK charges the meter for every access to an entry of the store. Writes that follow one another
  are charged entry by entry and then made together: the state a panic leaves is never kept.
\<close>

definition readK :: "('x, 'm) wasm_env \<Rightarrow> store_key \<Rightarrow> wasm_store \<Rightarrow> 'a outcome \<Rightarrow> (gas_meter, 'a) action" where
  "readK E key w r = thenDo (read_gas E key w) (\<lambda>_. lift r)"

definition readW :: "('x, 'm) wasm_env \<Rightarrow> store_key \<Rightarrow> (wasm_store \<Rightarrow> 'a outcome) \<Rightarrow> ('x kstate, 'a) action" where
  "readW E key f st = onGas (readK E key (ks_wasm st) (f (ks_wasm st))) st"

fun write_all :: "('x, 'm) wasm_env \<Rightarrow> store_key list \<Rightarrow> wasm_store \<Rightarrow> (gas_meter, unit) action" where
  "write_all E [] w = give ()"
| "write_all E (key # ks) w = thenDo (write_gas E key w) (\<lambda>_. write_all E ks w)"

definition writeW :: "('x, 'm) wasm_env \<Rightarrow> store_key list \<Rightarrow> (wasm_store \<Rightarrow> wasm_store) \<Rightarrow> ('x kstate, unit) action" where
  "writeW E ks f st =
    thenDo (onGas (write_all E ks (f (ks_wasm st)))) (\<lambda>_ s. (Ret (), s\<lparr>ks_wasm := f (ks_wasm s)\<rparr>)) st"

definition emitEvents :: "event list \<Rightarrow> ('x kstate, unit) action" where
  "emitEvents es st = (Ret (), with_events (st_events st @ es) st)"


section \<open>The store\<close>

definition GetLastCodeID :: "wasm_store \<Rightarrow> u64 outcome" where
  "GetLastCodeID w = (case ws_last_code w of None \<Rightarrow> Err ErrInvalidGenesis | Some n \<Rightarrow> Ok n)"

definition SetLastCodeID :: "u64 \<Rightarrow> wasm_store \<Rightarrow> wasm_store" where
  "SetLastCodeID n w = w\<lparr>ws_last_code := Some n\<rparr>"

definition GetLastInstanceID :: "wasm_store \<Rightarrow> u64 outcome" where
  "GetLastInstanceID w = (case ws_last_instance w of None \<Rightarrow> Err ErrInvalidGenesis | Some n \<Rightarrow> Ok n)"

definition SetLastInstanceID :: "u64 \<Rightarrow> wasm_store \<Rightarrow> wasm_store" where
  "SetLastInstanceID n w = w\<lparr>ws_last_instance := Some n\<rparr>"

definition GetCodeInfo :: "u64 \<Rightarrow> wasm_store \<Rightarrow> code_info outcome" where
  "GetCodeInfo codeID w = (case map_of (ws_codes w) codeID of None \<Rightarrow> Err ErrNotFound | Some i \<Rightarrow> Ok i)"

definition SetCodeInfo :: "u64 \<Rightarrow> code_info \<Rightarrow> wasm_store \<Rightarrow> wasm_store" where
  "SetCodeInfo codeID codeInfo w = w\<lparr>ws_codes := go_put codeID codeInfo (ws_codes w)\<rparr>"

definition GetContractInfo :: "addr \<Rightarrow> wasm_store \<Rightarrow> contract_info outcome" where
  "GetContractInfo a w = (case map_of (ws_contracts w) a of None \<Rightarrow> Err ErrNotFound | Some i \<Rightarrow> Ok i)"

definition SetContractInfo :: "addr \<Rightarrow> contract_info \<Rightarrow> wasm_store \<Rightarrow> wasm_store" where
  "SetContractInfo a info w = w\<lparr>ws_contracts := go_put a info (ws_contracts w)\<rparr>"

definition contract_store :: "addr \<Rightarrow> wasm_store \<Rightarrow> kv" where
  "contract_store a w = go_get [] (ws_stores w) a"

definition put_contract_store :: "addr \<Rightarrow> kv \<Rightarrow> wasm_store \<Rightarrow> wasm_store" where
  "put_contract_store a s w = w\<lparr>ws_stores := go_put a s (ws_stores w)\<rparr>"

definition SetContractStore :: "addr \<Rightarrow> (bytes \<times> bytes) list \<Rightarrow> wasm_store \<Rightarrow> wasm_store" where
  "SetContractStore a models w =
    put_contract_store a (fold (\<lambda>(k, v) s. go_put k v s) models (contract_store a w)) w"

definition GetByteCode :: "('x, 'm) wasm_env \<Rightarrow> u64 \<Rightarrow> wasm_store \<Rightarrow> (gas_meter, bytes) action" where
  "GetByteCode E codeID w =
    thenDo (readK E (CodeKey codeID) w (GetCodeInfo codeID w)) (\<lambda>i. lift (vm_get_code E (ci_hash i)))"

text \<open>Visiting entries until the callback asks to stop; a contract's keys come in byte order.\<close>

fun iterate :: "('e \<Rightarrow> 's \<Rightarrow> bool \<times> 's) \<Rightarrow> 'e list \<Rightarrow> 's \<Rightarrow> 's" where
  "iterate cb [] s = s"
| "iterate cb (e # es) s = (case cb e s of (stop, s') \<Rightarrow> if stop then s' else iterate cb es s')"

definition IterateContractInfo :: "(contract_info \<Rightarrow> 's \<Rightarrow> bool \<times> 's) \<Rightarrow> wasm_store \<Rightarrow> 's \<Rightarrow> 's" where
  "IterateContractInfo cb w = iterate cb (map snd (kv_iter (ws_contracts w)))"

definition kv_sorted :: "kv \<Rightarrow> kv" where
  "kv_sorted s = sort_key (\<lambda>(k, v). map unat k) s"

definition IterateContractState :: "addr \<Rightarrow> (bytes \<times> bytes \<Rightarrow> 's \<Rightarrow> bool \<times> 's) \<Rightarrow> wasm_store \<Rightarrow> 's \<Rightarrow> 's" where
  "IterateContractState a cb w = iterate cb (kv_sorted (contract_store a w))"

definition IterateContractStateWithPrefix ::
  "addr \<Rightarrow> bytes \<Rightarrow> (bytes \<times> bytes \<Rightarrow> 's \<Rightarrow> bool \<times> 's) \<Rightarrow> wasm_store \<Rightarrow> 's \<Rightarrow> 's" where
  "IterateContractStateWithPrefix a dataPrefix cb w =
    iterate cb (map (\<lambda>(k, v). (drop (length dataPrefix) k, v))
      (filter (\<lambda>(k, v). take (length dataPrefix) k = dataPrefix) (kv_sorted (contract_store a w))))"


section \<open>Storing code\<close>

text \<open>
  \<open>LimitedReader\<close> read to the end: with nothing left of the limit a further read is an error, even at the end of the stream.
\<close>

fun read_limited :: "nat \<Rightarrow> stream_read list \<Rightarrow> bytes \<Rightarrow> bytes outcome" where
  "read_limited n [] acc = (if n = 0 then Err ErrExceedMaxContractSize else Ok acc)"
| "read_limited n (r # rs) acc =
    (if n = 0 then Err ErrExceedMaxContractSize
     else case r of
       Chunk c \<Rightarrow> if n < length c then Err ErrExceedMaxContractSize else read_limited (n - length c) rs (acc @ c)
     | LastChunk c \<Rightarrow> if n < length c then Err ErrExceedMaxContractSize else Ok (acc @ c)
     | ReadError e \<Rightarrow> Err e)"

definition gzipIdent :: bytes where "gzipIdent = [31, 139, 8]"

definition uncompress :: "('x, 'm) wasm_env \<Rightarrow> bytes \<Rightarrow> u64 \<Rightarrow> bytes outcome" where
  "uncompress E src maxContractSize =
    (if length src < 3 then Ok src
     else if maxContractSize < word_of_nat (length src) then Err ErrExceedMaxContractSize
     else if gzipIdent \<noteq> take 3 src then Ok src
     else andThen (gzip_reads E src) (\<lambda>reads. read_limited (nat (sint maxContractSize)) reads []))"

definition CompileCode :: "('x, 'm) wasm_env \<Rightarrow> bytes \<Rightarrow> ('x kstate, bytes) action" where
  "CompileCode E wasmCode =
    thenDo (readW E (ParamKey ''MaxContractSize'') (\<lambda>w.
       let maxContractSize = MaxContractSize (ws_params w) in
       if maxContractSize < word_of_nat (length wasmCode) then Err ErrStoreCodeFailed
       else wrapErr ErrStoreCodeFailed (uncompress E wasmCode maxContractSize))) (\<lambda>code.
    thenDo (onGas (charge E (CompileCosts E code))) (\<lambda>_.
    lift (wrapErr ErrStoreCodeFailed (vm_create E code))))"

definition StoreCode :: "('x, 'm) wasm_env \<Rightarrow> addr \<Rightarrow> bytes \<Rightarrow> ('x kstate, u64) action" where
  "StoreCode E creator wasmCode =
    thenDo (CompileCode E wasmCode) (\<lambda>codeHash.
    thenDo (readW E LastCodeKey GetLastCodeID) (\<lambda>lastID.
    let codeID = lastID + 1 in
    thenDo (writeW E [LastCodeKey, CodeKey codeID]
       (\<lambda>w. SetCodeInfo codeID (NewCodeInfo E codeID codeHash creator) (SetLastCodeID codeID w))) (\<lambda>_.
    give codeID)))"

definition MigrateCode :: "('x, 'm) wasm_env \<Rightarrow> u64 \<Rightarrow> addr \<Rightarrow> bytes \<Rightarrow> ('x kstate, unit) action" where
  "MigrateCode E codeID creator wasmCode =
    thenDo (readW E (CodeKey codeID) (GetCodeInfo codeID)) (\<lambda>codeInfo.
    if ci_hash codeInfo \<noteq> [] \<or> ci_creator codeInfo \<noteq> acc_bech32 (we_sdk E) creator then lift (Err ErrUnauthorized)
    else
    thenDo (CompileCode E wasmCode) (\<lambda>codeHash.
    writeW E [CodeKey codeID] (SetCodeInfo codeID (codeInfo\<lparr>ci_hash := codeHash\<rparr>))))"


section \<open>Queries of contracts\<close>

definition ContractMaxQueryDepth :: "8 word" where "ContractMaxQueryDepth = 20"

definition assertAndIncreaseQueryDepth :: "wasm_ctx \<Rightarrow> wasm_ctx outcome" where
  "assertAndIncreaseQueryDepth c =
    (let queryDepth = (case ctx_depth c of Some d \<Rightarrow> d | None \<Rightarrow> 1) in
     if ContractMaxQueryDepth < queryDepth then Err ErrExceedMaxQueryDepth
     else Ok (c\<lparr>ctx_depth := Some (queryDepth + 1)\<rparr>))"

definition getContractDetails :: "('x, 'm) wasm_env \<Rightarrow> addr \<Rightarrow> wasm_store \<Rightarrow> (gas_meter, code_info \<times> kv) action" where
  "getContractDetails E a w =
    thenDo (readK E (ContractKey a) w (GetContractInfo a w)) (\<lambda>contractInfo.
    thenDo (readK E (CodeKey (co_code_id contractInfo)) w (GetCodeInfo (co_code_id contractInfo) w)) (\<lambda>codeInfo.
    give (codeInfo, contract_store a w)))"

definition queryToStore ::
  "('x, 'm) wasm_env \<Rightarrow> addr \<Rightarrow> bytes option \<Rightarrow> wasm_store \<Rightarrow> (gas_meter, bytes option) action" where
  "queryToStore E a key w =
    (case key of
       None \<Rightarrow> give None
     | Some k \<Rightarrow> readK E (ModelKey a k) w (Ok (map_of (contract_store a w) k)))"

text \<open>The querier of this module; \<open>qc\<close> stands for the query of a contract.\<close>

definition WasmQuerier_Query ::
  "('x, 'm) wasm_env \<Rightarrow> (addr \<Rightarrow> bytes \<Rightarrow> (gas_meter, bytes) action) \<Rightarrow> wasm_store \<Rightarrow> wasm_query \<Rightarrow>
    (gas_meter, bytes option) action" where
  "WasmQuerier_Query E qc w request =
    (case request of
       Smart contractAddr msg \<Rightarrow>
         thenDo (lift (wrapErr ErrInvalidAddress (acc_of_bech32 (we_sdk E) contractAddr))) (\<lambda>a.
         thenDo (qc a msg) (\<lambda>bz. give (Some bz)))
     | Raw contractAddr key \<Rightarrow>
         thenDo (lift (wrapErr ErrInvalidAddress (acc_of_bech32 (we_sdk E) contractAddr))) (\<lambda>a.
         queryToStore E a key w)
     | NoWasmQuery \<Rightarrow> lift (Err (ErrExternal ''UnsupportedRequest'')))"

definition WasmQuerier_QueryCustom ::
  "('x, 'm) wasm_env \<Rightarrow> wasm_store \<Rightarrow> bytes \<Rightarrow> (gas_meter, bytes option) action" where
  "WasmQuerier_QueryCustom E w data =
    thenDo (lift (wrapErr ErrJSONUnmarshal (json_contract_query E data))) (\<lambda>params.
    case params of
      Some a \<Rightarrow>
        thenDo (lift (acc_of_bech32 (we_sdk E) a)) (\<lambda>contractAddress.
        thenDo (readK E (ContractKey contractAddress) w (GetContractInfo contractAddress w)) (\<lambda>info.
        thenDo (lift (wrapErr ErrJSONMarshal (json_contract_info E info))) (\<lambda>bz. give (Some bz))))
    | None \<Rightarrow> lift (Err (ErrExternal ''UnsupportedRequest'')))"

definition contains_text :: "string \<Rightarrow> string \<Rightarrow> bool" where
  "contains_text s b = list_ex (\<lambda>i. take (length b) (drop i s) = b) [0..<Suc (length s)]"

definition queryBlackList :: "string list" where
  "queryBlackList = [''/cosmos.tx'', ''/cosmos.base.tendermint'']"

definition StargateWasmQuerier_Query ::
  "('x, 'm) wasm_env \<Rightarrow> wasm_ctx \<Rightarrow> 'x \<Rightarrow> string \<times> bytes \<Rightarrow> (gas_meter, bytes option) action" where
  "StargateWasmQuerier_Query E c x request =
    (if list_ex (contains_text (fst request)) queryBlackList then lift (Err (ErrExternal ''UnsupportedRequest''))
     else case stargate_query E (fst request) of
       None \<Rightarrow> lift (Err (ErrExternal ''UnsupportedRequest''))
     | Some route \<Rightarrow> route (snd request) c x)"

text \<open>Which querier answers a request.\<close>

definition route_query ::
  "('x, 'm) wasm_env \<Rightarrow> (addr \<Rightarrow> bytes \<Rightarrow> (gas_meter, bytes) action) \<Rightarrow> wasm_ctx \<Rightarrow> wasm_store \<Rightarrow> 'x \<Rightarrow>
    query_request \<Rightarrow> (gas_meter, bytes option) action" where
  "route_query E qc c w x request =
    (if qr_bank request \<noteq> None then module_query E ''bank'' request c x
     else case qr_custom request of Some raw \<Rightarrow>
       thenDo (lift (wrapErr ErrJSONUnmarshal (json_query E raw))) (\<lambda>(route, data).
       if route = ''wasm'' then WasmQuerier_QueryCustom E w data
       else case custom_query E route of
         Some querier \<Rightarrow> querier data c x
       | None \<Rightarrow> lift (Err ErrNoRegisteredQuerier))
     | None \<Rightarrow>
     if qr_staking request \<noteq> None then module_query E ''staking'' request c x
     else case qr_wasm request of Some q \<Rightarrow> WasmQuerier_Query E qc w q
     | None \<Rightarrow>
     case qr_stargate request of Some q \<Rightarrow> StargateWasmQuerier_Query E c x q
     | None \<Rightarrow>
     if qr_ibc request then lift (Err ErrNoRegisteredQuerier)
     else lift (Err (ErrExternal ''Unknown'')))"

text \<open>
  A query runs on a meter of its own, with the limit the virtual machine gives; the meter of the
  caller is charged in any case, also when the query panics.
\<close>

definition Querier_Query ::
  "('x, 'm) wasm_env \<Rightarrow> (addr \<Rightarrow> bytes \<Rightarrow> (gas_meter, bytes) action) \<Rightarrow> wasm_ctx \<Rightarrow> wasm_store \<Rightarrow> 'x \<Rightarrow>
    query_request \<Rightarrow> u64 \<Rightarrow> (gas_meter, bytes option) action" where
  "Querier_Query E qc c w x request gasLimit meter =
    (case route_query E qc c w x request (new_gas_meter E (gasLimit div GasMultiplier)) of
       (r, inner) \<Rightarrow> thenDo (consume_gas E (gm_consumed inner)) (\<lambda>_ m. (r, m)) meter)"

function queryToContract ::
  "('x, 'm) wasm_env \<Rightarrow> wasm_store \<Rightarrow> 'x \<Rightarrow> wasm_ctx \<Rightarrow> addr \<Rightarrow> bytes \<Rightarrow> gas_meter \<Rightarrow> bytes call \<times> gas_meter" where
  "queryToContract E w x c a queryMsg meter =
    thenDo (charge E (InstantiateContractCosts E (length queryMsg))) (\<lambda>_.
    thenDo (getContractDetails E a w) (\<lambda>(codeInfo, store) m.
    case assertAndIncreaseQueryDepth c of
      Err e \<Rightarrow> (Fail e, m)
    | Panic \<Rightarrow> (Crash, m)
    | Ok c' \<Rightarrow>
        thenDo (lift (getWasmVMGasRemaining E m)) (\<lambda>gasLimit m.
        case vm_query E (ci_hash codeInfo) (NewEnv E c a) queryMsg store (getCosmWasmAPI E)
               (\<lambda>s. let w' = put_contract_store a s w in
                  Querier_Query E (\<lambda>a q m. queryToContract E w' x c' a q m) c' w' x) m gasLimit of
          (r, gasUsed, _, m') \<Rightarrow>
            if r = Panic then (Crash, m')
            else
            thenDo (consumeWasmVMGas E (gasUsed + GasMultiplier)) (\<lambda>_.
            lift (wrapErr ErrContractQueryFailed r)) m') m)) meter"
  by pat_completeness auto

text \<open>How many nested queries a context still allows.\<close>

definition depth_left :: "wasm_ctx \<Rightarrow> nat" where
  "depth_left c = 21 - unat (case ctx_depth c of Some d \<Rightarrow> d | None \<Rightarrow> 1)"

lemma query_depth_decreases:
  assumes "assertAndIncreaseQueryDepth c = Ok c'" shows "depth_left c' < depth_left c"
proof -
  let ?d = "case ctx_depth c of Some d \<Rightarrow> d | None \<Rightarrow> 1"
  from assms have d: "\<not> 20 < ?d" and c': "ctx_depth c' = Some (?d + 1)"
    by (auto simp: assertAndIncreaseQueryDepth_def ContractMaxQueryDepth_def Let_def split: if_splits)
  have "unat ?d \<le> 20" using d by (simp add: word_less_nat_alt not_less)
  moreover from this have "unat (?d + 1) = unat ?d + 1" by (simp add: unat_word_ariths)
  ultimately show ?thesis using c' by (simp add: depth_left_def)
qed

termination queryToContract
  by (relation "measure (\<lambda>(E, w, x, c, a, q, m). depth_left c)") (simp_all add: query_depth_decreases)

declare queryToContract.simps [simp del]

text \<open>The query of a client, which runs on a meter of its own; every panic becomes an error.\<close>

definition querier_ContractStore ::
  "('x, 'm) wasm_env \<Rightarrow> u64 \<Rightarrow> wasm_store \<Rightarrow> 'x \<Rightarrow> wasm_ctx \<Rightarrow> string \<Rightarrow> bytes \<Rightarrow> bytes outcome" where
  "querier_ContractStore E queryGasLimit w x c contract queryMsg =
    andThen (wrapErr (ErrMsg ''InvalidArgument'') (acc_of_bech32 (we_sdk E) contract)) (\<lambda>a.
    case queryToContract E w x c a queryMsg (new_gas_meter E queryGasLimit) of
      (Ret bz, _) \<Rightarrow> Ok bz
    | (Fail e, _) \<Rightarrow> Err (ErrMsg ''Internal'')
    | (OutOfGas, _) \<Rightarrow> Err ErrOutOfGas
    | (_, _) \<Rightarrow> Err ErrPanic)"

definition querier_RawStore ::
  "('x, 'm) wasm_env \<Rightarrow> wasm_store \<Rightarrow> string \<Rightarrow> bytes option \<Rightarrow> (gas_meter, bytes option) action" where
  "querier_RawStore E w contract key =
    thenDo (lift (wrapErr (ErrMsg ''InvalidArgument'') (acc_of_bech32 (we_sdk E) contract))) (\<lambda>a.
    queryToStore E a key w)"

definition querier_ByteCode :: "('x, 'm) wasm_env \<Rightarrow> wasm_store \<Rightarrow> u64 \<Rightarrow> (gas_meter, bytes) action" where
  "querier_ByteCode E w codeID m =
    (case GetByteCode E codeID w m of
       (Ret byteCode, m') \<Rightarrow> if byteCode = [] then (Fail (ErrMsg ''NotFound''), m') else (Ret byteCode, m')
     | (Fail e, m') \<Rightarrow> (Fail (ErrMsg ''NotFound''), m')
     | other \<Rightarrow> other)"

section \<open>Running contracts\<close>

text \<open>
  One call of the virtual machine for a contract: the store and the gas meter are what it leaves
  behind; the gas it used is charged with one unit more, so that a call that used all its gas
  panics; then the events it returned are charged.
\<close>

definition run_contract ::
  "('x, 'm) wasm_env \<Rightarrow> wasm_ctx \<Rightarrow> addr \<Rightarrow> vm_response vm_run \<Rightarrow> err \<Rightarrow> ('x kstate, vm_response) action" where
  "run_contract E c a run failed st =
    thenDo (lift (getWasmVMGasRemaining E (st_gas st))) (\<lambda>gasLimit st.
    case run (contract_store a (ks_wasm st)) (getCosmWasmAPI E)
           (\<lambda>s. let w = put_contract_store a s (ks_wasm st); x = h_rest (ks_host st) in
              Querier_Query E (queryToContract E w x c) c w x)
           (st_gas st) gasLimit of
      (r, gasUsed, store', m) \<Rightarrow>
        (let st' = with_gas m (st\<lparr>ks_wasm := put_contract_store a store' (ks_wasm st)\<rparr>) in
         if r = Panic then (Crash, st')
         else
         thenDo (onGas (consumeWasmVMGas E (gasUsed + GasMultiplier))) (\<lambda>_.
         thenDo (lift (wrapErr failed r)) (\<lambda>res.
         thenDo (onGas (charge E (EventCosts E (vr_attributes res) (vr_events res)))) (\<lambda>_.
         give res))) st')) st"

definition emit_contract_events :: "('x, 'm) wasm_env \<Rightarrow> addr \<Rightarrow> vm_response \<Rightarrow> ('x kstate, unit) action" where
  "emit_contract_events E a res =
    thenDo (lift (ParseEvents E a (vr_attributes res) (vr_events res))) emitEvents"

text \<open>The data of the response, unless a reply returned some; \<open>disp\<close> dispatches the messages.\<close>

definition dispatch_response ::
  "(sub_msg list \<Rightarrow> ('x kstate, bytes option) action) \<Rightarrow> vm_response \<Rightarrow> ('x kstate, bytes option) action" where
  "dispatch_response disp res =
    thenDo (disp (vr_messages res)) (\<lambda>replyData. give (if replyData \<noteq> None then replyData else vr_data res))"

definition check_msg_size :: "('x, 'm) wasm_env \<Rightarrow> bytes \<Rightarrow> ('x kstate, unit) action" where
  "check_msg_size E msg =
    readW E (ParamKey ''MaxContractMsgSize'') (\<lambda>w. if MaxContractMsgSize (ws_params w) < word_of_nat (length msg) then Err ErrExceedMaxContractMsgSize else Ok ())"

text \<open>
  Instantiation in the order of the code: the new account and its deposit, the call, then the
  instance number and the contract's entry, and last its messages.
\<close>

definition create_contract_account ::
  "('x, 'm) wasm_env \<Rightarrow> u64 \<Rightarrow> addr \<Rightarrow> coins \<Rightarrow> ('x kstate, u64 \<times> addr \<times> code_info) action" where
  "create_contract_account E codeID creator deposit =
    thenDo (readW E LastInstanceKey GetLastInstanceID) (\<lambda>lastID.
    let instanceID = lastID + 1; a = GenerateContractAddress E codeID instanceID in
    thenDo (onHost (get_account E a)) (\<lambda>existing.
    if existing then lift (Err ErrAccountExists)
    else
    thenDo (onHost (new_account E a)) (\<lambda>_.
    thenDo (if \<not> coins_is_zero (we_sdk E) deposit then onHost (send_coins E creator a deposit) else give ()) (\<lambda>_.
    thenDo (readW E (CodeKey codeID) (GetCodeInfo codeID)) (\<lambda>codeInfo.
    give (instanceID, a, codeInfo))))))"

definition InstantiateContract ::
  "('x, 'm) wasm_env \<Rightarrow> (addr \<Rightarrow> sub_msg list \<Rightarrow> ('x kstate, bytes option) action) \<Rightarrow> wasm_ctx \<Rightarrow>
    u64 \<Rightarrow> addr \<Rightarrow> addr \<Rightarrow> bytes \<Rightarrow> coins \<Rightarrow> ('x kstate, addr \<times> bytes option) action" where
  "InstantiateContract E disp c codeID creator admin initMsg deposit =
    thenDo (onGas (consume_gas E RegisterContractCosts)) (\<lambda>_.
    thenDo (onGas (charge E (InstantiateContractCosts E (length initMsg)))) (\<lambda>_.
    thenDo (check_msg_size E initMsg) (\<lambda>_.
    thenDo (create_contract_account E codeID creator deposit) (\<lambda>(instanceID, a, codeInfo).
    thenDo (run_contract E c a
              (vm_instantiate E (ci_hash codeInfo) (NewEnv E c a) (NewInfo E creator deposit) initMsg)
              ErrInstantiateFailed) (\<lambda>res.
    thenDo (writeW E [LastInstanceKey, ContractKey a] (\<lambda>w. SetContractInfo a (NewContractInfo E codeID a creator admin initMsg)
                          (SetLastInstanceID instanceID w))) (\<lambda>_.
    thenDo (emit_contract_events E a res) (\<lambda>_.
    thenDo (dispatch_response (disp a) res) (\<lambda>data.
    give (a, data)))))))))"

definition ExecuteContract ::
  "('x, 'm) wasm_env \<Rightarrow> (addr \<Rightarrow> sub_msg list \<Rightarrow> ('x kstate, bytes option) action) \<Rightarrow> wasm_ctx \<Rightarrow>
    addr \<Rightarrow> addr \<Rightarrow> bytes \<Rightarrow> coins \<Rightarrow> ('x kstate, bytes option) action" where
  "ExecuteContract E disp c a sender execMsg cs =
    thenDo (onGas (charge E (InstantiateContractCosts E (length execMsg)))) (\<lambda>_.
    thenDo (check_msg_size E execMsg) (\<lambda>_.
    thenDo (\<lambda>st. onGas (getContractDetails E a (ks_wasm st)) st) (\<lambda>(codeInfo, _).
    thenDo (if \<not> coins_is_zero (we_sdk E) cs then onHost (send_coins E sender a cs) else give ()) (\<lambda>_.
    thenDo (run_contract E c a
              (vm_execute E (ci_hash codeInfo) (NewEnv E c a) (NewInfo E sender cs) execMsg)
              ErrExecuteFailed) (\<lambda>res.
    thenDo (emit_contract_events E a res) (\<lambda>_.
    dispatch_response (disp a) res))))))"

definition MigrateContract ::
  "('x, 'm) wasm_env \<Rightarrow> (addr \<Rightarrow> sub_msg list \<Rightarrow> ('x kstate, bytes option) action) \<Rightarrow> wasm_ctx \<Rightarrow>
    addr \<Rightarrow> addr \<Rightarrow> u64 \<Rightarrow> bytes \<Rightarrow> ('x kstate, bytes option) action" where
  "MigrateContract E disp c a sender newCodeID migrateMsg =
    thenDo (onGas (charge E (InstantiateContractCosts E (length migrateMsg)))) (\<lambda>_.
    thenDo (check_msg_size E migrateMsg) (\<lambda>_.
    thenDo (readW E (ContractKey a) (GetContractInfo a)) (\<lambda>contractInfo.
    if co_admin contractInfo = '''' then lift (Err ErrNotMigratable)
    else if co_admin contractInfo \<noteq> acc_bech32 (we_sdk E) sender then lift (Err ErrUnauthorized)
    else
    thenDo (readW E (CodeKey newCodeID) (GetCodeInfo newCodeID)) (\<lambda>newCodeInfo.
    thenDo (run_contract E c a
              (vm_migrate E (ci_hash newCodeInfo) (NewEnv E c a) migrateMsg) ErrMigrationFailed) (\<lambda>res.
    thenDo (emit_contract_events E a res) (\<lambda>_.
    thenDo (writeW E [ContractKey a] (SetContractInfo a (contractInfo\<lparr>co_code_id := newCodeID\<rparr>))) (\<lambda>_.
    dispatch_response (disp a) res)))))))"

definition reply ::
  "('x, 'm) wasm_env \<Rightarrow> (addr \<Rightarrow> sub_msg list \<Rightarrow> ('x kstate, bytes option) action) \<Rightarrow> wasm_ctx \<Rightarrow>
    addr \<Rightarrow> vm_reply \<Rightarrow> ('x kstate, bytes option) action" where
  "reply E disp c a rep =
    thenDo (onGas (charge E (ReplyCosts E rep))) (\<lambda>_.
    thenDo (\<lambda>st. onGas (getContractDetails E a (ks_wasm st)) st) (\<lambda>(codeInfo, _).
    thenDo (run_contract E c a
              (vm_reply_call E (ci_hash codeInfo) (NewEnv E c a) rep) ErrReplyFailed) (\<lambda>res.
    thenDo (emit_contract_events E a res) (\<lambda>_.
    dispatch_response (disp a) res))))"


section \<open>Messages that contracts dispatch\<close>

text \<open>The router of the application, with the handlers of the two kinds of messages.\<close>

definition handleSdkMessage ::
  "('x, 'm) wasm_env \<Rightarrow> ('m sdk_msg \<Rightarrow> ('x kstate, bytes \<times> event list) action) \<Rightarrow> addr \<Rightarrow> 'm sdk_msg \<Rightarrow>
    ('x kstate, bytes \<times> event list) action" where
  "handleSdkMessage E h contractAddr msg =
    thenDo (lift (GetSigners E msg)) (\<lambda>signers.
    if list_ex (\<lambda>acct. acct \<noteq> contractAddr) signers then lift (Err ErrUnauthorized) else h msg)"

text \<open>The tax is taken with an event manager of its own, whose events come first.\<close>

definition deduct_tax :: "('x, 'm) wasm_env \<Rightarrow> addr \<Rightarrow> coins \<Rightarrow> ('x kstate, event list) action" where
  "deduct_tax E contractAddr taxes st =
    (if coins_is_zero (we_sdk E) taxes then (Ret [], st)
     else
     case onHost (deduct_fees E contractAddr taxes) (with_events [] st) of
       (r, st') \<Rightarrow> thenDo (\<lambda>s. (r, s)) (\<lambda>_. give (st_events st')) (with_events (st_events st) st'))"

definition dispatchMessage ::
  "('x, 'm) wasm_env \<Rightarrow> ('m sdk_msg \<Rightarrow> ('x kstate, bytes \<times> event list) action) \<Rightarrow> addr \<Rightarrow> cosmos_msg \<Rightarrow>
    ('x kstate, event list \<times> bytes) action" where
  "dispatchMessage E h contractAddr msg =
    thenDo (lift (MsgParser_Parse E (app_parsers E) contractAddr msg)) (\<lambda>parsed.
    case parsed of
      None \<Rightarrow> lift (Err ErrInvalidMsg)
    | Some sdkMsg \<Rightarrow>
        (\<lambda>st.
        thenDo (lift (FilterMsgAndComputeTax (we_sdk E) (we_bond E) (tax_rate E (h_rest (ks_host st)))
                  (tax_cap E (h_rest (ks_host st))) [tx_view E sdkMsg])) (\<lambda>taxes.
        thenDo (deduct_tax E contractAddr taxes) (\<lambda>taxEvents.
        thenDo (handleSdkMessage E h contractAddr sdkMsg) (\<lambda>(data, events).
        give (taxEvents @ events, data)))) st))"

text \<open>
  With a gas limit the message runs on a meter of its own, and running out of gas is recovered from:
  the caller's meter is charged the whole limit.
\<close>

definition limited_dispatch ::
  "('x, 'm) wasm_env \<Rightarrow> ('m sdk_msg \<Rightarrow> ('x kstate, bytes \<times> event list) action) \<Rightarrow> addr \<Rightarrow> cosmos_msg \<Rightarrow> u64 \<Rightarrow>
    ('x kstate, event list \<times> bytes) action" where
  "limited_dispatch E h contractAddr msg gasLimit st =
    (case dispatchMessage E h contractAddr msg (with_gas (new_gas_meter E gasLimit) st) of
       (r, st') \<Rightarrow>
         (let back = with_gas (st_gas st) st' in
          case r of
            OutOfGas \<Rightarrow> (OutOfGas, back)
          | Crash \<Rightarrow> (Crash, back)
          | Unfinished \<Rightarrow> (Unfinished, back)
          | _ \<Rightarrow> thenDo (onGas (consume_gas E (gm_consumed (st_gas st')))) (\<lambda>_ s. (r, s)) back))"

definition dispatchMessageWithGasLimit ::
  "('x, 'm) wasm_env \<Rightarrow> ('m sdk_msg \<Rightarrow> ('x kstate, bytes \<times> event list) action) \<Rightarrow> addr \<Rightarrow> cosmos_msg \<Rightarrow> u64 \<Rightarrow>
    ('x kstate, event list \<times> bytes) action" where
  "dispatchMessageWithGasLimit E h contractAddr msg gasLimit st =
    (case limited_dispatch E h contractAddr msg gasLimit st of
       (OutOfGas, st') \<Rightarrow> thenDo (onGas (consume_gas E gasLimit)) (\<lambda>_. lift (Err ErrOutOfGas)) st'
     | other \<Rightarrow> other)"

text \<open>
  One submessage in a sandbox: its changes are kept when it succeeds and dropped when it fails,
  except for the gas. The value is what the message returned.
\<close>

definition dispatch_sub ::
  "('x, 'm) wasm_env \<Rightarrow> ('m sdk_msg \<Rightarrow> ('x kstate, bytes \<times> event list) action) \<Rightarrow> addr \<Rightarrow> sub_msg \<Rightarrow>
    ('x kstate, (event list \<times> bytes) outcome) action" where
  "dispatch_sub E h contractAddr msg st =
    (let gasRemaining = gm_limit (st_gas st) - gm_consumed (st_gas st);
         sub = with_events [] st in
     case (case sm_gas_limit msg of
             Some l \<Rightarrow> if l < gasRemaining then dispatchMessageWithGasLimit E h contractAddr (sm_msg msg) l sub
                      else dispatchMessage E h contractAddr (sm_msg msg) sub
           | None \<Rightarrow> dispatchMessage E h contractAddr (sm_msg msg) sub) of
       (Ret (events, data), st') \<Rightarrow> (Ret (Ok (events, data)), with_events (st_events st @ events) st')
     | (Fail e, st') \<Rightarrow> (Ret (Err e), with_gas (st_gas st') st)
     | (OutOfGas, st') \<Rightarrow> (OutOfGas, with_gas (st_gas st') st)
     | (Crash, st') \<Rightarrow> (Crash, with_gas (st_gas st') st)
     | (Unfinished, st') \<Rightarrow> (Unfinished, with_gas (st_gas st') st))"

definition subcall_of :: "('x, 'm) wasm_env \<Rightarrow> (event list \<times> bytes) outcome \<Rightarrow> subcall_result" where
  "subcall_of E r = (case r of
      Ok (events, data) \<Rightarrow> SubOk (EncodeSdkEvents events) data
    | Err e \<Rightarrow> SubErr (err_text E e)
    | Panic \<Rightarrow> SubErr '''')"

fun dispatchMessages ::
  "('x, 'm) wasm_env \<Rightarrow> ('m sdk_msg \<Rightarrow> ('x kstate, bytes \<times> event list) action) \<Rightarrow>
    (addr \<Rightarrow> vm_reply \<Rightarrow> ('x kstate, bytes option) action) \<Rightarrow> addr \<Rightarrow> sub_msg list \<Rightarrow> bytes option \<Rightarrow>
    ('x kstate, bytes option) action" where
  "dispatchMessages E h rep contractAddr [] respReplyData = give respReplyData"
| "dispatchMessages E h rep contractAddr (msg # msgs) respReplyData =
    (if sm_reply_on msg = ReplyUnknown then lift (Err ErrInvalidMsg)
     else
     thenDo (dispatch_sub E h contractAddr msg) (\<lambda>res.
     case res of
       Err e \<Rightarrow>
         if sm_reply_on msg = ReplySuccess \<or> sm_reply_on msg = ReplyNever then lift (Err e)
         else
         thenDo (rep contractAddr \<lparr>rp_id = sm_id msg, rp_result = subcall_of E res\<rparr>) (\<lambda>replyData.
         dispatchMessages E h rep contractAddr msgs (if replyData \<noteq> None then replyData else respReplyData))
     | _ \<Rightarrow>
         if sm_reply_on msg = ReplyNever \<or> sm_reply_on msg = ReplyError
         then dispatchMessages E h rep contractAddr msgs respReplyData
         else
         thenDo (rep contractAddr \<lparr>rp_id = sm_id msg, rp_result = subcall_of E res\<rparr>) (\<lambda>replyData.
         dispatchMessages E h rep contractAddr msgs (if replyData \<noteq> None then replyData else respReplyData))))"


section \<open>The message server\<close>

definition event_of :: "string \<Rightarrow> (string \<times> string) list \<Rightarrow> event" where
  "event_of ty attrs = \<lparr>ev_type = ty, ev_attrs = attrs\<rparr>"

definition msg_StoreCode :: "('x, 'm) wasm_env \<Rightarrow> msg_store_code \<Rightarrow> ('x kstate, wasm_response) action" where
  "msg_StoreCode E msg =
    thenDo (lift (acc_of_bech32 (we_sdk E) (sc_sender msg))) (\<lambda>senderAddr.
    thenDo (StoreCode E senderAddr (sc_code msg)) (\<lambda>codeID.
    thenDo (emitEvents
       [event_of ''store_code'' [(''sender'', sc_sender msg), (''code_id'', dec_text (unat codeID))],
        event_of ''message'' [(''module'', ''wasm'')]]) (\<lambda>_.
    give (StoreCodeResponse codeID))))"

definition msg_MigrateCode :: "('x, 'm) wasm_env \<Rightarrow> msg_migrate_code \<Rightarrow> ('x kstate, wasm_response) action" where
  "msg_MigrateCode E msg =
    thenDo (lift (acc_of_bech32 (we_sdk E) (mcd_sender msg))) (\<lambda>senderAddr.
    thenDo (MigrateCode E (mcd_code_id msg) senderAddr (mcd_code msg)) (\<lambda>_.
    thenDo (emitEvents
       [event_of ''migrate_code'' [(''sender'', mcd_sender msg), (''code_id'', dec_text (unat (mcd_code_id msg)))],
        event_of ''message'' [(''module'', ''wasm'')]]) (\<lambda>_.
    give MigrateCodeResponse)))"

text \<open>
  A contract call runs on a meter of its own, limited by the gas that remains and by the parameter;
  what it consumed is charged only when it succeeds. Its events follow those of the message.
\<close>

definition contract_gas_limit :: "u64 \<Rightarrow> gas_meter \<Rightarrow> u64" where
  "contract_gas_limit maxGas meter =
    (let remain = gm_limit meter - gm_consumed meter in if maxGas < remain then maxGas else remain)"

definition on_sub_meter ::
  "('x, 'm) wasm_env \<Rightarrow> ('x kstate, 'a) action \<Rightarrow> ('a \<Rightarrow> event list) \<Rightarrow> u64 \<Rightarrow> ('x kstate, 'a) action" where
  "on_sub_meter E body msgEvents limit st =
    (case body (with_gas (new_gas_meter E limit) (with_events [] st)) of
       (r, sub) \<Rightarrow>
         thenDo (\<lambda>s. (r, s)) (\<lambda>a.
         thenDo (onGas (consume_gas E (gm_consumed (st_gas sub)))) (\<lambda>_.
         thenDo (emitEvents (msgEvents a @ st_events sub)) (\<lambda>_.
         give a))) (with_gas (st_gas st) (with_events (st_events st) sub)))"

definition with_sub_meter ::
  "('x, 'm) wasm_env \<Rightarrow> ('x kstate, 'a) action \<Rightarrow> ('a \<Rightarrow> event list) \<Rightarrow> ('x kstate, 'a) action" where
  "with_sub_meter E body msgEvents =
    thenDo (readW E (ParamKey ''MaxContractGas'') (\<lambda>w. Ok (MaxContractGas (ws_params w)))) (\<lambda>maxGas st.
    on_sub_meter E body msgEvents (contract_gas_limit maxGas (st_gas st)) st)"

definition msg_InstantiateContract ::
  "('x, 'm) wasm_env \<Rightarrow> (addr \<Rightarrow> sub_msg list \<Rightarrow> ('x kstate, bytes option) action) \<Rightarrow> wasm_ctx \<Rightarrow> msg_instantiate \<Rightarrow>
    ('x kstate, wasm_response) action" where
  "msg_InstantiateContract E disp c msg =
    thenDo (lift (acc_of_bech32 (we_sdk E) (mi_sender msg))) (\<lambda>senderAddr.
    thenDo (lift (if mi_admin msg \<noteq> '''' then acc_of_bech32 (we_sdk E) (mi_admin msg) else Ok [])) (\<lambda>adminAddr.
    thenDo (with_sub_meter E
       (InstantiateContract E disp c (mi_code_id msg) senderAddr adminAddr (mi_msg msg) (mi_coins msg))
       (\<lambda>(a, _).
          [event_of ''instantiate_contract'' [(''creator'', mi_sender msg), (''admin'', mi_admin msg),
             (''code_id'', dec_text (unat (mi_code_id msg))), (''contract_address'', acc_bech32 (we_sdk E) a)],
           event_of ''message'' [(''module'', ''wasm''), (''sender'', mi_sender msg)]])) (\<lambda>(a, data).
    give (InstantiateResponse (acc_bech32 (we_sdk E) a) data))))"

definition msg_ExecuteContract ::
  "('x, 'm) wasm_env \<Rightarrow> (addr \<Rightarrow> sub_msg list \<Rightarrow> ('x kstate, bytes option) action) \<Rightarrow> wasm_ctx \<Rightarrow> msg_execute \<Rightarrow>
    ('x kstate, wasm_response) action" where
  "msg_ExecuteContract E disp c msg =
    thenDo (lift (acc_of_bech32 (we_sdk E) (me_contract msg))) (\<lambda>contractAddr.
    thenDo (lift (acc_of_bech32 (we_sdk E) (me_sender msg))) (\<lambda>senderAddr.
    thenDo (with_sub_meter E
       (ExecuteContract E disp c contractAddr senderAddr (me_msg msg) (me_coins msg))
       (\<lambda>_. [event_of ''execute_contract'' [(''sender'', me_sender msg), (''contract_address'', me_contract msg)],
            event_of ''message'' [(''module'', ''wasm''), (''sender'', me_sender msg)]])) (\<lambda>data.
    give (ExecuteResponse data))))"

definition msg_MigrateContract ::
  "('x, 'm) wasm_env \<Rightarrow> (addr \<Rightarrow> sub_msg list \<Rightarrow> ('x kstate, bytes option) action) \<Rightarrow> wasm_ctx \<Rightarrow> msg_migrate \<Rightarrow>
    ('x kstate, wasm_response) action" where
  "msg_MigrateContract E disp c msg =
    thenDo (lift (acc_of_bech32 (we_sdk E) (mm_contract msg))) (\<lambda>contractAddr.
    thenDo (lift (acc_of_bech32 (we_sdk E) (mm_admin msg))) (\<lambda>adminAddr.
    thenDo (with_sub_meter E
       (MigrateContract E disp c contractAddr adminAddr (mm_new_code msg) (mm_msg msg))
       (\<lambda>_. [event_of ''migrate_contract'' [(''code_id'', dec_text (unat (mm_new_code msg))), (''contract_address'', mm_contract msg)],
            event_of ''message'' [(''module'', ''wasm''), (''sender'', mm_admin msg)]])) (\<lambda>data.
    give (MigrateResponse data))))"

definition msg_UpdateContractAdmin :: "('x, 'm) wasm_env \<Rightarrow> msg_update_admin \<Rightarrow> ('x kstate, wasm_response) action" where
  "msg_UpdateContractAdmin E msg =
    thenDo (lift (acc_of_bech32 (we_sdk E) (mu_contract msg))) (\<lambda>contractAddr.
    thenDo (lift (acc_of_bech32 (we_sdk E) (mu_admin msg))) (\<lambda>_.
    thenDo (lift (acc_of_bech32 (we_sdk E) (mu_new_admin msg))) (\<lambda>_.
    thenDo (readW E (ContractKey contractAddr) (GetContractInfo contractAddr)) (\<lambda>contractInfo.
    if co_admin contractInfo \<noteq> mu_admin msg then lift (Err ErrUnauthorized)
    else
    thenDo (writeW E [ContractKey contractAddr] (SetContractInfo contractAddr (contractInfo\<lparr>co_admin := mu_new_admin msg\<rparr>))) (\<lambda>_.
    thenDo (emitEvents
       [event_of ''update_contract_admin'' [(''admin'', mu_new_admin msg), (''contract_address'', mu_contract msg)],
        event_of ''message'' [(''module'', ''wasm'')]]) (\<lambda>_.
    give UpdateAdminResponse))))))"

definition msg_ClearContractAdmin :: "('x, 'm) wasm_env \<Rightarrow> msg_clear_admin \<Rightarrow> ('x kstate, wasm_response) action" where
  "msg_ClearContractAdmin E msg =
    thenDo (lift (acc_of_bech32 (we_sdk E) (mc_contract msg))) (\<lambda>contractAddr.
    thenDo (lift (acc_of_bech32 (we_sdk E) (mc_admin msg))) (\<lambda>_.
    thenDo (readW E (ContractKey contractAddr) (GetContractInfo contractAddr)) (\<lambda>contractInfo.
    if co_admin contractInfo \<noteq> mc_admin msg then lift (Err ErrUnauthorized)
    else
    thenDo (writeW E [ContractKey contractAddr] (SetContractInfo contractAddr (contractInfo\<lparr>co_admin := ''''\<rparr>))) (\<lambda>_.
    thenDo (emitEvents
       [event_of ''clear_contract_admin'' [(''contract_address'', mc_contract msg)],
        event_of ''message'' [(''module'', ''wasm'')]]) (\<lambda>_.
    give ClearAdminResponse)))))"

fun msg_server ::
  "('x, 'm) wasm_env \<Rightarrow> (addr \<Rightarrow> sub_msg list \<Rightarrow> ('x kstate, bytes option) action) \<Rightarrow> wasm_ctx \<Rightarrow> wasm_msg \<Rightarrow>
    ('x kstate, wasm_response) action" where
  "msg_server E disp c (WStoreCode m) = msg_StoreCode E m"
| "msg_server E disp c (WMigrateCode m) = msg_MigrateCode E m"
| "msg_server E disp c (WInstantiate m) = msg_InstantiateContract E disp c m"
| "msg_server E disp c (WExecute m) = msg_ExecuteContract E disp c m"
| "msg_server E disp c (WMigrate m) = msg_MigrateContract E disp c m"
| "msg_server E disp c (WUpdateAdmin m) = msg_UpdateContractAdmin E m"
| "msg_server E disp c (WClearAdmin m) = msg_ClearContractAdmin E m"

text \<open>
  The router runs a handler with a fresh event manager and returns the encoded response with the
  events. The handler of another module is run until it ends, with the messages it routes.
\<close>

definition routed ::
  "('x, 'm) wasm_env \<Rightarrow> ('x kstate, wasm_response) action \<Rightarrow> ('x kstate, bytes \<times> event list) action" where
  "routed E handler st =
    (case handler (with_events [] st) of
       (r, st') \<Rightarrow>
         thenDo (\<lambda>s. (r, s)) (\<lambda>resp. give (marshal_response E resp, st_events st')) (with_events (st_events st) st'))"

primrec run_program ::
  "'x program \<Rightarrow> (wasm_msg \<Rightarrow> ('x kstate, bytes \<times> event list) action) \<Rightarrow> wasm_store \<Rightarrow>
    (bytes \<times> event list) call \<times> 'x kstate" where
  "run_program (Stop r h) ms w = (r, \<lparr>ks_wasm = w, ks_host = h\<rparr>)"
| "run_program (Route m h k) ms w =
    (case ms m \<lparr>ks_wasm = w, ks_host = h\<rparr> of
       (Ret a, st) \<Rightarrow> run_program (k (Ok a) (ks_host st)) ms (ks_wasm st)
     | (Fail e, st) \<Rightarrow> run_program (k (Err e) (ks_host st)) ms (ks_wasm st)
     | (OutOfGas, st) \<Rightarrow> (OutOfGas, st)
     | (Crash, st) \<Rightarrow> (Crash, st)
     | (Unfinished, st) \<Rightarrow> (Unfinished, st))"

definition route_msg ::
  "('x, 'm) wasm_env \<Rightarrow> (addr \<Rightarrow> sub_msg list \<Rightarrow> ('x kstate, bytes option) action) \<Rightarrow> wasm_ctx \<Rightarrow> 'm sdk_msg \<Rightarrow>
    ('x kstate, bytes \<times> event list) action" where
  "route_msg E disp c msg =
    (case msg of
       WasmMsg m \<Rightarrow> routed E (msg_server E disp c m)
     | _ \<Rightarrow>
       (case module_handler E c msg of
          None \<Rightarrow> lift (Err ErrUnknownRequest)
        | Some p \<Rightarrow> (\<lambda>st.
            case run_program (p (ks_host (with_events [] st))) (\<lambda>m. routed E (msg_server E disp c m)) (ks_wasm st) of
              (r, st') \<Rightarrow> (r, with_events (st_events st) st'))))"

text \<open>
  The calls nest: a message may run a contract that dispatches messages, and so may a reply. The
  number bounds the nesting; the first function routes a message, the second runs a reply.
\<close>

fun calls ::
  "('x, 'm) wasm_env \<Rightarrow> wasm_ctx \<Rightarrow> nat \<Rightarrow>
    ('m sdk_msg \<Rightarrow> ('x kstate, bytes \<times> event list) action) \<times> (addr \<Rightarrow> vm_reply \<Rightarrow> ('x kstate, bytes option) action)" where
  "calls E c 0 = (\<lambda>_ st. (Unfinished, st), \<lambda>_ _ st. (Unfinished, st))"
| "calls E c (Suc n) =
    (let disp = (\<lambda>a msgs. dispatchMessages E (fst (calls E c n)) (snd (calls E c n)) a msgs None)
     in (route_msg E disp c, reply E disp c))"

declare calls.simps [simp del]

abbreviation route :: "('x, 'm) wasm_env \<Rightarrow> wasm_ctx \<Rightarrow> nat \<Rightarrow> 'm sdk_msg \<Rightarrow> ('x kstate, bytes \<times> event list) action" where
  "route E c n \<equiv> fst (calls E c n)"

text \<open>The legacy handler keeps, of the events of type message, those of this module.\<close>

definition hasWasmModuleAttribute :: "(string \<times> string) list \<Rightarrow> bool" where
  "hasWasmModuleAttribute attrs = list_ex (\<lambda>(k, v). k = ''module'' \<and> v = ''wasm'') attrs"

definition filterMessageEvents :: "event list \<Rightarrow> event list" where
  "filterMessageEvents es = filter (\<lambda>e. \<not> (ev_type e = ''message'' \<and> \<not> hasWasmModuleAttribute (ev_attrs e))) es"

definition wasm_NewHandler ::
  "('x, 'm) wasm_env \<Rightarrow> (addr \<Rightarrow> sub_msg list \<Rightarrow> ('x kstate, bytes option) action) \<Rightarrow> wasm_ctx \<Rightarrow> wasm_msg \<Rightarrow>
    ('x kstate, bytes \<times> event list) action" where
  "wasm_NewHandler E disp c msg st =
    (case msg_server E disp c msg (with_events [] st) of
       (r, st') \<Rightarrow>
         thenDo (\<lambda>s. (r, s)) (\<lambda>resp. give (marshal_response E resp, filterMessageEvents (st_events st')))
           (with_events (st_events st) st'))"


section \<open>Genesis\<close>

record wasm_genesis =
  wg_params :: wasm_params
  wg_last_code :: u64
  wg_last_instance :: u64
  wg_codes :: "(code_info \<times> bytes) list"
  wg_contracts :: "(contract_info \<times> (bytes \<times> bytes) list) list"

definition wasm_ValidateGenesis :: "wasm_genesis \<Rightarrow> unit outcome" where
  "wasm_ValidateGenesis data =
    (if word_of_nat (length (wg_codes data)) \<noteq> wg_last_code data then Err ErrInvalidGenesis
     else if word_of_nat (length (wg_contracts data)) \<noteq> wg_last_instance data then Err ErrInvalidGenesis
     else wasm_Params_Validate (wg_params data))"

text \<open>An error of a step stops the node.\<close>

fun must :: "'a call \<times> 's \<Rightarrow> 'a call \<times> 's" where
  "must (Fail e, s) = (Crash, s)"
| "must r = r"

definition wasm_SetParams :: "('x, 'm) wasm_env \<Rightarrow> wasm_params \<Rightarrow> ('x kstate, unit) action" where
  "wasm_SetParams E p =
    thenDo (lift (mustOk (wasm_ParamSetPairs p))) (\<lambda>_.
    writeW E [ParamKey ''MaxContractSize'', ParamKey ''MaxContractGas'', ParamKey ''MaxContractMsgSize''] (\<lambda>w. w\<lparr>ws_params := p\<rparr>))"

definition init_code :: "('x, 'm) wasm_env \<Rightarrow> code_info \<times> bytes \<Rightarrow> ('x kstate, unit) action" where
  "init_code E code =
    thenDo (if snd code \<noteq> [] then
              (\<lambda>st. thenDo (\<lambda>s. must (CompileCode E (snd code) s)) (\<lambda>codeHash s.
                 if codeHash \<noteq> ci_hash (fst code) then (Crash, s) else (Ret (), s)) st)
            else give ()) (\<lambda>_.
    writeW E [CodeKey (ci_code_id (fst code))] (SetCodeInfo (ci_code_id (fst code)) (fst code)))"

definition init_contract :: "('x, 'm) wasm_env \<Rightarrow> contract_info \<times> (bytes \<times> bytes) list \<Rightarrow> ('x kstate, unit) action" where
  "init_contract E contract =
    thenDo (lift (mustOk (acc_of_bech32 (we_sdk E) (co_address (fst contract))))) (\<lambda>a.
    writeW E (ContractKey a # map (\<lambda>(k, v). ModelKey a k) (snd contract))
      (\<lambda>w. SetContractStore a (snd contract) (SetContractInfo a (fst contract) w)))"

fun each :: "('e \<Rightarrow> ('s, unit) action) \<Rightarrow> 'e list \<Rightarrow> ('s, unit) action" where
  "each f [] = give ()"
| "each f (e # es) = thenDo (f e) (\<lambda>_. each f es)"

definition wasm_InitGenesis :: "('x, 'm) wasm_env \<Rightarrow> wasm_genesis \<Rightarrow> ('x kstate, unit) action" where
  "wasm_InitGenesis E data =
    thenDo (wasm_SetParams E (wg_params data)) (\<lambda>_.
    thenDo (writeW E [LastCodeKey, LastInstanceKey] (\<lambda>w. SetLastInstanceID (wg_last_instance data) (SetLastCodeID (wg_last_code data) w))) (\<lambda>_.
    thenDo (each (init_code E) (wg_codes data)) (\<lambda>_.
    each (init_contract E) (wg_contracts data))))"

text \<open>The export leaves the codes and the stores of the contracts out.\<close>

definition wasm_ExportGenesis :: "wasm_store \<Rightarrow> wasm_genesis outcome" where
  "wasm_ExportGenesis w =
    andThen (mustOk (GetLastCodeID w)) (\<lambda>lastCodeID.
    andThen (mustOk (GetLastInstanceID w)) (\<lambda>lastInstanceID.
    Ok \<lparr>wg_params = ws_params w, wg_last_code = lastCodeID, wg_last_instance = lastInstanceID, wg_codes = [],
        wg_contracts = IterateContractInfo (\<lambda>info cs. (False, cs @ [(info, [])])) w []\<rparr>))"

end
