(* ===== verification/WasmSound.thy ===== *)
theory WasmSound
  imports WasmKeeper
begin

text \<open>
  What \<open>src/x/wasm\<close> relies on, as laws of the code it calls, and the abstract registry it implements.
  The lemmas follow the code bottom-up: every operation, run from a state in which each contract has
  an account, changes the registry only by its steps, gives no gas back and, when it returns, stays
  within the gas limit. The relation \<open>sound\<close> composes over \<open>thenDo\<close>, so that each operation's proof
  follows its text. \<open>calls_sound\<close> closes the recursion of contracts that call contracts.
\<close>

section \<open>What the module relies on\<close>

text \<open>How meters grow, and what an exceeded one is.\<close>

definition meter_le :: "gas_meter \<Rightarrow> gas_meter \<Rightarrow> bool" where
  "meter_le m m' \<longleftrightarrow> gm_limit m' = gm_limit m \<and> gm_infinite m' = gm_infinite m \<and> gm_consumed m \<le> gm_consumed m'"

definition within :: "gas_meter \<Rightarrow> bool" where
  "within m \<longleftrightarrow> gm_infinite m \<or> gm_consumed m \<le> gm_limit m"

fun returns :: "'a call \<Rightarrow> bool" where
  "returns (Ret a) = True"
| "returns (Fail e) = True"
| "returns _ = False"

text \<open>An action on a meter that never gives gas back and panics when it exceeds the limit.\<close>

definition meter_ok :: "(gas_meter, 'a) action \<Rightarrow> bool" where
  "meter_ok f \<longleftrightarrow> (\<forall>m r m'. f m = (r, m') \<longrightarrow> meter_le m m' \<and> r \<noteq> Unfinished
     \<and> (returns r \<longrightarrow> within m \<longrightarrow> within m'))"

definition access_ok :: "(gas_meter, unit) action \<Rightarrow> bool" where
  "access_ok f \<longleftrightarrow> meter_ok f \<and> (\<forall>m e m'. f m \<noteq> (Fail e, m'))"

text \<open>
  The SDK's gas meter as documented: consuming adds to the meter, an overflow of 64 bits is a panic,
  and so is exceeding the limit, which leaves the amount on the meter. The access to an entry of the
  store is charged on the meter and nothing else.
\<close>

definition gas_laws :: "('x, 'm) wasm_env \<Rightarrow> bool" where
  "gas_laws E \<longleftrightarrow>
    (\<forall>l. new_gas_meter E l = \<lparr>gm_limit = l, gm_consumed = 0, gm_infinite = False\<rparr>)
    \<and> (\<forall>a m. consume_gas E a m =
        (if 2 ^ 64 \<le> unat (gm_consumed m) + unat a then (Crash, m\<lparr>gm_consumed := - 1\<rparr>)
         else if \<not> gm_infinite m \<and> gm_limit m < gm_consumed m + a
         then (OutOfGas, m\<lparr>gm_consumed := gm_consumed m + a\<rparr>)
         else (Ret (), m\<lparr>gm_consumed := gm_consumed m + a\<rparr>)))
    \<and> (\<forall>m. is_out_of_gas E m \<longleftrightarrow> \<not> gm_infinite m \<and> gm_limit m \<le> gm_consumed m)
    \<and> (\<forall>k w. access_ok (read_gas E k w) \<and> access_ok (write_gas E k w))"

text \<open>\<open>sdk.Uint\<close> computes exactly below 256 bits and panics above; \<open>Uint64\<close> panics above 64 bits.\<close>

definition uint_laws :: "('x, 'm) wasm_env \<Rightarrow> bool" where
  "uint_laws E \<longleftrightarrow>
    (\<forall>a b. uint_add E a b = (if 0 \<le> a + b \<and> a + b < 2 ^ 256 then Ok (a + b) else Panic))
    \<and> (\<forall>a b. uint_mul E a b = (if 0 \<le> a * b \<and> a * b < 2 ^ 256 then Ok (a * b) else Panic))
    \<and> (\<forall>a. uint_uint64 E a = (if 0 \<le> a \<and> a < 2 ^ 64 then Ok (word_of_int a) else Panic))"

text \<open>
  A keeper or handler outside the module never gives gas back, panics when it exceeds the limit, and
  never removes an account; \<open>acct\<close> tells which addresses have an account.
\<close>

definition host_le :: "('x \<Rightarrow> addr \<Rightarrow> bool) \<Rightarrow> 'x host \<Rightarrow> 'x host \<Rightarrow> bool" where
  "host_le acct h h' \<longleftrightarrow> meter_le (h_gas h) (h_gas h') \<and> (\<forall>a. acct (h_rest h) a \<longrightarrow> acct (h_rest h') a)"

definition host_ok :: "('x \<Rightarrow> addr \<Rightarrow> bool) \<Rightarrow> ('x host, 'a) action \<Rightarrow> bool" where
  "host_ok acct f \<longleftrightarrow> (\<forall>h r h'. f h = (r, h') \<longrightarrow>
     host_le acct h h' \<and> r \<noteq> Unfinished \<and> (returns r \<longrightarrow> within (h_gas h) \<longrightarrow> within (h_gas h')))"

primrec program_ok :: "('x \<Rightarrow> addr \<Rightarrow> bool) \<Rightarrow> 'x program \<Rightarrow> 'x host \<Rightarrow> bool" where
  "program_ok acct (Stop r h) h0 \<longleftrightarrow>
    host_le acct h0 h \<and> r \<noteq> Unfinished \<and> (returns r \<longrightarrow> within (h_gas h0) \<longrightarrow> within (h_gas h))"
| "program_ok acct (Route m h k) h0 \<longleftrightarrow>
    host_le acct h0 h \<and> (within (h_gas h0) \<longrightarrow> within (h_gas h)) \<and> (\<forall>r h'. host_le acct h h' \<longrightarrow> program_ok acct (k r h') h')"

definition host_laws :: "('x \<Rightarrow> addr \<Rightarrow> bool) \<Rightarrow> ('x, 'm) wasm_env \<Rightarrow> bool" where
  "host_laws acct E \<longleftrightarrow>
    (\<forall>a. host_ok acct (get_account E a))
    \<and> (\<forall>a h b h'. get_account E a h = (Ret b, h') \<longrightarrow> b = acct (h_rest h) a)
    \<and> (\<forall>a. host_ok acct (new_account E a))
    \<and> (\<forall>a h h'. new_account E a h = (Ret (), h') \<longrightarrow> acct (h_rest h') a)
    \<and> (\<forall>f t cs. host_ok acct (send_coins E f t cs))
    \<and> (\<forall>a cs. host_ok acct (deduct_fees E a cs))
    \<and> (\<forall>c msg p h. module_handler E c msg = Some p \<longrightarrow> program_ok acct (p h) h)"

text \<open>The virtual machine charges the meter it is given, through the store and the querier, and nothing else.\<close>

definition vm_ok :: "'r vm_run \<Rightarrow> bool" where
  "vm_ok run \<longleftrightarrow> (\<forall>s api q m l r g s' m'.
     (\<forall>s req gl m. meter_le m (snd (q s req gl m))) \<longrightarrow> run s api q m l = (r, g, s', m') \<longrightarrow> meter_le m m')"

definition vm_laws :: "('x, 'm) wasm_env \<Rightarrow> bool" where
  "vm_laws E \<longleftrightarrow>
    (\<forall>hash env info msg. vm_ok (vm_instantiate E hash env info msg))
    \<and> (\<forall>hash env info msg. vm_ok (vm_execute E hash env info msg))
    \<and> (\<forall>hash env msg. vm_ok (vm_migrate E hash env msg))
    \<and> (\<forall>hash env rep. vm_ok (vm_reply_call E hash env rep))"

text \<open>No text but a printed address is read as an address; in particular not the empty text.\<close>

definition no_empty_addr :: "sdk \<Rightarrow> bool" where
  "no_empty_addr S \<longleftrightarrow> (\<forall>a. acc_of_bech32 S '''' \<noteq> Ok a)"

text \<open>The messages of the SDK's modules are signed by the account they are made for.\<close>

definition signer_laws :: "('x, 'm) wasm_env \<Rightarrow> bool" where
  "signer_laws E \<longleftrightarrow>
    (\<forall>f t cs. module_signers E (BankSend f t cs) = Ok [f])
    \<and> (\<forall>a v c. module_signers E (StakingDelegate a v c) = Ok [a])
    \<and> (\<forall>a s d c. module_signers E (StakingRedelegate a s d c) = Ok [a])
    \<and> (\<forall>a v c. module_signers E (StakingUndelegate a v c) = Ok [a])
    \<and> (\<forall>a r. module_signers E (DistrSetWithdraw a r) = Ok [a])
    \<and> (\<forall>a v. module_signers E (DistrWithdraw a v) = Ok [a])
    \<and> (\<forall>p a v. module_signers E (GovVote p a v) = Ok [a])"

definition wasm_laws :: "('x \<Rightarrow> addr \<Rightarrow> bool) \<Rightarrow> ('x, 'm) wasm_env \<Rightarrow> bool" where
  "wasm_laws acct E \<longleftrightarrow> gas_laws E \<and> uint_laws E \<and> host_laws acct E \<and> vm_laws E
    \<and> addr_laws (we_sdk E) \<and> no_empty_addr (we_sdk E)"


section \<open>The registry a chain of contracts implements\<close>

text \<open>
  The contract of the module, without virtual machine, gas or messages: codes are only added, or
  filled in once by their creator; a contract is created at a free address and changes only by its
  admin.
\<close>

record registry =
  rg_last_code :: "u64 option"
  rg_codes :: "u64 \<rightharpoonup> code_info"
  rg_contracts :: "addr \<rightharpoonup> contract_info"

definition registry_of :: "wasm_store \<Rightarrow> registry" where
  "registry_of w =
    \<lparr>rg_last_code = ws_last_code w, rg_codes = map_of (ws_codes w), rg_contracts = map_of (ws_contracts w)\<rparr>"

datatype registry_event =
    Uploaded u64
  | Recompiled u64 string
  | Created addr
  | Migrated addr u64 string
  | AdminChanged addr string string
  | AdminCleared addr string

inductive registry_step :: "registry \<Rightarrow> registry_event \<Rightarrow> registry \<Rightarrow> bool" where
  upload: "rg_last_code s = Some n \<Longrightarrow> ci_code_id i = n + 1 \<Longrightarrow>
    registry_step s (Uploaded (n + 1))
      (s\<lparr>rg_last_code := Some (n + 1), rg_codes := (rg_codes s)(n + 1 \<mapsto> i)\<rparr>)"
| recompile: "rg_codes s k = Some i \<Longrightarrow> ci_hash i = [] \<Longrightarrow>
    registry_step s (Recompiled k (ci_creator i)) (s\<lparr>rg_codes := (rg_codes s)(k \<mapsto> i\<lparr>ci_hash := hash\<rparr>)\<rparr>)"
| create: "rg_contracts s a = None \<Longrightarrow> rg_codes s (co_code_id i) \<noteq> None \<Longrightarrow>
    registry_step s (Created a) (s\<lparr>rg_contracts := (rg_contracts s)(a \<mapsto> i)\<rparr>)"
| migrate: "rg_contracts s a = Some i \<Longrightarrow> co_admin i \<noteq> '''' \<Longrightarrow> rg_codes s k \<noteq> None \<Longrightarrow>
    registry_step s (Migrated a k (co_admin i))
      (s\<lparr>rg_contracts := (rg_contracts s)(a \<mapsto> i\<lparr>co_code_id := k\<rparr>)\<rparr>)"
| change_admin: "rg_contracts s a = Some i \<Longrightarrow> co_admin i \<noteq> '''' \<Longrightarrow> new \<noteq> '''' \<Longrightarrow>
    registry_step s (AdminChanged a new (co_admin i))
      (s\<lparr>rg_contracts := (rg_contracts s)(a \<mapsto> i\<lparr>co_admin := new\<rparr>)\<rparr>)"
| clear_admin: "rg_contracts s a = Some i \<Longrightarrow> co_admin i \<noteq> '''' \<Longrightarrow>
    registry_step s (AdminCleared a (co_admin i))
      (s\<lparr>rg_contracts := (rg_contracts s)(a \<mapsto> i\<lparr>co_admin := ''''\<rparr>)\<rparr>)"

inductive registry_run :: "registry \<Rightarrow> registry_event list \<Rightarrow> registry \<Rightarrow> bool" where
  none: "registry_run s [] s"
| one: "registry_run s es s' \<Longrightarrow> registry_step s' e s'' \<Longrightarrow> registry_run s (es @ [e]) s''"

lemma registry_run_append:
  "registry_run s' es' s'' \<Longrightarrow> registry_run s es s' \<Longrightarrow> registry_run s (es @ es') s''"
proof (induction rule: registry_run.induct)
  case (one t es' t' e t'')
  from registry_run.one [OF one.IH [OF one.prems] one.hyps(2)] show ?case by simp
qed simp

lemma registry_run_step: "registry_step s e s' \<Longrightarrow> registry_run s [e] s'"
  using registry_run.one [OF registry_run.none] by fastforce

text \<open>Every contract has an account: what makes the address of a new contract free.\<close>

definition accounted :: "('x \<Rightarrow> addr \<Rightarrow> bool) \<Rightarrow> wasm_store \<Rightarrow> 'x \<Rightarrow> bool" where
  "accounted acct w x \<longleftrightarrow> (\<forall>a. map_of (ws_contracts w) a \<noteq> None \<longrightarrow> acct x a)"

text \<open>From an accounted state to an accounted state by steps of the registry.\<close>

definition implements :: "('x \<Rightarrow> addr \<Rightarrow> bool) \<Rightarrow> wasm_store \<Rightarrow> 'x \<Rightarrow> wasm_store \<Rightarrow> 'x \<Rightarrow> bool" where
  "implements acct w x w' x' \<longleftrightarrow> ws_params w' = ws_params w \<and> (\<forall>a. acct x a \<longrightarrow> acct x' a)
    \<and> accounted acct w' x' \<and> (\<exists>es. registry_run (registry_of w) es (registry_of w'))"

lemma implements_trans:
  assumes "implements acct w x w' x'" "implements acct w' x' w'' x''"
  shows "implements acct w x w'' x''"
  using assms unfolding implements_def by (metis registry_run_append)

lemma accounted_registry: "accounted acct w x \<longleftrightarrow> (\<forall>a. rg_contracts (registry_of w) a \<noteq> None \<longrightarrow> acct x a)"
  by (simp add: accounted_def registry_of_def)

lemma implements_rest:
  assumes "accounted acct w x" "\<And>a. acct x a \<Longrightarrow> acct x' a" "registry_of w' = registry_of w" "ws_params w' = ws_params w"
  shows "implements acct w x w' x'"
  using assms registry_run.none unfolding implements_def accounted_registry by metis

lemma implements_step:
  assumes "registry_step (registry_of w) e (registry_of w')" "ws_params w' = ws_params w" "accounted acct w' x"
  shows "implements acct w x w' x"
  using assms registry_run_step unfolding implements_def by metis

section \<open>Sound actions\<close>

text \<open>A finite meter on which fewer than \<open>n\<close> nested contract calls fit.\<close>

definition fits :: "nat \<Rightarrow> gas_meter \<Rightarrow> bool" where
  "fits n m \<longleftrightarrow> \<not> gm_infinite m \<and> gm_consumed m \<le> gm_limit m
    \<and> unat (gm_limit m) - unat (gm_consumed m) < 40000 * n"

text \<open>
  What holds of every action of the module on an accounted state: it implements the registry, never gives gas back, does
  not return with an exceeded meter, and does not nest too deep on a meter that fits.
\<close>

definition ok_result :: "('x \<Rightarrow> addr \<Rightarrow> bool) \<Rightarrow> nat \<Rightarrow> 'x kstate \<Rightarrow> 'a call \<Rightarrow> 'x kstate \<Rightarrow> bool" where
  "ok_result acct n st r st' \<longleftrightarrow>
     implements acct (ks_wasm st) (h_rest (ks_host st)) (ks_wasm st') (h_rest (ks_host st'))
     \<and> meter_le (st_gas st) (st_gas st')
     \<and> (returns r \<longrightarrow> within (st_gas st) \<longrightarrow> within (st_gas st'))
     \<and> (r = Unfinished \<longrightarrow> \<not> fits n (st_gas st))"

definition sound_at :: "('x \<Rightarrow> addr \<Rightarrow> bool) \<Rightarrow> nat \<Rightarrow> ('x kstate, 'a) action \<Rightarrow> 'x kstate \<Rightarrow> bool" where
  "sound_at acct n f st \<longleftrightarrow> (accounted acct (ks_wasm st) (h_rest (ks_host st)) \<longrightarrow>
     (\<forall>r st'. f st = (r, st') \<longrightarrow> ok_result acct n st r st'))"

definition sound :: "('x \<Rightarrow> addr \<Rightarrow> bool) \<Rightarrow> nat \<Rightarrow> ('x kstate, 'a) action \<Rightarrow> bool" where
  "sound acct n f \<longleftrightarrow> (\<forall>st. sound_at acct n f st)"

text \<open>An action that leaves codes and contracts alone.\<close>

definition quiet :: "('x kstate, 'a) action \<Rightarrow> bool" where
  "quiet f \<longleftrightarrow> (\<forall>st r st'. f st = (r, st') \<longrightarrow> registry_of (ks_wasm st') = registry_of (ks_wasm st))"

lemma soundI: "(\<And>st. sound_at acct n f st) \<Longrightarrow> sound acct n f"
  by (simp add: sound_def)

lemma sound_atD: "sound acct n f \<Longrightarrow> sound_at acct n f st"
  by (simp add: sound_def)

lemma meter_le_refl [simp]: "meter_le m m"
  by (simp add: meter_le_def)

lemma meter_le_trans: "meter_le m m' \<Longrightarrow> meter_le m' m'' \<Longrightarrow> meter_le m m''"
  by (auto simp: meter_le_def)

lemma implements_refl [simp]: "accounted acct w x \<Longrightarrow> implements acct w x w x"
  by (rule implements_rest) simp_all

lemma implements_accounted: "implements acct w x w' x' \<Longrightarrow> accounted acct w' x'"
  by (simp add: implements_def)

lemma host_le_refl [simp]: "host_le acct h h"
  by (simp add: host_le_def)

lemma fits_within: "fits n m \<Longrightarrow> within m"
  by (simp add: fits_def within_def)

lemma fits_later:
  assumes "fits n m" "meter_le m m'" "within m'" shows "fits n m'"
proof -
  have "unat (gm_consumed m) \<le> unat (gm_consumed m')"
    using assms(2) by (simp add: meter_le_def word_le_nat_alt)
  with assms show ?thesis unfolding fits_def meter_le_def within_def by auto
qed

lemma fits_weaken: "fits n m \<Longrightarrow> fits (Suc n) m"
  by (simp add: fits_def)

lemma ok_result_trans:
  assumes "ok_result acct n st (Ret a) s1" "ok_result acct n s1 r st'" shows "ok_result acct n st r st'"
  using assms implements_trans meter_le_trans fits_later fits_within unfolding ok_result_def
  by (metis returns.simps(1))

lemma sound_at_thenDo:
  assumes f: "sound_at acct n f st"
    and g: "\<And>a st'. accounted acct (ks_wasm st) (h_rest (ks_host st)) \<Longrightarrow> f st = (Ret a, st') \<Longrightarrow>
      sound_at acct n (g a) st'"
  shows "sound_at acct n (thenDo f g) st"
  unfolding sound_at_def
proof (intro allI impI)
  fix r st' assume ac: "accounted acct (ks_wasm st) (h_rest (ks_host st))" and "thenDo f g st = (r, st')"
  from this(2) show "ok_result acct n st r st'"
  proof (cases rule: thenDo_cases)
    case (ret a s1)
    with f ac have 1: "ok_result acct n st (Ret a) s1" by (simp add: sound_at_def)
    then have "accounted acct (ks_wasm s1) (h_rest (ks_host s1))" unfolding ok_result_def by (blast intro: implements_accounted)
    with g [OF ac ret(1)] ret(2) have "ok_result acct n s1 r st'" by (simp add: sound_at_def)
    with 1 show ?thesis by (rule ok_result_trans)
  qed (use f ac in \<open>auto simp: sound_at_def ok_result_def\<close>)
qed

lemma sound_thenDo: "sound acct n f \<Longrightarrow> (\<And>a. sound acct n (g a)) \<Longrightarrow> sound acct n (thenDo f g)"
  unfolding sound_def by (blast intro: sound_at_thenDo)

lemma quiet_thenDo: "quiet f \<Longrightarrow> (\<And>a. quiet (g a)) \<Longrightarrow> quiet (thenDo f g)"
  unfolding quiet_def
proof (intro allI impI)
  fix st r st'
  assume q: "\<forall>st r st'. f st = (r, st') \<longrightarrow> registry_of (ks_wasm st') = registry_of (ks_wasm st)"
    "\<And>a. \<forall>st r st'. g a st = (r, st') \<longrightarrow> registry_of (ks_wasm st') = registry_of (ks_wasm st)"
    and "thenDo f g st = (r, st')"
  from this(3) show "registry_of (ks_wasm st') = registry_of (ks_wasm st)"
    by (cases rule: thenDo_cases) (use q in \<open>force+\<close>)
qed

lemma quietD: "quiet f \<Longrightarrow> f st = (r, st') \<Longrightarrow> registry_of (ks_wasm st') = registry_of (ks_wasm st)"
  by (simp add: quiet_def)

lemma sound_lift [simp, intro]: "sound acct n (lift r)"
  by (cases r) (auto simp: sound_def sound_at_def ok_result_def)

lemma quiet_lift [simp, intro]: "quiet (lift r)"
  by (cases r) (auto simp: quiet_def)

lemma sound_give [simp, intro]: "sound acct n (give a)"
  by (auto simp: sound_def sound_at_def ok_result_def give_def)

lemma quiet_give [simp, intro]: "quiet (give a)"
  by (auto simp: quiet_def give_def)

lemma sel_simps [simp]:
  "st_gas (with_gas m st) = m" "ks_wasm (with_gas m st) = ks_wasm st"
  "h_rest (ks_host (with_gas m st)) = h_rest (ks_host st)" "st_events (with_gas m st) = st_events st"
  "st_gas (with_events es st) = st_gas st" "ks_wasm (with_events es st) = ks_wasm st"
  "h_rest (ks_host (with_events es st)) = h_rest (ks_host st)" "st_events (with_events es st) = es"
  "st_gas (st\<lparr>ks_wasm := w\<rparr>) = st_gas st" "st_events (st\<lparr>ks_wasm := w\<rparr>) = st_events st"
  by (simp_all add: with_gas_def with_events_def st_gas_def st_events_def)

lemma sound_emit [simp, intro]: "sound acct n (emitEvents es)"
  by (auto simp: sound_def sound_at_def ok_result_def emitEvents_def)

lemma quiet_emit [simp, intro]: "quiet (emitEvents es)"
  by (auto simp: quiet_def emitEvents_def)

lemma sound_onHost [intro]: "host_ok acct f \<Longrightarrow> sound acct n (onHost f)"
  unfolding sound_def sound_at_def ok_result_def onHost_def host_ok_def host_le_def st_gas_def
  by (auto intro!: implements_rest split: prod.splits)

lemma quiet_onHost [simp, intro]: "quiet (onHost f)"
  by (auto simp: quiet_def onHost_def split: prod.splits)

lemma quiet_onGas [simp, intro]: "quiet (onGas f)"
  by (auto simp: quiet_def onGas_def split: prod.splits)

text \<open>Charging the meter.\<close>

lemma consume_gasD:
  assumes "gas_laws E" "consume_gas E a m = (r, m')"
  shows "meter_le m m'" "r = Ret () \<or> r = OutOfGas \<or> r = Crash" "returns r \<Longrightarrow> within m'"
    "r = Ret () \<Longrightarrow> unat (gm_consumed m') = unat (gm_consumed m) + unat a"
proof -
  have c: "consume_gas E a m =
        (if 2 ^ 64 \<le> unat (gm_consumed m) + unat a then (Crash, m\<lparr>gm_consumed := - 1\<rparr>)
         else if \<not> gm_infinite m \<and> gm_limit m < gm_consumed m + a
         then (OutOfGas, m\<lparr>gm_consumed := gm_consumed m + a\<rparr>)
         else (Ret (), m\<lparr>gm_consumed := gm_consumed m + a\<rparr>))"
    using assms(1) unfolding gas_laws_def by blast
  have s: "unat (gm_consumed m + a) = unat (gm_consumed m) + unat a" if "\<not> 2 ^ 64 \<le> unat (gm_consumed m) + unat a"
    using that by (simp add: unat_word_ariths)
  show "meter_le m m'"
    using c assms(2) s by (auto simp: meter_le_def word_le_nat_alt max_word_max [unfolded word_le_nat_alt] split: if_splits)
  show "r = Ret () \<or> r = OutOfGas \<or> r = Crash"
    using c assms(2) by (auto split: if_splits)
  show "returns r \<Longrightarrow> within m'"
    using c assms(2) by (auto simp: within_def not_less split: if_splits)
  show "r = Ret () \<Longrightarrow> unat (gm_consumed m') = unat (gm_consumed m) + unat a"
    using c assms(2) s by (auto split: if_splits)
qed

lemma charge_cases:
  assumes "charge E cost m = (r, m')"
  obtains (panic) "cost = Panic" "r = Crash" "m' = m" | (err) e where "cost = Err e" "r = Fail e" "m' = m"
    | (ok) g where "cost = Ok g" "consume_gas E g m = (r, m')"
  using assms unfolding charge_def thenDo_def
  by (cases cost) (auto split: prod.splits call.splits)

lemma sound_onGas: "meter_ok f \<Longrightarrow> sound acct n (onGas f)"
  unfolding sound_def sound_at_def ok_result_def onGas_def meter_ok_def by (auto split: prod.splits)

lemma meter_ok_consume: "gas_laws E \<Longrightarrow> meter_ok (consume_gas E a)"
  unfolding meter_ok_def using consume_gasD by blast

lemma meter_ok_charge: "gas_laws E \<Longrightarrow> meter_ok (charge E cost)"
  unfolding meter_ok_def
proof (intro allI impI)
  fix m r m' assume g: "gas_laws E" and "charge E cost m = (r, m')"
  from this(2) show "meter_le m m' \<and> r \<noteq> Unfinished \<and> (returns r \<longrightarrow> within m \<longrightarrow> within m')"
  proof (cases rule: charge_cases)
    case (ok x)
    then show ?thesis using consume_gasD(1-3) [OF g ok(2)] by auto
  qed auto
qed

text \<open>Access to the store.\<close>

lemma access_okD:
  assumes "gas_laws E"
  shows "meter_ok (read_gas E k w)" "meter_ok (write_gas E k w)"
    "read_gas E k w m \<noteq> (Fail e, m')" "write_gas E k w m \<noteq> (Fail e, m')"
  using assms unfolding gas_laws_def access_ok_def by blast+

lemma meter_ok_thenDo: "meter_ok f \<Longrightarrow> (\<And>a. meter_ok (g a)) \<Longrightarrow> meter_ok (thenDo f g)"
  unfolding meter_ok_def
proof (intro allI impI)
  fix m r m'
  assume f: "\<forall>m r m'. f m = (r, m') \<longrightarrow> meter_le m m' \<and> r \<noteq> Unfinished \<and> (returns r \<longrightarrow> within m \<longrightarrow> within m')"
    and g: "\<And>a. \<forall>m r m'. g a m = (r, m') \<longrightarrow> meter_le m m' \<and> r \<noteq> Unfinished \<and> (returns r \<longrightarrow> within m \<longrightarrow> within m')"
    and "thenDo f g m = (r, m')"
  from this(3) show "meter_le m m' \<and> r \<noteq> Unfinished \<and> (returns r \<longrightarrow> within m \<longrightarrow> within m')"
  proof (cases rule: thenDo_cases)
    case (ret a m1)
    with f have 1: "meter_le m m1" "within m \<longrightarrow> within m1" by fastforce+
    from g ret(2) have "meter_le m1 m' \<and> r \<noteq> Unfinished \<and> (returns r \<longrightarrow> within m1 \<longrightarrow> within m')" by blast
    with 1 show ?thesis by (blast intro: meter_le_trans)
  qed (use f in fastforce)+
qed

lemma meter_ok_lift: "meter_ok (lift r)"
  by (cases r) (auto simp: meter_ok_def)

lemma meter_ok_give: "meter_ok (give a)"
  by (auto simp: meter_ok_def give_def)

lemma meter_ok_readK: "gas_laws E \<Longrightarrow> meter_ok (readK E k w r)"
  unfolding readK_def by (intro meter_ok_thenDo access_okD meter_ok_lift)

lemma meter_ok_details: "gas_laws E \<Longrightarrow> meter_ok (getContractDetails E a w)"
  unfolding getContractDetails_def by (intro meter_ok_thenDo meter_ok_readK meter_ok_give)

lemma meter_ok_write_all: "gas_laws E \<Longrightarrow> meter_ok (write_all E ks w)"
  by (induction ks) (auto intro!: meter_ok_thenDo access_okD meter_ok_give)

lemma readK_Ret: "readK E k w r m = (Ret a, m') \<longleftrightarrow> read_gas E k w m = (Ret (), m') \<and> r = Ok a"
  by (auto simp: readK_def thenDo_Ret lift_Ret)

lemma onGas_Ret: "onGas f st = (Ret a, st') \<longleftrightarrow> (\<exists>m. f (st_gas st) = (Ret a, m) \<and> st' = with_gas m st)"
  by (auto simp: onGas_def split: prod.splits)

lemma sound_readW [intro]: "gas_laws E \<Longrightarrow> sound acct n (readW E k f)"
  unfolding sound_def readW_def [abs_def] sound_at_def
  using sound_onGas [OF meter_ok_readK] unfolding sound_def sound_at_def by blast

lemma sound_details: "gas_laws E \<Longrightarrow> sound acct n (\<lambda>st. onGas (getContractDetails E a (ks_wasm st)) st)"
  unfolding sound_def sound_at_def
  using sound_onGas [OF meter_ok_details] unfolding sound_def sound_at_def by blast

lemma quiet_readW [simp, intro]: "quiet (readW E k f)"
  using quiet_onGas unfolding quiet_def readW_def by blast

text \<open>A read leaves everything but the meter.\<close>

lemma readW_Ret: "readW E k f st = (Ret a, st') \<longleftrightarrow>
    f (ks_wasm st) = Ok a \<and> (\<exists>m. read_gas E k (ks_wasm st) (st_gas st) = (Ret (), m) \<and> st' = with_gas m st)"
  by (auto simp: readW_def onGas_Ret readK_Ret)

lemma readW_RetD:
  assumes "readW E k f st = (Ret a, st')"
  shows "f (ks_wasm st) = Ok a" "ks_wasm st' = ks_wasm st" "h_rest (ks_host st') = h_rest (ks_host st)"
  using assms by (auto simp: readW_Ret)

lemma sound_consume [intro]: "gas_laws E \<Longrightarrow> sound acct n (onGas (consume_gas E a))"
  by (intro sound_onGas meter_ok_consume)

lemma sound_charge [intro]: "gas_laws E \<Longrightarrow> sound acct n (onGas (charge E cost))"
  by (intro sound_onGas meter_ok_charge)

text \<open>After a charge of at least 40,000 units one more level of nesting fits.\<close>

lemma sound_level:
  assumes g: "gas_laws E" and c: "\<And>x. cost = Ok x \<Longrightarrow> 40000 \<le> x" and f: "sound acct n f"
  shows "sound acct (Suc n) (thenDo (onGas (charge E cost)) (\<lambda>_. f))"
proof (rule soundI)
  fix st
  have s: "sound_at acct n (thenDo (onGas (charge E cost)) (\<lambda>_. f)) st"
    using f sound_charge [OF g] by (intro sound_atD sound_thenDo)
  show "sound_at acct (Suc n) (thenDo (onGas (charge E cost)) (\<lambda>_. f)) st"
    unfolding sound_at_def
  proof (intro allI impI)
    fix r st' assume ac: "accounted acct (ks_wasm st) (h_rest (ks_host st))"
      and e: "thenDo (onGas (charge E cost)) (\<lambda>_. f) st = (r, st')"
    have "\<not> fits (Suc n) (st_gas st)" if u: "r = Unfinished"
    proof
      assume fit: "fits (Suc n) (st_gas st)"
      from e u show False
      proof (cases rule: thenDo_cases)
        case (ret a s1)
        then have ch: "charge E cost (st_gas st) = (Ret a, st_gas s1)"
          unfolding onGas_def by (auto split: prod.splits)
        then obtain x where x: "cost = Ok x" "consume_gas E x (st_gas st) = (Ret a, st_gas s1)"
          by (cases rule: charge_cases) auto
        note d = consume_gasD [OF g x(2)]
        have "40000 \<le> unat x" using c [OF x(1)] by (simp add: word_le_nat_alt)
        moreover have "unat (gm_consumed (st_gas s1)) = unat (gm_consumed (st_gas st)) + unat x" using d(4) by simp
        moreover have "within (st_gas s1)" using d(3) by simp
        ultimately have "fits n (st_gas s1)"
          using fit d(1) unfolding fits_def meter_le_def within_def by (auto simp: word_le_nat_alt)
        moreover have "accounted acct (ks_wasm s1) (h_rest (ks_host s1))"
          using ac ret(1) sound_atD [OF sound_charge [OF g], of acct 0 cost st]
          unfolding sound_at_def ok_result_def by (blast dest: implements_accounted)
        then have "\<not> fits n (st_gas s1)" using f ret u unfolding sound_def sound_at_def ok_result_def by blast
        ultimately show False by blast
      next
        case unfinished
        have "sound_at acct (Suc n) (onGas (charge E cost)) st" using sound_charge [OF g] by (rule sound_atD)
        with unfinished fit ac show False unfolding sound_at_def ok_result_def by blast
      qed simp_all
    qed
    with s e ac show "ok_result acct (Suc n) st r st'" unfolding sound_at_def ok_result_def by blast
  qed
qed

lemma uint_Ok:
  assumes "uint_laws E"
  shows "uint_add E a b = Ok z \<longleftrightarrow> 0 \<le> a + b \<and> a + b < 2 ^ 256 \<and> z = a + b"
    "uint_mul E a b = Ok z \<longleftrightarrow> 0 \<le> a * b \<and> a * b < 2 ^ 256 \<and> z = a * b"
    "uint_uint64 E a = Ok y \<longleftrightarrow> 0 \<le> a \<and> a < 2 ^ 64 \<and> y = word_of_int a"
  using assms by (auto simp: uint_laws_def)

lemma InstantiateContractCosts_ge:
  assumes "uint_laws E" "InstantiateContractCosts E k = Ok x" shows "40000 \<le> x"
proof -
  from assms have x: "x = word_of_nat k + 40000" "uint (word_of_nat k :: u64) + 40000 < 2 ^ 64"
    by (auto simp: InstantiateContractCosts_def uint_Ok gas_consts)
  then have "uint x = uint (word_of_nat k :: u64) + 40000"
    by (simp add: uint_word_ariths)
  then show ?thesis by (simp add: word_le_def)
qed

lemma uint_small: "0 \<le> z \<Longrightarrow> z < 2 ^ 64 \<Longrightarrow> uint (word_of_int z :: u64) = z"
  by (simp add: uint_word_of_int)

lemma ReplyCosts_ge:
  assumes u: "uint_laws E" and r: "ReplyCosts E rep = Ok x" shows "40000 \<le> x"
proof -
  obtain b k g where g: "InstantiateContractCosts E k = Ok g"
    and x: "0 \<le> b" "b + uint g < 2 ^ 64" "x = word_of_int (b + uint g)"
  proof (cases "rp_result rep")
    case (SubErr s)
    with r obtain g where "InstantiateContractCosts E (length s) = Ok g" "x = word_of_int (0 + uint g)"
      by (auto simp: ReplyCosts_def uint_Ok [OF u])
    with that [of _ g 0] show ?thesis using uint_lt2p [of g] by simp
  next
    case (SubOk events data)
    with r obtain a k g where g: "InstantiateContractCosts E k = Ok g"
      and x: "uint_uint64 E (uint (a :: u64) + uint g) = Ok x"
      by (fastforce simp: ReplyCosts_def Let_def uint_Ok [OF u])
    from x have "uint a + uint g < 2 ^ 64" "x = word_of_int (uint a + uint g)" unfolding uint_Ok [OF u] by blast+
    then show ?thesis by (rule that [OF g uint_ge_0])
  qed
  have "40000 \<le> g" using InstantiateContractCosts_ge [OF u g] .
  then have "40000 \<le> uint g" by (simp add: word_le_def)
  moreover have "uint x = b + uint g" unfolding x(3) by (rule uint_small) (use x in auto)
  ultimately show ?thesis using x(1) by (simp add: word_le_def)
qed

section \<open>Every operation is sound\<close>

named_theorems sound_intros \<open>soundness of the operations\<close>

lemma wasm_lawsD:
  assumes "wasm_laws acct E"
  shows "gas_laws E" "uint_laws E" "host_laws acct E" "vm_laws E" "addr_laws (we_sdk E)" "no_empty_addr (we_sdk E)"
  using assms by (simp_all add: wasm_laws_def)

lemma host_lawsD:
  assumes "host_laws acct E"
  shows "host_ok acct (get_account E a)" "host_ok acct (new_account E a)" "host_ok acct (send_coins E f t cs)"
    "host_ok acct (deduct_fees E a cs)" "get_account E a h = (Ret b, h') \<Longrightarrow> b = acct (h_rest h) a"
    "new_account E a h = (Ret (), h') \<Longrightarrow> acct (h_rest h') a"
    "module_handler E c msg = Some p \<Longrightarrow> program_ok acct (p h) h"
  using assms unfolding host_laws_def by blast+

text \<open>The writes of the module are steps of the registry.\<close>

lemma GetCodeInfo_Ok: "GetCodeInfo k w = Ok i \<longleftrightarrow> rg_codes (registry_of w) k = Some i"
  by (auto simp: GetCodeInfo_def registry_of_def split: option.splits)

lemma GetContractInfo_Ok: "GetContractInfo a w = Ok i \<longleftrightarrow> rg_contracts (registry_of w) a = Some i"
  by (auto simp: GetContractInfo_def registry_of_def split: option.splits)

lemma GetLastCodeID_Ok: "GetLastCodeID w = Ok n \<longleftrightarrow> rg_last_code (registry_of w) = Some n"
  by (auto simp: GetLastCodeID_def registry_of_def split: option.splits)

lemma registry_of_set [simp]:
  "registry_of (SetContractInfo a info w) = (registry_of w)\<lparr>rg_contracts := (rg_contracts (registry_of w))(a \<mapsto> info)\<rparr>"
  "registry_of (SetCodeInfo k ci w) = (registry_of w)\<lparr>rg_codes := (rg_codes (registry_of w))(k \<mapsto> ci)\<rparr>"
  "registry_of (SetLastCodeID n w) = (registry_of w)\<lparr>rg_last_code := Some n\<rparr>"
  "registry_of (SetLastInstanceID n w) = registry_of w"
  "registry_of (put_contract_store a s w) = registry_of w"
  by (simp_all add: registry_of_def SetContractInfo_def SetCodeInfo_def SetLastCodeID_def SetLastInstanceID_def
      put_contract_store_def)

lemma params_set [simp]:
  "ws_params (SetContractInfo a info w) = ws_params w" "ws_params (SetCodeInfo k ci w) = ws_params w"
  "ws_params (SetLastCodeID n w) = ws_params w" "ws_params (SetLastInstanceID n w) = ws_params w"
  "ws_params (put_contract_store a s w) = ws_params w"
  by (simp_all add: SetContractInfo_def SetCodeInfo_def SetLastCodeID_def SetLastInstanceID_def put_contract_store_def)

lemma writes_implement:
  assumes ac: "accounted acct w x"
  shows "GetLastCodeID w = Ok n \<Longrightarrow>
    implements acct w x (SetCodeInfo (n + 1) (NewCodeInfo E (n + 1) hash creator) (SetLastCodeID (n + 1) w)) x"
  "GetCodeInfo k w = Ok ci \<Longrightarrow> ci_hash ci = [] \<Longrightarrow> implements acct w x (SetCodeInfo k (ci\<lparr>ci_hash := hash\<rparr>) w) x"
  "rg_contracts (registry_of w) a = None \<Longrightarrow> acct x a \<Longrightarrow>
    GetCodeInfo (co_code_id info) w = Ok ci \<Longrightarrow> implements acct w x (SetContractInfo a info (SetLastInstanceID j w)) x"
  "GetContractInfo a w = Ok i \<Longrightarrow> co_admin i \<noteq> '''' \<Longrightarrow> GetCodeInfo k w = Ok ci \<Longrightarrow>
    implements acct w x (SetContractInfo a (i\<lparr>co_code_id := k\<rparr>) w) x"
  "GetContractInfo a w = Ok i \<Longrightarrow> co_admin i \<noteq> '''' \<Longrightarrow> new \<noteq> '''' \<Longrightarrow>
    implements acct w x (SetContractInfo a (i\<lparr>co_admin := new\<rparr>) w) x"
  "GetContractInfo a w = Ok i \<Longrightarrow> co_admin i \<noteq> '''' \<Longrightarrow>
    implements acct w x (SetContractInfo a (i\<lparr>co_admin := ''''\<rparr>) w) x"
proof -
  have acc: "accounted acct w' x"
    if "\<And>b. rg_contracts (registry_of w') b \<noteq> None \<Longrightarrow> acct x b \<or> rg_contracts (registry_of w) b \<noteq> None" for w'
    using ac that unfolding accounted_registry by blast
  show "GetLastCodeID w = Ok n \<Longrightarrow>
    implements acct w x (SetCodeInfo (n + 1) (NewCodeInfo E (n + 1) hash creator) (SetLastCodeID (n + 1) w)) x"
    using registry_step.upload [of "registry_of w" n "NewCodeInfo E (n + 1) hash creator"]
    by (intro implements_step [of w "Uploaded (n + 1)"] acc) (simp_all add: GetLastCodeID_Ok NewCodeInfo_def)
  show "GetCodeInfo k w = Ok ci \<Longrightarrow> ci_hash ci = [] \<Longrightarrow> implements acct w x (SetCodeInfo k (ci\<lparr>ci_hash := hash\<rparr>) w) x"
    using registry_step.recompile [of "registry_of w" k ci hash]
    by (intro implements_step [of w "Recompiled k (ci_creator ci)"] acc) (simp_all add: GetCodeInfo_Ok)
  show "rg_contracts (registry_of w) a = None \<Longrightarrow> acct x a \<Longrightarrow>
    GetCodeInfo (co_code_id info) w = Ok ci \<Longrightarrow> implements acct w x (SetContractInfo a info (SetLastInstanceID j w)) x"
    using registry_step.create [of "registry_of w" a info]
    by (intro implements_step [of w "Created a"] acc) (auto simp: GetCodeInfo_Ok split: if_splits)
  show "GetContractInfo a w = Ok i \<Longrightarrow> co_admin i \<noteq> '''' \<Longrightarrow> GetCodeInfo k w = Ok ci \<Longrightarrow>
    implements acct w x (SetContractInfo a (i\<lparr>co_code_id := k\<rparr>) w) x"
    using registry_step.migrate [of "registry_of w" a i k]
    by (intro implements_step [of w "Migrated a k (co_admin i)"] acc)
      (auto simp: GetContractInfo_Ok GetCodeInfo_Ok split: if_splits)
  show "GetContractInfo a w = Ok i \<Longrightarrow> co_admin i \<noteq> '''' \<Longrightarrow> new \<noteq> '''' \<Longrightarrow>
    implements acct w x (SetContractInfo a (i\<lparr>co_admin := new\<rparr>) w) x"
    using registry_step.change_admin [of "registry_of w" a i new]
    by (intro implements_step [of w "AdminChanged a new (co_admin i)"] acc)
      (auto simp: GetContractInfo_Ok split: if_splits)
  show "GetContractInfo a w = Ok i \<Longrightarrow> co_admin i \<noteq> '''' \<Longrightarrow>
    implements acct w x (SetContractInfo a (i\<lparr>co_admin := ''''\<rparr>) w) x"
    using registry_step.clear_admin [of "registry_of w" a i]
    by (intro implements_step [of w "AdminCleared a (co_admin i)"] acc)
      (auto simp: GetContractInfo_Ok split: if_splits)
qed

lemma sound_at_writeW:
  assumes g: "gas_laws E"
    and i: "accounted acct (ks_wasm st) (h_rest (ks_host st)) \<Longrightarrow>
     implements acct (ks_wasm st) (h_rest (ks_host st)) (f (ks_wasm st)) (h_rest (ks_host st))"
  shows "sound_at acct n (writeW E ks f) st"
proof -
  have "sound_at acct n (thenDo (onGas (write_all E ks (f (ks_wasm st)))) (\<lambda>_ s. (Ret (), s\<lparr>ks_wasm := f (ks_wasm s)\<rparr>))) st"
  proof (rule sound_at_thenDo [OF sound_atD [OF sound_onGas [OF meter_ok_write_all [OF g]]]])
    fix u s assume ac: "accounted acct (ks_wasm st) (h_rest (ks_host st))"
      and "onGas (write_all E ks (f (ks_wasm st))) st = (Ret u, s)"
    then obtain m where "s = with_gas m st" by (auto simp: onGas_Ret)
    with i [OF ac] show "sound_at acct n (\<lambda>s. (Ret (), s\<lparr>ks_wasm := f (ks_wasm s)\<rparr>)) s"
      by (simp add: sound_at_def ok_result_def with_gas_def)
  qed
  then show ?thesis by (simp add: sound_at_def writeW_def)
qed

lemma sound_if [sound_intros]: "sound acct n f \<Longrightarrow> sound acct n g \<Longrightarrow> sound acct n (if b then f else g)"
  by simp

declare sound_lift [sound_intros] sound_give [sound_intros] sound_readW [sound_intros] sound_emit [sound_intros]
  sound_consume [sound_intros] sound_charge [sound_intros] sound_thenDo [sound_intros]

text \<open>Codes.\<close>

lemma CompileCode_sound: "gas_laws E \<Longrightarrow> sound acct n (CompileCode E code)"
  unfolding CompileCode_def by (intro sound_intros)

lemma CompileCode_quiet: "quiet (CompileCode E code)"
  unfolding CompileCode_def by (intro quiet_thenDo quiet_lift quiet_readW quiet_onGas)

lemma StoreCode_sound:
  assumes g: "gas_laws E" shows "sound acct n (StoreCode E creator code)"
proof -
  have "sound acct n (thenDo (readW E LastCodeKey GetLastCodeID) (\<lambda>l.
      thenDo (writeW E [LastCodeKey, CodeKey (l + 1)]
        (\<lambda>w. SetCodeInfo (l + 1) (NewCodeInfo E (l + 1) hash creator) (SetLastCodeID (l + 1) w))) (\<lambda>_. give (l + 1))))" for hash
  proof (rule soundI, rule sound_at_thenDo [OF sound_atD [OF sound_readW [OF g]]])
    fix st :: "'a kstate" and l st1 assume "readW E LastCodeKey GetLastCodeID st = (Ret l, st1)"
    from readW_RetD [OF this] have "GetLastCodeID (ks_wasm st1) = Ok l" by simp
    then show "sound_at acct n (thenDo (writeW E [LastCodeKey, CodeKey (l + 1)]
        (\<lambda>w. SetCodeInfo (l + 1) (NewCodeInfo E (l + 1) hash creator) (SetLastCodeID (l + 1) w))) (\<lambda>_. give (l + 1))) st1"
      by (intro sound_at_thenDo sound_at_writeW [OF g] writes_implement(1) sound_atD [OF sound_give])
  qed
  then show ?thesis unfolding StoreCode_def Let_def by (rule sound_thenDo [OF CompileCode_sound [OF g]])
qed

lemma MigrateCode_sound:
  assumes g: "gas_laws E" shows "sound acct n (MigrateCode E k creator code)"
proof (rule soundI)
  fix st
  show "sound_at acct n (MigrateCode E k creator code) st"
    unfolding MigrateCode_def
  proof (rule sound_at_thenDo)
    fix ci st1 assume "readW E (CodeKey k) (GetCodeInfo k) st = (Ret ci, st1)"
    from readW_RetD [OF this] have ci: "GetCodeInfo k (ks_wasm st1) = Ok ci" by simp
    show "sound_at acct n (if ci_hash ci \<noteq> [] \<or> ci_creator ci \<noteq> acc_bech32 (we_sdk E) creator then lift (Err ErrUnauthorized)
      else thenDo (CompileCode E code) (\<lambda>codeHash. writeW E [CodeKey k] (SetCodeInfo k (ci\<lparr>ci_hash := codeHash\<rparr>)))) st1"
    proof (cases "ci_hash ci \<noteq> [] \<or> ci_creator ci \<noteq> acc_bech32 (we_sdk E) creator")
      case False
      have "sound_at acct n (thenDo (CompileCode E code) (\<lambda>codeHash. writeW E [CodeKey k] (SetCodeInfo k (ci\<lparr>ci_hash := codeHash\<rparr>)))) st1"
      proof (rule sound_at_thenDo)
        fix hash st2 assume "CompileCode E code st1 = (Ret hash, st2)"
        then have "registry_of (ks_wasm st2) = registry_of (ks_wasm st1)" by (rule quietD [OF CompileCode_quiet])
        with ci have "GetCodeInfo k (ks_wasm st2) = Ok ci" by (simp add: GetCodeInfo_Ok)
        then show "sound_at acct n (writeW E [CodeKey k] (SetCodeInfo k (ci\<lparr>ci_hash := hash\<rparr>))) st2"
          using False by (intro sound_at_writeW [OF g] writes_implement(2)) auto
      qed (rule sound_atD [OF CompileCode_sound [OF g]])
      with False show ?thesis by simp
    qed (simp add: sound_atD)
  qed (rule sound_atD [OF sound_readW [OF g]])
qed

text \<open>A call of the virtual machine.\<close>

lemma Querier_meter: "gas_laws E \<Longrightarrow> meter_le m (snd (Querier_Query E qc c w x req gl m))"
proof -
  assume g: "gas_laws E"
  obtain r inner where "route_query E qc c w x req (new_gas_meter E (gl div GasMultiplier)) = (r, inner)" by fastforce
  moreover obtain r' m' where "consume_gas E (gm_consumed inner) m = (r', m')" by fastforce
  ultimately show ?thesis
    using consume_gasD(1,2) [OF g, of "gm_consumed inner" m r' m'] by (auto simp: Querier_Query_def thenDo_def)
qed

lemma vm_okD:
  assumes "vm_ok run" "gas_laws E" "run s api (\<lambda>s. Querier_Query E (qc s) c (w s) x) m l = (r, g, s', m')"
  shows "meter_le m m'"
proof (rule assms(1) [unfolded vm_ok_def, rule_format, OF _ assms(3)])
  show "meter_le m (snd (Querier_Query E (qc s) c (w s) x req gl m))" for s req gl m by (rule Querier_meter [OF assms(2)])
qed

text \<open>After a jump that may exceed the meter, a charge restores the bound or panics.\<close>

lemma ok_result_jump:
  assumes g: "gas_laws E" and k: "\<And>a. sound acct n (k a)"
    and i: "implements acct (ks_wasm st) (h_rest (ks_host st)) (ks_wasm s1) (h_rest (ks_host s1))"
    and m: "meter_le (st_gas st) (st_gas s1)"
    and e: "thenDo (onGas (consume_gas E x)) k s1 = (r, st')"
  shows "ok_result acct n st r st'"
proof -
  have c: "meter_le (st_gas st) (st_gas s2)" "implements acct (ks_wasm st) (h_rest (ks_host st)) (ks_wasm s2) (h_rest (ks_host s2))"
    "q = Ret () \<or> q = OutOfGas \<or> q = Crash" "returns q \<Longrightarrow> within (st_gas s2)"
    if "onGas (consume_gas E x) s1 = (q, s2)" for q s2
    using that i m consume_gasD(1-3) [OF g] meter_le_trans [OF m] unfolding onGas_def
    by (auto split: prod.splits)
  from e show ?thesis
  proof (cases rule: thenDo_cases)
    case (ret a s2)
    have "ok_result acct n s2 r st'"
      using k [of a] ret(2) implements_accounted [OF c(2) [OF ret(1)]] unfolding sound_def sound_at_def by blast
    moreover have "ok_result acct n st (Ret ()) s2" using c [OF ret(1)] by (simp add: ok_result_def)
    ultimately show ?thesis by (rule ok_result_trans [rotated])
  qed (use c in \<open>auto simp: ok_result_def\<close>)
qed

lemma run_contract_sound:
  assumes g: "gas_laws E" and v: "vm_ok run" shows "sound acct n (run_contract E c a run failed)"
proof (rule soundI)
  fix st :: "'a kstate"
  let ?q = "\<lambda>s. Querier_Query E (queryToContract E (put_contract_store a s (ks_wasm st)) (h_rest (ks_host st)) c) c
    (put_contract_store a s (ks_wasm st)) (h_rest (ks_host st))"
  show "sound_at acct n (run_contract E c a run failed) st"
    unfolding sound_at_def
  proof (intro allI impI)
    fix r st' assume ac: "accounted acct (ks_wasm st) (h_rest (ks_host st))"
      and e: "run_contract E c a run failed st = (r, st')"
    show "ok_result acct n st r st'"
    proof (cases "getWasmVMGasRemaining E (st_gas st)")
      case (Ok l)
      obtain rr gu s' m where o: "run (contract_store a (ks_wasm st)) (getCosmWasmAPI E) ?q (st_gas st) l = (rr, gu, s', m)"
        by (cases "run (contract_store a (ks_wasm st)) (getCosmWasmAPI E) ?q (st_gas st) l") auto
      let ?s1 = "with_gas m (st\<lparr>ks_wasm := put_contract_store a s' (ks_wasm st)\<rparr>)"
      let ?k = "\<lambda>_. thenDo (lift (wrapErr failed rr)) (\<lambda>res.
         thenDo (onGas (charge E (EventCosts E (vr_attributes res) (vr_events res)))) (\<lambda>_. give res))"
      have i: "implements acct (ks_wasm st) (h_rest (ks_host st)) (ks_wasm ?s1) (h_rest (ks_host ?s1))"
        by (rule implements_rest) (simp_all add: ac)
      have m: "meter_le (st_gas st) (st_gas ?s1)" using vm_okD [OF v g o] by simp
      show ?thesis
      proof (cases "rr = Panic")
        case True
        with e o Ok i m show ?thesis by (auto simp: run_contract_def thenDo_def Let_def ok_result_def)
      next
        case False
        have s: "thenDo (onGas (consume_gas E (FromWasmVMGas (gu + GasMultiplier)))) ?k ?s1 = (r, st')"
          using e o Ok False unfolding run_contract_def thenDo_def [of "lift (getWasmVMGasRemaining E (st_gas st))"]
          by (simp add: Let_def consumeWasmVMGas_def [abs_def])
        show ?thesis
          by (rule ok_result_jump [OF g _ i m s]) (intro sound_intros g)
      qed
    qed (use e ac in \<open>auto simp: run_contract_def thenDo_def ok_result_def\<close>)
  qed
qed

lemma run_contract_quiet: "quiet (run_contract E c a run failed)"
  unfolding quiet_def
proof (intro allI impI)
  fix st :: "'a kstate" and r st'
  let ?q = "\<lambda>s. Querier_Query E (queryToContract E (put_contract_store a s (ks_wasm st)) (h_rest (ks_host st)) c) c
    (put_contract_store a s (ks_wasm st)) (h_rest (ks_host st))"
  assume e: "run_contract E c a run failed st = (r, st')"
  show "registry_of (ks_wasm st') = registry_of (ks_wasm st)"
  proof (cases "getWasmVMGasRemaining E (st_gas st)")
    case (Ok l)
    obtain rr gu s' m where o: "run (contract_store a (ks_wasm st)) (getCosmWasmAPI E) ?q (st_gas st) l = (rr, gu, s', m)"
      by (cases "run (contract_store a (ks_wasm st)) (getCosmWasmAPI E) ?q (st_gas st) l") auto
    let ?s1 = "with_gas m (st\<lparr>ks_wasm := put_contract_store a s' (ks_wasm st)\<rparr>)"
    let ?f = "thenDo (onGas (consumeWasmVMGas E (gu + GasMultiplier))) (\<lambda>_. thenDo (lift (wrapErr failed rr)) (\<lambda>res.
       thenDo (onGas (charge E (EventCosts E (vr_attributes res) (vr_events res)))) (\<lambda>_. give res)))"
    have q: "quiet ?f" by (intro quiet_thenDo quiet_onGas quiet_lift quiet_give)
    have "(if rr = Panic then (Crash, ?s1) else ?f ?s1) = (r, st')"
      using e o Ok unfolding run_contract_def thenDo_def [of "lift (getWasmVMGasRemaining E (st_gas st))"] by (simp add: Let_def)
    then have "rr = Panic \<and> st' = ?s1 \<or> ?f ?s1 = (r, st')" by (auto split: if_splits)
    with quietD [OF q, of ?s1 r st'] show ?thesis by auto
  qed (use e in \<open>auto simp: run_contract_def thenDo_def\<close>)
qed

lemma emit_contract_events_sound: "sound acct n (emit_contract_events E a res)"
  unfolding emit_contract_events_def by (intro sound_intros)

lemma emit_contract_events_quiet: "quiet (emit_contract_events E a res)"
  unfolding emit_contract_events_def by (intro quiet_thenDo quiet_lift quiet_emit)

lemma dispatch_response_sound: "(\<And>ms. sound acct n (disp ms)) \<Longrightarrow> sound acct n (dispatch_response disp res)"
  unfolding dispatch_response_def by (intro sound_intros)

lemma check_msg_size_sound: "gas_laws E \<Longrightarrow> sound acct n (check_msg_size E msg)"
  unfolding check_msg_size_def by (rule sound_readW)

lemma vm_lawsD:
  assumes "vm_laws E"
  shows "vm_ok (vm_instantiate E hash env info msg)" "vm_ok (vm_execute E hash env info msg)"
    "vm_ok (vm_migrate E hash env msg)" "vm_ok (vm_reply_call E hash env rep)"
  using assms unfolding vm_laws_def by blast+

text \<open>The account of a new contract: its address is free, and afterwards has an account.\<close>

lemma send_deposit_sound:
  "host_laws acct E \<Longrightarrow>
    sound acct n (if \<not> coins_is_zero (we_sdk E) cs then onHost (send_coins E f t cs) else give ())"
  by (intro sound_if sound_onHost host_lawsD(3) sound_give)

lemma create_account_sound:
  assumes h: "host_laws acct E" and g: "gas_laws E" shows "sound acct n (create_contract_account E k creator deposit)"
  unfolding create_contract_account_def Let_def
  by (intro sound_intros g sound_onHost host_lawsD [OF h] send_deposit_sound [OF h])

lemma create_account_quiet: "quiet (create_contract_account E k creator deposit)"
  unfolding create_contract_account_def Let_def
proof (intro quiet_thenDo quiet_readW)
  fix n b
  let ?a = "GenerateContractAddress E k (n + 1)"
  have "quiet (if \<not> coins_is_zero (we_sdk E) deposit then onHost (send_coins E creator ?a deposit) else give ())"
    by auto
  then have "quiet (thenDo (onHost (new_account E ?a)) (\<lambda>_.
      thenDo (if \<not> coins_is_zero (we_sdk E) deposit then onHost (send_coins E creator ?a deposit) else give ()) (\<lambda>_.
      thenDo (readW E (CodeKey k) (GetCodeInfo k)) (\<lambda>ci. give (n + 1, ?a, ci)))))"
    by (intro quiet_thenDo quiet_readW quiet_give quiet_onHost)
  then show "quiet (if b then lift (Err ErrAccountExists)
    else thenDo (onHost (new_account E ?a)) (\<lambda>_.
      thenDo (if \<not> coins_is_zero (we_sdk E) deposit then onHost (send_coins E creator ?a deposit) else give ()) (\<lambda>_.
      thenDo (readW E (CodeKey k) (GetCodeInfo k)) (\<lambda>ci. give (n + 1, ?a, ci)))))" by auto
qed simp_all

lemma onHost_Ret: "onHost f st = (Ret v, st') \<longleftrightarrow> (\<exists>h. f (ks_host st) = (Ret v, h) \<and> st' = st\<lparr>ks_host := h\<rparr>)"
  by (auto simp: onHost_def split: prod.splits)

lemma create_account_fresh:
  assumes h: "host_laws acct E" and c: "create_contract_account E k creator deposit st = (Ret (j, a, ci), st')"
  shows "\<not> acct (h_rest (ks_host st)) a" "acct (h_rest (ks_host st')) a" "GetCodeInfo k (ks_wasm st') = Ok ci"
proof -
  let ?send = "\<lambda>a. if \<not> coins_is_zero (we_sdk E) deposit then onHost (send_coins E creator a deposit) else give ()"
  from c obtain n s0 s1 b where r0: "readW E LastInstanceKey GetLastInstanceID st = (Ret n, s0)"
    and s1': "onHost (get_account E (GenerateContractAddress E k (n + 1))) s0 = (Ret b, s1)"
    and rest: "(if b then lift (Err ErrAccountExists) else
        thenDo (onHost (new_account E (GenerateContractAddress E k (n + 1)))) (\<lambda>_.
        thenDo (?send (GenerateContractAddress E k (n + 1))) (\<lambda>_.
        thenDo (readW E (CodeKey k) (GetCodeInfo k)) (\<lambda>ci.
        give (n + 1, GenerateContractAddress E k (n + 1), ci))))) s1 = (Ret (j, a, ci), st')"
    unfolding create_contract_account_def Let_def thenDo_Ret by blast
  from rest have b: "\<not> b" by (cases b) auto
  with rest obtain s2 s3 u where a: "a = GenerateContractAddress E k (n + 1)"
    and s2: "onHost (new_account E a) s1 = (Ret (), s2)" and s3: "?send a s2 = (Ret u, s3)"
    and ci: "readW E (CodeKey k) (GetCodeInfo k) s3 = (Ret ci, st')"
    unfolding give_def by (auto simp: thenDo_Ret)
  note s0 = readW_RetD(3) [OF r0]
  have s1: "onHost (get_account E a) s0 = (Ret False, s1)" using s1' a b by simp
  show "\<not> acct (h_rest (ks_host st)) a"
    using s0 s1 host_lawsD(5) [OF h, of a "ks_host s0"] by (auto simp: onHost_Ret)
  have "acct (h_rest (ks_host s2)) a"
    using s2 host_lawsD(6) [OF h] by (auto simp: onHost_Ret)
  moreover have "acct (h_rest h') b" if "send_coins E creator a deposit h0 = (q, h')" "acct (h_rest h0) b" for h0 q h' b
    using host_lawsD(3) [OF h] that unfolding host_ok_def host_le_def by blast
  ultimately have "acct (h_rest (ks_host s3)) a"
    using s3 by (auto simp: onHost_Ret give_def split: if_splits)
  with ci show "acct (h_rest (ks_host st')) a" "GetCodeInfo k (ks_wasm st') = Ok ci" by (auto simp: readW_Ret)
qed

text \<open>What an action never takes away.\<close>

lemma sound_at_keeps_account:
  "sound_at acct n f st \<Longrightarrow> accounted acct (ks_wasm st) (h_rest (ks_host st)) \<Longrightarrow> f st = (r, st') \<Longrightarrow> acct (h_rest (ks_host st)) a \<Longrightarrow> acct (h_rest (ks_host st')) a"
  unfolding sound_at_def ok_result_def implements_def by blast

lemma sound_at_accounted:
  "sound_at acct n f st \<Longrightarrow> accounted acct (ks_wasm st) (h_rest (ks_host st)) \<Longrightarrow> f st = (r, st') \<Longrightarrow>
    accounted acct (ks_wasm st') (h_rest (ks_host st'))"
  unfolding sound_at_def ok_result_def by (blast dest: implements_accounted)

lemma InstantiateContract_sound:
  assumes L: "wasm_laws acct E" and d: "\<And>a ms. sound acct n (disp a ms)"
  shows "sound acct (Suc n) (InstantiateContract E disp c k creator admin initMsg deposit)"
proof -
  note g = wasm_lawsD(1) [OF L] and u = wasm_lawsD(2) [OF L] and h = wasm_lawsD(3) [OF L] and v = wasm_lawsD(4) [OF L]
  let ?info = "\<lambda>a. NewContractInfo E k a creator admin initMsg"
  let ?run = "\<lambda>a ci. run_contract E c a
      (vm_instantiate E (ci_hash ci) (NewEnv E c a) (NewInfo E creator deposit) initMsg) ErrInstantiateFailed"
  let ?w = "\<lambda>j a. writeW E [LastInstanceKey, ContractKey a] (\<lambda>w. SetContractInfo a (?info a) (SetLastInstanceID j w))"
  let ?tail = "\<lambda>a res. thenDo (emit_contract_events E a res) (\<lambda>_.
      thenDo (dispatch_response (disp a) res) (\<lambda>data. give (a, data)))"
  have tail: "sound acct n (?tail a res)" for a res
    by (intro sound_thenDo sound_give emit_contract_events_sound dispatch_response_sound d)
  have rest: "sound acct n (thenDo (create_contract_account E k creator deposit) (\<lambda>(j, a, ci).
      thenDo (?run a ci) (\<lambda>res. thenDo (?w j a) (\<lambda>_. ?tail a res))))"
  proof (rule soundI, rule sound_at_thenDo)
    fix st0 p st assume ac0: "accounted acct (ks_wasm st0) (h_rest (ks_host st0))" and p: "create_contract_account E k creator deposit st0 = (Ret p, st)"
    obtain j a ci where jac: "p = (j, a, ci)" by (cases p) auto
    note fr = create_account_fresh [OF h p [unfolded jac]]
    have reg: "registry_of (ks_wasm st) = registry_of (ks_wasm st0)" using quietD [OF create_account_quiet p] .
    have ac: "accounted acct (ks_wasm st) (h_rest (ks_host st))"
      using sound_at_accounted [OF sound_atD [OF create_account_sound [OF h g]] ac0 p] .
    have "sound_at acct n (thenDo (?run a ci) (\<lambda>res. thenDo (?w j a) (\<lambda>_. ?tail a res))) st"
    proof (rule sound_at_thenDo)
      have rs: "sound acct n (?run a ci)" by (rule run_contract_sound [OF g vm_lawsD(1) [OF v]])
      then show "sound_at acct n (?run a ci) st" by (rule sound_atD)
      fix res st1 assume r: "?run a ci st = (Ret res, st1)"
      have reg1: "registry_of (ks_wasm st1) = registry_of (ks_wasm st)" using quietD [OF run_contract_quiet r] .
      have ac1: "acct (h_rest (ks_host st1)) a" using sound_at_keeps_account [OF sound_atD [OF rs] ac r fr(2)] .
      have ok: "GetCodeInfo (co_code_id (?info a)) (ks_wasm st1) = Ok ci"
        using fr(3) reg1 by (simp add: GetCodeInfo_Ok NewContractInfo_def)
      have free: "rg_contracts (registry_of (ks_wasm st1)) a = None"
        using fr(1) ac0 reg reg1 by (auto simp: accounted_registry)
      show "sound_at acct n (thenDo (?w j a) (\<lambda>_. ?tail a res)) st1"
        using free ac1 ok
        by (intro sound_at_thenDo sound_at_writeW [OF g] writes_implement(3) sound_atD [OF tail]) auto
    qed
    with jac show "sound_at acct n (case p of (j, a, ci) \<Rightarrow>
        thenDo (?run a ci) (\<lambda>res. thenDo (?w j a) (\<lambda>_. ?tail a res))) st" by simp
  qed (rule sound_atD [OF create_account_sound [OF h g]])
  show ?thesis
    unfolding InstantiateContract_def
    by (rule sound_thenDo [OF sound_consume [OF g]], rule sound_level [OF g InstantiateContractCosts_ge [OF u]],
        assumption, rule sound_thenDo [OF check_msg_size_sound [OF g]], rule rest)
qed

lemma ExecuteContract_sound:
  assumes L: "wasm_laws acct E" and d: "\<And>a ms. sound acct n (disp a ms)"
  shows "sound acct (Suc n) (ExecuteContract E disp c a sender msg cs)"
proof -
  note g = wasm_lawsD(1) [OF L] and u = wasm_lawsD(2) [OF L] and h = wasm_lawsD(3) [OF L] and v = wasm_lawsD(4) [OF L]
  have x: "sound acct n (case p of (ci, s) \<Rightarrow>
      thenDo (if \<not> coins_is_zero (we_sdk E) cs then onHost (send_coins E sender a cs) else give ()) (\<lambda>_.
      thenDo (run_contract E c a (vm_execute E (ci_hash ci) (NewEnv E c a) (NewInfo E sender cs) msg) ErrExecuteFailed) (\<lambda>res.
      thenDo (emit_contract_events E a res) (\<lambda>_. dispatch_response (disp a) res))))" for p :: "code_info \<times> kv"
    unfolding case_prod_beta
    by (intro sound_thenDo send_deposit_sound [OF h] run_contract_sound [OF g vm_lawsD(2) [OF v]]
        emit_contract_events_sound dispatch_response_sound d)
  show ?thesis
    unfolding ExecuteContract_def
    by (rule sound_level [OF g InstantiateContractCosts_ge [OF u]], assumption,
        rule sound_thenDo [OF check_msg_size_sound [OF g]], rule sound_thenDo [OF sound_details [OF g]], rule x)
qed

lemma reply_sound:
  assumes L: "wasm_laws acct E" and d: "\<And>a ms. sound acct n (disp a ms)"
  shows "sound acct (Suc n) (reply E disp c a rep)"
proof -
  note g = wasm_lawsD(1) [OF L] and u = wasm_lawsD(2) [OF L] and v = wasm_lawsD(4) [OF L]
  have x: "sound acct n (case p of (ci, s) \<Rightarrow>
      thenDo (run_contract E c a (vm_reply_call E (ci_hash ci) (NewEnv E c a) rep) ErrReplyFailed) (\<lambda>res.
      thenDo (emit_contract_events E a res) (\<lambda>_. dispatch_response (disp a) res)))" for p :: "code_info \<times> kv"
    unfolding case_prod_beta
    by (intro sound_thenDo run_contract_sound [OF g vm_lawsD(4) [OF v]]
        emit_contract_events_sound dispatch_response_sound d)
  show ?thesis
    unfolding reply_def
    by (rule sound_level [OF g ReplyCosts_ge [OF u]], assumption, rule sound_thenDo [OF sound_details [OF g]], rule x)
qed

lemma MigrateContract_sound:
  assumes L: "wasm_laws acct E" and d: "\<And>a ms. sound acct n (disp a ms)"
  shows "sound acct (Suc n) (MigrateContract E disp c a sender k msg)"
proof -
  note g = wasm_lawsD(1) [OF L] and u = wasm_lawsD(2) [OF L] and v = wasm_lawsD(4) [OF L]
  let ?run = "\<lambda>ci. run_contract E c a (vm_migrate E (ci_hash ci) (NewEnv E c a) msg) ErrMigrationFailed"
  let ?w = "\<lambda>i. writeW E [ContractKey a] (SetContractInfo a (i\<lparr>co_code_id := k\<rparr>))"
  let ?body = "\<lambda>i. thenDo (readW E (CodeKey k) (GetCodeInfo k)) (\<lambda>ci. thenDo (?run ci) (\<lambda>res.
      thenDo (emit_contract_events E a res) (\<lambda>_. thenDo (?w i) (\<lambda>_. dispatch_response (disp a) res))))"
  have body: "sound_at acct n (?body i) st"
    if i: "GetContractInfo a (ks_wasm st) = Ok i" "co_admin i \<noteq> ''''" for i st
  proof (rule sound_at_thenDo [OF sound_atD [OF sound_readW [OF g]]])
    fix ci s0 assume "readW E (CodeKey k) (GetCodeInfo k) st = (Ret ci, s0)"
    from readW_RetD [OF this] have ci: "GetCodeInfo k (ks_wasm st) = Ok ci" "ks_wasm s0 = ks_wasm st" by simp_all
    show "sound_at acct n (thenDo (?run ci) (\<lambda>res. thenDo (emit_contract_events E a res) (\<lambda>_.
        thenDo (?w i) (\<lambda>_. dispatch_response (disp a) res)))) s0"
    proof (rule sound_at_thenDo [OF sound_atD [OF run_contract_sound [OF g vm_lawsD(3) [OF v]]]])
      fix res s1 assume r: "?run ci s0 = (Ret res, s1)"
      show "sound_at acct n (thenDo (emit_contract_events E a res) (\<lambda>_.
          thenDo (?w i) (\<lambda>_. dispatch_response (disp a) res))) s1"
      proof (rule sound_at_thenDo [OF sound_atD [OF emit_contract_events_sound]])
        fix y s2 assume e: "emit_contract_events E a res s1 = (Ret y, s2)"
        have "registry_of (ks_wasm s2) = registry_of (ks_wasm st)"
          using quietD [OF run_contract_quiet r] quietD [OF emit_contract_events_quiet e] ci(2) by simp
        then have "GetContractInfo a (ks_wasm s2) = Ok i" "GetCodeInfo k (ks_wasm s2) = Ok ci"
          using i(1) ci(1) by (simp_all add: GetContractInfo_Ok GetCodeInfo_Ok)
        then show "sound_at acct n (thenDo (?w i) (\<lambda>_. dispatch_response (disp a) res)) s2"
          using i(2) by (intro sound_at_thenDo sound_at_writeW [OF g] sound_atD [OF dispatch_response_sound] d writes_implement(4))
      qed
    qed
  qed
  have x: "sound acct n (thenDo (readW E (ContractKey a) (GetContractInfo a)) (\<lambda>i.
      if co_admin i = '''' then lift (Err ErrNotMigratable)
      else if co_admin i \<noteq> acc_bech32 (we_sdk E) sender then lift (Err ErrUnauthorized) else ?body i))"
  proof (rule soundI, rule sound_at_thenDo [OF sound_atD [OF sound_readW [OF g]]])
    fix st i and s0 :: "'a kstate" assume "readW E (ContractKey a) (GetContractInfo a) st = (Ret i, s0)"
    from readW_RetD [OF this] have i: "GetContractInfo a (ks_wasm s0) = Ok i" by simp
    show "sound_at acct n (if co_admin i = '''' then lift (Err ErrNotMigratable)
      else if co_admin i \<noteq> acc_bech32 (we_sdk E) sender then lift (Err ErrUnauthorized) else ?body i) s0"
      using body [OF i] sound_atD [OF sound_lift] by (cases "co_admin i = ''''") auto
  qed
  show ?thesis
    unfolding MigrateContract_def
    by (rule sound_level [OF g InstantiateContractCosts_ge [OF u]], assumption,
        rule sound_thenDo [OF check_msg_size_sound [OF g]], rule x)
qed

text \<open>A meter of its own: what fits the meter of the caller fits the new one.\<close>

lemma new_gas_meterD: "gas_laws E \<Longrightarrow> new_gas_meter E l = \<lparr>gm_limit = l, gm_consumed = 0, gm_infinite = False\<rparr>"
  by (simp add: gas_laws_def)

lemma fits_remaining:
  assumes "fits n m" "l \<le> gm_limit m - gm_consumed m" "gas_laws E" shows "fits n (new_gas_meter E l)"
proof -
  have "unat (gm_limit m - gm_consumed m) = unat (gm_limit m) - unat (gm_consumed m)"
    using assms(1) by (simp add: fits_def unat_sub)
  with assms show ?thesis by (auto simp: fits_def new_gas_meterD word_le_nat_alt)
qed

lemma contract_gas_limit_le:
  "contract_gas_limit maxGas m \<le> gm_limit m - gm_consumed m" "contract_gas_limit maxGas m \<le> maxGas"
  by (auto simp: contract_gas_limit_def Let_def not_less)

lemma on_sub_meter_sound:
  assumes g: "gas_laws E" and b: "sound acct n body" and l: "l \<le> gm_limit (st_gas st) - gm_consumed (st_gas st)"
  shows "sound_at acct n (on_sub_meter E body evs l) st"
proof -
  let ?in = "with_gas (new_gas_meter E l) (with_events [] st)"
  obtain r sub where rs: "body ?in = (r, sub)" by fastforce
  let ?outer = "with_gas (st_gas st) (with_events (st_events st) sub)"
  let ?k = "\<lambda>a. thenDo (onGas (consume_gas E (gm_consumed (st_gas sub)))) (\<lambda>_.
    thenDo (emitEvents (evs a @ st_events sub)) (\<lambda>_. give a))"
  show ?thesis
    unfolding sound_at_def
  proof (intro allI impI)
    fix q st' assume ac: "accounted acct (ks_wasm st) (h_rest (ks_host st))" and e: "on_sub_meter E body evs l st = (q, st')"
    have ok: "ok_result acct n ?in r sub" using b rs ac unfolding sound_def sound_at_def by simp
    have "r = Unfinished \<Longrightarrow> \<not> fits n (st_gas st)"
      using ok fits_remaining [OF _ l g, of n] by (auto simp: ok_result_def)
    then have bk: "ok_result acct n st r ?outer"
      using ok by (simp add: ok_result_def)
    have e': "thenDo (\<lambda>s. (r, s)) ?k ?outer = (q, st')"
      using e rs by (simp add: on_sub_meter_def)
    from e' show "ok_result acct n st q st'"
    proof (cases rule: thenDo_cases)
      case (ret a s1)
      then have s1: "s1 = ?outer" "r = Ret a" by auto
      have "accounted acct (ks_wasm s1) (h_rest (ks_host s1))"
        using bk s1 unfolding ok_result_def by (metis implements_accounted)
      moreover have "sound acct n (?k a)" by (intro sound_intros g)
      ultimately have "ok_result acct n s1 q st'" using ret(2) unfolding sound_def sound_at_def by blast
      moreover have "ok_result acct n st (Ret a) s1" using bk s1 by simp
      ultimately show ?thesis by (rule ok_result_trans [rotated])
    qed (use bk in \<open>auto simp: ok_result_def\<close>)
  qed
qed

lemma with_sub_meter_sound:
  assumes g: "gas_laws E" and b: "sound acct n body"
  shows "sound acct n (with_sub_meter E body evs)"
  unfolding with_sub_meter_def
proof (rule sound_thenDo [OF sound_readW [OF g]], rule soundI)
  fix maxGas and st :: "'a kstate"
  show "sound_at acct n (\<lambda>st. on_sub_meter E body evs (contract_gas_limit maxGas (st_gas st)) st) st"
    using on_sub_meter_sound [OF g b contract_gas_limit_le(1)] by (simp add: sound_at_def)
qed

lemma bech32_not_empty:
  assumes "no_empty_addr S" "acc_of_bech32 S a = Ok x" shows "a \<noteq> ''''"
  using assms by (auto simp: no_empty_addr_def)

lemma admin_write_sound:
  assumes g: "gas_laws E" and "GetContractInfo a (ks_wasm st) = Ok i" "co_admin i \<noteq> ''''"
  shows "sound_at acct n (thenDo (writeW E ks (SetContractInfo a (i\<lparr>co_admin := new\<rparr>))) (\<lambda>_. thenDo (emitEvents es) (\<lambda>_. give r))) st"
proof -
  have tail: "sound acct n (thenDo (emitEvents es) (\<lambda>_. give r))" by (intro sound_intros)
  have "implements acct (ks_wasm st) x (SetContractInfo a (i\<lparr>co_admin := new\<rparr>) (ks_wasm st)) x"
    if "accounted acct (ks_wasm st) x" for x
    using writes_implement(5,6) [OF that] assms(2,3) by (cases "new = ''''") auto
  then show ?thesis
    by (rule sound_at_thenDo [OF sound_at_writeW [OF g] sound_atD [OF tail]])
qed

lemma msg_UpdateContractAdmin_sound:
  assumes L: "wasm_laws acct E" shows "sound acct n (msg_UpdateContractAdmin E msg)"
proof (rule soundI)
  fix st :: "'a kstate"
  note g = wasm_lawsD(1) [OF L] and ne = bech32_not_empty [OF wasm_lawsD(6) [OF L]]
  show "sound_at acct n (msg_UpdateContractAdmin E msg) st"
    unfolding msg_UpdateContractAdmin_def
    by (intro sound_at_thenDo sound_atD [OF sound_lift] sound_atD [OF sound_readW [OF g]])
      (auto simp: lift_Ret readW_Ret intro!: admin_write_sound [OF g] sound_atD [OF sound_lift] dest: ne)
qed

lemma msg_ClearContractAdmin_sound:
  assumes L: "wasm_laws acct E" shows "sound acct n (msg_ClearContractAdmin E msg)"
proof (rule soundI)
  fix st :: "'a kstate"
  note g = wasm_lawsD(1) [OF L] and ne = bech32_not_empty [OF wasm_lawsD(6) [OF L]]
  show "sound_at acct n (msg_ClearContractAdmin E msg) st"
    unfolding msg_ClearContractAdmin_def
    by (intro sound_at_thenDo sound_atD [OF sound_lift] sound_atD [OF sound_readW [OF g]])
      (auto simp: lift_Ret readW_Ret intro!: admin_write_sound [OF g] sound_atD [OF sound_lift] dest: ne)
qed

lemma msg_server_sound:
  assumes L: "wasm_laws acct E" and d: "\<And>a ms. sound acct n (disp a ms)"
  shows "sound acct (Suc n) (msg_server E disp c m)"
proof (cases m)
  case (WStoreCode x)
  have "sound acct (Suc n) (msg_StoreCode E x)"
    unfolding msg_StoreCode_def by (intro sound_intros StoreCode_sound wasm_lawsD(1) [OF L])
  with WStoreCode show ?thesis by simp
next
  case (WMigrateCode x)
  have "sound acct (Suc n) (msg_MigrateCode E x)"
    unfolding msg_MigrateCode_def by (intro sound_intros MigrateCode_sound wasm_lawsD(1) [OF L])
  with WMigrateCode show ?thesis by simp
next
  case (WInstantiate x)
  have "sound acct (Suc n) (msg_InstantiateContract E disp c x)"
    unfolding msg_InstantiateContract_def case_prod_beta
    by (intro sound_intros with_sub_meter_sound InstantiateContract_sound [OF L d] wasm_lawsD(1) [OF L])
  with WInstantiate show ?thesis by simp
next
  case (WExecute x)
  have "sound acct (Suc n) (msg_ExecuteContract E disp c x)"
    unfolding msg_ExecuteContract_def
    by (intro sound_intros with_sub_meter_sound ExecuteContract_sound [OF L d] wasm_lawsD(1) [OF L])
  with WExecute show ?thesis by simp
next
  case (WMigrate x)
  have "sound acct (Suc n) (msg_MigrateContract E disp c x)"
    unfolding msg_MigrateContract_def
    by (intro sound_intros with_sub_meter_sound MigrateContract_sound [OF L d] wasm_lawsD(1) [OF L])
  with WMigrate show ?thesis by simp
qed (use msg_UpdateContractAdmin_sound [OF L] msg_ClearContractAdmin_sound [OF L] in auto)

text \<open>The event manager is of no account.\<close>

lemma ok_result_events [simp]:
  "ok_result acct n (with_events es st) r st' \<longleftrightarrow> ok_result acct n st r st'"
  "ok_result acct n st r (with_events es st') \<longleftrightarrow> ok_result acct n st r st'"
  by (simp_all add: ok_result_def)

lemma ok_result_map:
  assumes "ok_result acct n st r s1" "thenDo (\<lambda>s. (r, s)) (\<lambda>a. give (f a)) s1 = (q, st')"
  shows "ok_result acct n st q st'"
  using assms(2)
proof (cases rule: thenDo_cases)
  case (ret a s2)
  with assms(1) show ?thesis by (auto simp: give_def ok_result_def)
qed (use assms(1) in \<open>auto simp: ok_result_def\<close>)

lemma routed_sound:
  assumes "sound acct n f" shows "sound acct n (routed E f)"
  unfolding sound_def sound_at_def
proof (intro allI impI)
  fix st :: "'a kstate" and q st'
  assume ac: "accounted acct (ks_wasm st) (h_rest (ks_host st))" and e: "routed E f st = (q, st')"
  obtain r s1 where r: "f (with_events [] st) = (r, s1)" by fastforce
  have "ok_result acct n (with_events [] st) r s1"
    using sound_atD [OF assms, of "with_events [] st"] r ac unfolding sound_at_def by simp
  then have "ok_result acct n st r (with_events (st_events st) s1)" by simp
  then show "ok_result acct n st q st'"
    by (rule ok_result_map) (use e r in \<open>simp add: routed_def\<close>)
qed

lemma run_program_sound:
  assumes ms: "\<And>m. sound acct n (ms m)"
  shows "program_ok acct p h0 \<Longrightarrow> accounted acct w (h_rest h0) \<Longrightarrow> run_program p ms w = (r, st') \<Longrightarrow>
    ok_result acct n \<lparr>ks_wasm = w, ks_host = h0\<rparr> r st'"
proof (induction p arbitrary: h0 w r st')
  case (Stop q h)
  then show ?case
    by (auto simp: ok_result_def host_le_def st_gas_def intro!: implements_rest)
next
  case (Route m h k)
  let ?s0 = "\<lparr>ks_wasm = w, ks_host = h0\<rparr>" and ?s1 = "\<lparr>ks_wasm = w, ks_host = h\<rparr>"
  from Route.prems(1) have hl: "host_le acct h0 h" "within (h_gas h0) \<Longrightarrow> within (h_gas h)"
    and k: "\<And>q h'. host_le acct h h' \<Longrightarrow> program_ok acct (k q h') h'" by auto
  have 1: "ok_result acct n ?s0 (Ret ()) ?s1"
    using hl Route.prems(2) by (auto simp: ok_result_def host_le_def st_gas_def intro!: implements_rest)
  obtain q s2 where q: "ms m ?s1 = (q, s2)" by fastforce
  have ac1: "accounted acct w (h_rest h)" using hl(1) Route.prems(2) by (auto simp: host_le_def accounted_def)
  with ms [of m] q have 2: "ok_result acct n ?s1 q s2" unfolding sound_def sound_at_def by simp
  have next_ok: "ok_result acct n ?s0 r st'" if ret: "returns q"
    and run: "run_program (k y (ks_host s2)) ms (ks_wasm s2) = (r, st')" and y: "y \<in> range Ok \<union> range Err" for y
  proof -
    have hs: "host_le acct h (ks_host s2)" "accounted acct (ks_wasm s2) (h_rest (ks_host s2))"
      using 2 by (auto simp: ok_result_def host_le_def implements_def st_gas_def)
    have "ok_result acct n \<lparr>ks_wasm = ks_wasm s2, ks_host = ks_host s2\<rparr> r st'"
      using Route.IH [OF _ _ k [OF hs(1)] hs(2) run] by auto
    then have 3: "ok_result acct n s2 r st'" by (simp add: ok_result_def st_gas_def)
    have "ok_result acct n ?s1 (Ret ()) s2" using 2 ret by (simp add: ok_result_def)
    from ok_result_trans [OF 1 ok_result_trans [OF this 3]] show ?thesis .
  qed
  show ?case
  proof (cases q)
    case (Ret a)
    with q Route.prems(3) next_ok [of "Ok a"] show ?thesis by simp
  next
    case (Fail e)
    with q Route.prems(3) next_ok [of "Err e"] show ?thesis by simp
  qed (use q Route.prems(3) ok_result_trans [OF 1 2] in auto)
qed

lemma route_msg_sound:
  assumes L: "wasm_laws acct E" and d: "\<And>a ms. sound acct n (disp a ms)"
  shows "sound acct (Suc n) (route_msg E disp c msg)"
proof -
  let ?ms = "\<lambda>m. routed E (msg_server E disp c m)"
  have ms: "sound acct (Suc n) (?ms m)" for m by (intro routed_sound msg_server_sound L d)
  have other: "sound acct (Suc n) (case module_handler E c msg of None \<Rightarrow> lift (Err ErrUnknownRequest)
        | Some p \<Rightarrow> (\<lambda>st. case run_program (p (ks_host (with_events [] st))) ?ms (ks_wasm st) of
              (r, st') \<Rightarrow> (r, with_events (st_events st) st')))"
  proof (cases "module_handler E c msg")
    case (Some p)
    have "ok_result acct (Suc n) st r s1"
      if ac: "accounted acct (ks_wasm st) (h_rest (ks_host st))"
        and r: "run_program (p (ks_host (with_events [] st))) ?ms (ks_wasm st) = (r, s1)" for st r s1
    proof -
      have "ok_result acct (Suc n) \<lparr>ks_wasm = ks_wasm st, ks_host = ks_host (with_events [] st)\<rparr> r s1"
        using run_program_sound [where ms = ?ms, OF ms host_lawsD(7) [OF wasm_lawsD(3) [OF L] Some] _ r] ac by simp
      then show ?thesis by (simp add: ok_result_def st_gas_def with_events_def)
    qed
    with Some show ?thesis by (auto simp: sound_def sound_at_def split: prod.splits)
  qed simp
  show ?thesis
    unfolding route_msg_def using ms other by (cases msg) simp_all
qed

lemma soundD:
  "sound acct n f \<Longrightarrow> f st = (r, st') \<Longrightarrow> accounted acct (ks_wasm st) (h_rest (ks_host st)) \<Longrightarrow> ok_result acct n st r st'"
  by (simp add: sound_def sound_at_def)

lemma handleSdkMessage_sound:
  "(\<And>m. sound acct n (h m)) \<Longrightarrow> sound acct n (handleSdkMessage E h a m)"
  unfolding handleSdkMessage_def by (intro sound_intros)

lemma deduct_tax_sound:
  assumes "host_laws acct E" shows "sound acct n (deduct_tax E a taxes)"
  unfolding sound_def sound_at_def
proof (intro allI impI)
  fix st :: "'a kstate" and q st'
  assume ac: "accounted acct (ks_wasm st) (h_rest (ks_host st))" and e: "deduct_tax E a taxes st = (q, st')"
  obtain r s1 where r: "onHost (deduct_fees E a taxes) (with_events [] st) = (r, s1)" by fastforce
  have "ok_result acct n (with_events [] st) r s1"
    by (rule soundD [OF sound_onHost [OF host_lawsD(4) [OF assms]] r]) (simp add: ac)
  then have s1: "ok_result acct n st r (with_events (st_events st) s1)" by simp
  show "ok_result acct n st q st'"
  proof (cases "coins_is_zero (we_sdk E) taxes")
    case True
    with e ac show ?thesis by (auto simp: deduct_tax_def ok_result_def)
  next
    case False
    show ?thesis by (rule ok_result_map [OF s1]) (use e r False in \<open>simp add: deduct_tax_def\<close>)
  qed
qed

lemma dispatchMessage_sound:
  assumes h: "\<And>m. sound acct n (h m)" and H: "host_laws acct E"
  shows "sound acct n (dispatchMessage E h a msg)"
proof -
  have x: "sound acct n (case parsed of None \<Rightarrow> lift (Err ErrInvalidMsg)
    | Some sdkMsg \<Rightarrow> (\<lambda>st.
        thenDo (lift (FilterMsgAndComputeTax (we_sdk E) (we_bond E) (tax_rate E (h_rest (ks_host st)))
                  (tax_cap E (h_rest (ks_host st))) [tx_view E sdkMsg])) (\<lambda>taxes.
        thenDo (deduct_tax E a taxes) (\<lambda>taxEvents.
        thenDo (handleSdkMessage E h a sdkMsg) (\<lambda>(data, events).
        give (taxEvents @ events, data)))) st))" for parsed
  proof (cases parsed)
    case (Some m)
    have "sound acct n (thenDo (lift y) (\<lambda>taxes. thenDo (deduct_tax E a taxes) (\<lambda>taxEvents.
        thenDo (handleSdkMessage E h a m) (\<lambda>(data, events). give (taxEvents @ events, data)))))" for y
      unfolding case_prod_beta by (intro sound_intros deduct_tax_sound H handleSdkMessage_sound h)
    then show ?thesis unfolding Some option.case sound_def sound_at_def by blast
  qed simp
  show ?thesis
    unfolding dispatchMessage_def by (rule sound_thenDo [OF sound_lift x])
qed

lemma ok_result_back:
  assumes g: "gas_laws E" and ok: "ok_result acct n (with_gas (new_gas_meter E l) st) r s1"
    and l: "l \<le> gm_limit (st_gas st) - gm_consumed (st_gas st)"
  shows "ok_result acct n st r (with_gas (st_gas st) s1)"
  using ok fits_remaining [OF _ l g, of n] by (auto simp: ok_result_def)

lemma limited_dispatch_sound:
  assumes h: "\<And>m. sound acct n (h m)" and H: "host_laws acct E" and g: "gas_laws E"
    and l: "l \<le> gm_limit (st_gas st) - gm_consumed (st_gas st)"
  shows "sound_at acct n (limited_dispatch E h a msg l) st"
  unfolding sound_at_def
proof (intro allI impI)
  fix q st' assume ac: "accounted acct (ks_wasm st) (h_rest (ks_host st))" and e: "limited_dispatch E h a msg l st = (q, st')"
  let ?in = "with_gas (new_gas_meter E l) st"
  obtain r s1 where r: "dispatchMessage E h a msg ?in = (r, s1)" by fastforce
  have "ok_result acct n ?in r s1"
    by (rule soundD [OF dispatchMessage_sound [where h = h, OF h H] r]) (simp add: ac)
  then have ok: "ok_result acct n st r (with_gas (st_gas st) s1)" by (rule ok_result_back [OF g _ l])
  show "ok_result acct n st q st'"
  proof (cases "returns r")
    case True
    let ?b = "with_gas (st_gas st) s1"
    have e': "thenDo (onGas (consume_gas E (gm_consumed (st_gas s1)))) (\<lambda>_ s. (r, s)) ?b = (q, st')"
      using e r True by (cases r) (simp_all add: limited_dispatch_def Let_def)
    obtain y s2 where y: "onGas (consume_gas E (gm_consumed (st_gas s1))) ?b = (y, s2)" by fastforce
    have "accounted acct (ks_wasm ?b) (h_rest (ks_host ?b))" using ok unfolding ok_result_def by (blast intro: implements_accounted)
    then have 2: "ok_result acct n ?b y s2" by (rule soundD [OF sound_consume [OF g] y])
    have "ok_result acct n st (Ret ()) ?b" using ok True by (simp add: ok_result_def)
    from ok_result_trans [OF this 2] have 3: "ok_result acct n st y s2" .
    from e' show ?thesis
    proof (cases rule: thenDo_cases)
      case (ret v s3)
      with y 3 True show ?thesis by (auto simp: ok_result_def)
    qed (use y 3 in \<open>auto simp: ok_result_def\<close>)
  next
    case False
    with e r have "q = r \<and> st' = with_gas (st_gas st) s1" by (cases r) (auto simp: limited_dispatch_def Let_def)
    with ok show ?thesis by simp
  qed
qed

lemma dispatchMessageWithGasLimit_sound:
  assumes h: "\<And>m. sound acct n (h m)" and H: "host_laws acct E" and g: "gas_laws E"
    and l: "l \<le> gm_limit (st_gas st) - gm_consumed (st_gas st)"
  shows "sound_at acct n (dispatchMessageWithGasLimit E h a msg l) st"
  unfolding sound_at_def
proof (intro allI impI)
  fix q st'
  assume ac: "accounted acct (ks_wasm st) (h_rest (ks_host st))" and e: "dispatchMessageWithGasLimit E h a msg l st = (q, st')"
  obtain r s1 where r: "limited_dispatch E h a msg l st = (r, s1)" by fastforce
  have ok: "ok_result acct n st r s1"
    using limited_dispatch_sound [where h = h, OF h H g l] r ac unfolding sound_at_def by blast
  show "ok_result acct n st q st'"
  proof (cases "r = OutOfGas")
    case True
    with e r have s: "thenDo (onGas (consume_gas E l)) (\<lambda>_. lift (Err ErrOutOfGas)) s1 = (q, st')"
      by (simp add: dispatchMessageWithGasLimit_def)
    show ?thesis
      by (rule ok_result_jump [OF g _ _ _ s]) (use ok in \<open>simp_all add: ok_result_def\<close>)
  next
    case False
    with e r have "q = r" "st' = s1" by (cases r; simp add: dispatchMessageWithGasLimit_def)+
    with ok show ?thesis by simp
  qed
qed

lemma dispatch_sub_sound:
  assumes h: "\<And>m. sound acct n (h m)" and H: "host_laws acct E" and g: "gas_laws E"
  shows "sound acct n (dispatch_sub E h a msg)"
  unfolding sound_def sound_at_def
proof (intro allI impI)
  fix st q st'
  assume ac: "accounted acct (ks_wasm st) (h_rest (ks_host st))" and e: "dispatch_sub E h a msg st = (q, st')"
  let ?sub = "with_events [] st" and ?rem = "gm_limit (st_gas st) - gm_consumed (st_gas st)"
  let ?run = "case sm_gas_limit msg of
             Some l \<Rightarrow> if l < ?rem then dispatchMessageWithGasLimit E h a (sm_msg msg) l ?sub
                      else dispatchMessage E h a (sm_msg msg) ?sub
           | None \<Rightarrow> dispatchMessage E h a (sm_msg msg) ?sub"
  obtain r s1 where r: "?run = (r, s1)" by fastforce
  have d: "sound_at acct n (dispatchMessage E h a (sm_msg msg)) ?sub"
    by (rule sound_atD [OF dispatchMessage_sound [where h = h, OF h H]])
  have w: "sound_at acct n (dispatchMessageWithGasLimit E h a (sm_msg msg) l) ?sub" if "l < ?rem" for l
    using that by (intro dispatchMessageWithGasLimit_sound h H g) simp
  have "ok_result acct n ?sub r s1"
    using r ac d w unfolding sound_at_def by (auto split: option.splits if_splits)
  then have ok: "ok_result acct n st r s1" by simp
  have undo: "ok_result acct n st v (with_gas (st_gas s1) st)"
    if "returns v \<Longrightarrow> returns r" "v = Unfinished \<Longrightarrow> r = Unfinished" for v :: "(event list \<times> bytes) outcome call"
    using ok that ac by (auto simp: ok_result_def)
  show "ok_result acct n st q st'"
  proof (cases r)
    case (Ret v)
    with e r ok show ?thesis by (cases v) (auto simp: dispatch_sub_def Let_def ok_result_def)
  next
    case (Fail err)
    with e r undo [of "Ret (Err err)"] show ?thesis by (auto simp: dispatch_sub_def Let_def)
  next
    case OutOfGas
    with e r undo [of OutOfGas] show ?thesis by (auto simp: dispatch_sub_def Let_def)
  next
    case Crash
    with e r undo [of Crash] show ?thesis by (auto simp: dispatch_sub_def Let_def)
  next
    case Unfinished
    with e r undo [of Unfinished] show ?thesis by (auto simp: dispatch_sub_def Let_def)
  qed
qed

lemma dispatchMessages_sound:
  assumes h: "\<And>m. sound acct n (h m)" and R: "\<And>a x. sound acct n (rep a x)" and H: "host_laws acct E" and g: "gas_laws E"
  shows "sound acct n (dispatchMessages E h rep a msgs resp)"
proof (induction msgs arbitrary: resp)
  case Nil
  show ?case by simp
next
  case (Cons m ms)
  let ?reply = "\<lambda>res. thenDo (rep a \<lparr>rp_id = sm_id m, rp_result = subcall_of E res\<rparr>) (\<lambda>replyData.
         dispatchMessages E h rep a ms (if replyData \<noteq> None then replyData else resp))"
  have again: "sound acct n (?reply res)" for res by (intro sound_thenDo R Cons.IH)
  have "sound acct n (case res of
       Err e \<Rightarrow> if sm_reply_on m = ReplySuccess \<or> sm_reply_on m = ReplyNever then lift (Err e) else ?reply res
     | _ \<Rightarrow> if sm_reply_on m = ReplyNever \<or> sm_reply_on m = ReplyError then dispatchMessages E h rep a ms resp else ?reply res)" for res
    using again Cons.IH by (cases res) auto
  then have "sound acct n (thenDo (dispatch_sub E h a m) (\<lambda>res. case res of
       Err e \<Rightarrow> if sm_reply_on m = ReplySuccess \<or> sm_reply_on m = ReplyNever then lift (Err e) else ?reply res
     | _ \<Rightarrow> if sm_reply_on m = ReplyNever \<or> sm_reply_on m = ReplyError then dispatchMessages E h rep a ms resp else ?reply res))"
    by (intro sound_thenDo dispatch_sub_sound [where h = h] h H g)
  then show ?case by simp
qed

lemma calls_sound:
  assumes L: "wasm_laws acct E"
  shows "sound acct n (route E c n msg)" "sound acct n (snd (calls E c n) a rep)"
proof (induction n arbitrary: msg a rep)
  case 0
  case 1 show ?case by (auto simp: sound_def sound_at_def ok_result_def calls.simps fits_def)
  case 2 show ?case by (auto simp: sound_def sound_at_def ok_result_def calls.simps fits_def)
next
  case (Suc n)
  have d: "sound acct n (dispatchMessages E (route E c n) (snd (calls E c n)) a ms None)" for a ms
    by (intro dispatchMessages_sound Suc wasm_lawsD [OF L])
  case 1 show ?case unfolding calls.simps Let_def fst_conv by (rule route_msg_sound [OF L d])
  case 2 show ?case unfolding calls.simps Let_def snd_conv by (rule reply_sound [OF L d])
qed

end
