(* ===== verification/WasmRef.thy ===== *)
theory WasmRef
  imports WasmSound
begin

text \<open>
  An instance of the code that \<open>src/x/wasm\<close> calls, with the proof that it satisfies the laws, and a
  small chain with two contracts on which the witnesses compute.
\<close>

section \<open>An instance of the code the module calls\<close>

text \<open>
  The witnesses compute on this instance: accounts are a list of addresses, the meter and the unsigned
  integers are the documented ones, and a contract called with the message \<open>[1]\<close> fails while any
  other call returns an empty response.
\<close>

definition meter_consume :: "u64 \<Rightarrow> (gas_meter, unit) action" where
  "meter_consume a m =
    (if 2 ^ 64 \<le> unat (gm_consumed m) + unat a then (Crash, m\<lparr>gm_consumed := - 1\<rparr>)
     else if \<not> gm_infinite m \<and> gm_limit m < gm_consumed m + a
     then (OutOfGas, m\<lparr>gm_consumed := gm_consumed m + a\<rparr>)
     else (Ret (), m\<lparr>gm_consumed := gm_consumed m + a\<rparr>))"

definition no_response :: vm_response where
  "no_response = \<lparr>vr_messages = [], vr_data = None, vr_attributes = [], vr_events = []\<rparr>"

definition ref_run :: "bytes \<Rightarrow> vm_response vm_run" where
  "ref_run msg s api q m l = (if msg = [1] then Err ErrExecuteFailed else Ok no_response, 0, s, m)"

definition byte_char :: "8 word \<Rightarrow> char" where
  "byte_char b = char_of (unat b)"

definition wasm_ref :: "(addr list, unit) wasm_env" where
  "wasm_ref = \<lparr>we_sdk = sdk_ref, we_bond = ''uluna'',
     new_gas_meter = (\<lambda>l. \<lparr>gm_limit = l, gm_consumed = 0, gm_infinite = False\<rparr>),
     consume_gas = meter_consume,
     is_out_of_gas = (\<lambda>m. \<not> gm_infinite m \<and> gm_limit m \<le> gm_consumed m),
     read_gas = (\<lambda>k w. meter_consume 1), write_gas = (\<lambda>k w. meter_consume 2),
     uint_add = (\<lambda>a b. if 0 \<le> a + b \<and> a + b < 2 ^ 256 then Ok (a + b) else Panic),
     uint_mul = (\<lambda>a b. if 0 \<le> a * b \<and> a * b < 2 ^ 256 then Ok (a * b) else Panic),
     uint_uint64 = (\<lambda>a. if 0 \<le> a \<and> a < 2 ^ 64 then Ok (word_of_int a) else Panic),
     parse_int = (\<lambda>s. Some (int (length s))), int_text = (\<lambda>n. replicate (nat n) CHR ''1''),
     verify_address = (\<lambda>b. length b = 20), addr_of_bytes = map byte_char, bytes_of_addr = map of_char,
     address_hash = map byte_char, json_valid = (\<lambda>b. True),
     json_custom = (\<lambda>b. Ok (''market'', b)),
     json_market = (\<lambda>b. Ok \<lparr>cm_swap = None, cm_swap_send = None\<rparr>),
     gzip_reads = (\<lambda>b. Ok [LastChunk b]), err_text = (\<lambda>e. ''failed''), marshal_response = (\<lambda>r. []),
     unpack_any = (\<lambda>ty b. Err ErrInvalidMsg),
     get_account = (\<lambda>a h. (Ret (a \<in> set (h_rest h)), h)),
     new_account = (\<lambda>a h. (Ret (), h\<lparr>h_rest := a # h_rest h\<rparr>)),
     send_coins = (\<lambda>f t cs h. (Ret (), h)), deduct_fees = (\<lambda>a cs h. (Ret (), h)),
     tax_rate = (\<lambda>x. 0), tax_cap = (\<lambda>x d. 0), module_validate = (\<lambda>m. Ok ()),
     module_signers = (\<lambda>m. case m of BankSend f t cs \<Rightarrow> Ok [f] | StakingDelegate a v c \<Rightarrow> Ok [a]
       | StakingRedelegate a s d c \<Rightarrow> Ok [a] | StakingUndelegate a v c \<Rightarrow> Ok [a] | DistrSetWithdraw a r \<Rightarrow> Ok [a]
       | DistrWithdraw a v \<Rightarrow> Ok [a] | GovVote p a v \<Rightarrow> Ok [a] | _ \<Rightarrow> Ok []),
     module_view = (\<lambda>m. MsgOther), module_handler = (\<lambda>c m. None),
     module_query = (\<lambda>n r c x m. (Ret None, m)), custom_query = (\<lambda>n. None), stargate_query = (\<lambda>n. None),
     json_query = (\<lambda>b. Ok (''wasm'', b)), json_contract_query = (\<lambda>b. Ok None), json_contract_info = (\<lambda>i. Ok []),
     vm_create = (\<lambda>b. Ok [1]), vm_get_code = (\<lambda>b. Ok []),
     vm_instantiate = (\<lambda>h e i. ref_run), vm_execute = (\<lambda>h e i. ref_run), vm_migrate = (\<lambda>h e. ref_run),
     vm_reply_call = (\<lambda>h e r. ref_run []), vm_query = (\<lambda>h e b s api q m l. (Ok [], 0, s, m))\<rparr>"

lemma wasm_ref_sel [simp]:
  "we_sdk wasm_ref = sdk_ref" "we_bond wasm_ref = ''uluna''"
  "new_gas_meter wasm_ref l = \<lparr>gm_limit = l, gm_consumed = 0, gm_infinite = False\<rparr>"
  "consume_gas wasm_ref = meter_consume"
  "read_gas wasm_ref k w = meter_consume 1" "write_gas wasm_ref k w = meter_consume 2"
  "is_out_of_gas wasm_ref m \<longleftrightarrow> \<not> gm_infinite m \<and> gm_limit m \<le> gm_consumed m"
  "uint_add wasm_ref i j = (if 0 \<le> i + j \<and> i + j < 2 ^ 256 then Ok (i + j) else Panic)"
  "uint_mul wasm_ref i j = (if 0 \<le> i * j \<and> i * j < 2 ^ 256 then Ok (i * j) else Panic)"
  "uint_uint64 wasm_ref i = (if 0 \<le> i \<and> i < 2 ^ 64 then Ok (word_of_int i) else Panic)"
  "address_hash wasm_ref = map byte_char" "marshal_response wasm_ref resp = []"
  "get_account wasm_ref a ho = (Ret (a \<in> set (h_rest ho)), ho)"
  "new_account wasm_ref a ho = (Ret (), ho\<lparr>h_rest := a # h_rest ho\<rparr>)"
  "send_coins wasm_ref f t cs ho = (Ret (), ho)" "deduct_fees wasm_ref a cs ho = (Ret (), ho)"
  "module_validate wasm_ref msg = Ok ()" "module_signers wasm_ref (BankSend f t cs) = Ok [f]"
  "module_handler wasm_ref c msg = None"
  "vm_execute wasm_ref h e info = ref_run" "vm_instantiate wasm_ref h e info = ref_run"
  "vm_migrate wasm_ref h e = ref_run" "vm_reply_call wasm_ref h e r = ref_run []"
  by (simp_all add: wasm_ref_def)

definition has_account :: "addr list \<Rightarrow> addr \<Rightarrow> bool" where
  "has_account x a \<longleftrightarrow> a \<in> set x"

lemma wasm_ref_laws: "wasm_laws has_account wasm_ref"
proof -
  have "access_ok (meter_consume a)" for a
    unfolding access_ok_def meter_ok_def meter_consume_def
    by (auto simp: meter_le_def within_def not_less word_le_nat_alt max_word_max [unfolded word_le_nat_alt] unat_word_ariths
        split: if_splits)
  then have "gas_laws wasm_ref" by (simp add: gas_laws_def meter_consume_def)
  moreover have "uint_laws wasm_ref" by (simp add: uint_laws_def)
  moreover have "host_laws has_account wasm_ref"
    by (auto simp: host_laws_def host_ok_def host_le_def meter_le_def has_account_def)
  moreover have "vm_laws wasm_ref"
    by (simp add: vm_laws_def vm_ok_def ref_run_def meter_le_def)
  moreover have "no_empty_addr sdk_ref" by (simp add: no_empty_addr_def)
  ultimately show ?thesis by (simp add: wasm_laws_def sdk_ref_laws)
qed

lemma wasm_ref_signers: "signer_laws wasm_ref"
  by (simp add: signer_laws_def wasm_ref_def)

lemma byte_char_inj: "inj (map byte_char)"
proof -
  have "inj byte_char"
  proof (rule injI)
    fix a b assume "byte_char a = byte_char b"
    then have "unat a mod 256 = unat b mod 256" unfolding byte_char_def by (metis of_char_of)
    moreover have "unat x < 256" for x :: "8 word" using unsigned_less [of x] by simp
    ultimately show "a = b" by (simp add: word_unat_eq_iff)
  qed
  then show ?thesis by (rule inj_mapI)
qed

text \<open>A chain with two contracts of one code, the first without admin.\<close>

definition frozen_info :: contract_info where
  "frozen_info = \<lparr>co_address = ''terra1aaaaaaaaaaaaaaaaaaaa'', co_creator = ''terra1cccccccccccccccccccc'',
     co_admin = '''', co_code_id = 1, co_init_msg = []\<rparr>"

definition managed_info :: "string \<Rightarrow> contract_info" where
  "managed_info admin = \<lparr>co_address = ''terra1bbbbbbbbbbbbbbbbbbbb'', co_creator = ''terra1cccccccccccccccccccc'',
     co_admin = admin, co_code_id = 1, co_init_msg = []\<rparr>"

definition chain_store :: "string \<Rightarrow> wasm_store" where
  "chain_store admin =
    \<lparr>ws_params = \<lparr>MaxContractSize = 1000, MaxContractGas = 100000000, MaxContractMsgSize = 1000\<rparr>,
     ws_last_code = Some 1, ws_last_instance = Some 2,
     ws_codes = [(1, \<lparr>ci_code_id = 1, ci_hash = [1], ci_creator = ''terra1cccccccccccccccccccc''\<rparr>)],
     ws_contracts = [(''aaaaaaaaaaaaaaaaaaaa'', frozen_info), (''bbbbbbbbbbbbbbbbbbbb'', managed_info admin)],
     ws_stores = []\<rparr>"

definition chain_accounts :: "addr list" where
  "chain_accounts = [''aaaaaaaaaaaaaaaaaaaa'', ''bbbbbbbbbbbbbbbbbbbb'']"

definition chain_ctx :: wasm_ctx where
  "chain_ctx = \<lparr>ctx_height = 5, ctx_chain = ''columbus-5'', ctx_nanos = 0, ctx_depth = None\<rparr>"

definition chain_state :: "string \<Rightarrow> addr list kstate" where
  "chain_state admin = \<lparr>ks_wasm = chain_store admin,
     ks_host = \<lparr>h_rest = chain_accounts, h_gas = \<lparr>gm_limit = 1000000, gm_consumed = 10, gm_infinite = False\<rparr>, h_events = []\<rparr>\<rparr>"

definition pass_on :: wasm_msg where
  "pass_on = WUpdateAdmin \<lparr>mu_admin = ''terra1dddddddddddddddddddd'', mu_new_admin = ''terra1eeeeeeeeeeeeeeeeeeee'',
     mu_contract = ''terra1bbbbbbbbbbbbbbbbbbbb''\<rparr>"

definition failing_call :: wasm_msg where
  "failing_call = WExecute \<lparr>me_sender = ''terra1dddddddddddddddddddd'', me_contract = ''terra1bbbbbbbbbbbbbbbbbbbb'',
     me_msg = [1], me_coins = []\<rparr>"

lemma chain_accounted: "accounted has_account (chain_store admin) chain_accounts"
  by (simp add: accounted_def has_account_def chain_store_def chain_accounts_def)

lemma pass_on_server:
  "\<exists>st'. msg_server wasm_ref disp chain_ctx pass_on (chain_state ''terra1dddddddddddddddddddd'') = (Ret UpdateAdminResponse, st')
     \<and> ks_wasm st' = chain_store ''terra1eeeeeeeeeeeeeeeeeeee'' \<and> h_rest (ks_host st') = chain_accounts"
  by (simp add: pass_on_def chain_state_def chain_store_def msg_UpdateContractAdmin_def thenDo_def readW_def writeW_def
      readK_def onGas_def meter_consume_def st_gas_def with_gas_def
      GetContractInfo_def SetContractInfo_def managed_info_def emitEvents_def give_def with_events_def)

end
