(* ===== verification/Wasm.thy ===== *)
theory Wasm
  imports WasmRef
begin

text \<open>
  The properties of \<open>src/x/wasm\<close>: the registry of codes and contracts over whole chains of messages,
  the bound on nested calls, the isolation of submessages, the signer of a contract's messages, the
  addresses of contracts, and three error behaviours.
\<close>

section \<open>What the registry keeps\<close>

fun is_upload :: "registry_event \<Rightarrow> bool" where
  "is_upload (Uploaded k) = True"
| "is_upload _ = False"

definition uploads :: "registry_event list \<Rightarrow> nat" where
  "uploads es = length (filter is_upload es)"

inductive_cases registry_stepE: "registry_step s e s'"

text \<open>
  What every step of the registry keeps, every run keeps: \<open>kept\<close> relates the registry before and
  after.
\<close>

locale registry_view =
  fixes kept :: "registry \<Rightarrow> registry \<Rightarrow> bool"
  assumes kept_refl: "kept s s"
    and kept_trans: "kept s s' \<Longrightarrow> kept s' s'' \<Longrightarrow> kept s s''"
    and step_kept: "registry_step s e s' \<Longrightarrow> kept s s'"
begin

lemma run_kept: "registry_run s es s' \<Longrightarrow> kept s s'"
  by (induction rule: registry_run.induct) (auto intro: kept_refl kept_trans step_kept)

end

text \<open>A contract stays, with its address, creator and first message, and as it is when it has no admin.\<close>

definition contracts_kept :: "registry \<Rightarrow> registry \<Rightarrow> bool" where
  "contracts_kept s s' \<longleftrightarrow> (\<forall>a i. rg_contracts s a = Some i \<longrightarrow>
     (\<exists>i'. rg_contracts s' a = Some i' \<and> co_address i' = co_address i \<and> co_creator i' = co_creator i
        \<and> co_init_msg i' = co_init_msg i \<and> (co_admin i = '''' \<longrightarrow> i' = i)))"

text \<open>The code of every contract is registered.\<close>

definition codes_present :: "registry \<Rightarrow> bool" where
  "codes_present s \<longleftrightarrow> (\<forall>a i. rg_contracts s a = Some i \<longrightarrow> rg_codes s (co_code_id i) \<noteq> None)"

interpretation contract_view: registry_view contracts_kept
proof
  fix s s' s'' assume 1: "contracts_kept s s'" and 2: "contracts_kept s' s''"
  show "contracts_kept s s''" unfolding contracts_kept_def
  proof (intro allI impI)
    fix a i assume "rg_contracts s a = Some i"
    with 1 obtain i' where i': "rg_contracts s' a = Some i'" "co_address i' = co_address i"
      "co_creator i' = co_creator i" "co_init_msg i' = co_init_msg i" "co_admin i = '''' \<longrightarrow> i' = i"
      unfolding contracts_kept_def by blast
    moreover from 2 i'(1) obtain i'' where "rg_contracts s'' a = Some i''" "co_address i'' = co_address i'"
      "co_creator i'' = co_creator i'" "co_init_msg i'' = co_init_msg i'" "co_admin i' = '''' \<longrightarrow> i'' = i'"
      unfolding contracts_kept_def by blast
    ultimately show "\<exists>i''. rg_contracts s'' a = Some i'' \<and> co_address i'' = co_address i \<and> co_creator i'' = co_creator i
        \<and> co_init_msg i'' = co_init_msg i \<and> (co_admin i = '''' \<longrightarrow> i'' = i)" by metis
  qed
next
  fix s e s' assume "registry_step s e s'"
  then show "contracts_kept s s'" unfolding contracts_kept_def by (cases rule: registry_step.cases) auto
qed (simp add: contracts_kept_def)

interpretation code_view: registry_view "\<lambda>s s'. codes_present s \<longrightarrow> codes_present s'"
proof
  fix s e s' assume "registry_step s e s'"
  then show "codes_present s \<longrightarrow> codes_present s'" unfolding codes_present_def by (cases rule: registry_step.cases) auto
qed auto

lemma registry_step_code:
  assumes "registry_step s e s'" "rg_last_code s = Some n" "\<not> is_upload e \<or> unat n + 1 < 2 ^ 64"
  shows "\<exists>n'. rg_last_code s' = Some n' \<and> unat n' = unat n + (if is_upload e then 1 else 0)"
    "k \<le> n \<Longrightarrow> rg_codes s k = Some i \<Longrightarrow>
      \<exists>i'. rg_codes s' k = Some i' \<and> ci_creator i' = ci_creator i \<and> (ci_hash i \<noteq> [] \<longrightarrow> i' = i)"
proof -
  have up: "unat (n + 1) = unat n + 1 \<and> \<not> n + 1 \<le> n" if "unat n + 1 < 2 ^ 64"
    using that by (simp add: unat_word_ariths word_le_nat_alt)
  show "\<exists>n'. rg_last_code s' = Some n' \<and> unat n' = unat n + (if is_upload e then 1 else 0)"
    using assms(1) by (cases rule: registry_step.cases) (use assms(2,3) up in auto)
  show "\<exists>i'. rg_codes s' k = Some i' \<and> ci_creator i' = ci_creator i \<and> (ci_hash i \<noteq> [] \<longrightarrow> i' = i)"
    if "k \<le> n" "rg_codes s k = Some i"
    using assms(1) by (cases rule: registry_step.cases) (use that assms(2,3) up in auto)
qed

lemma registry_run_code:
  "registry_run s es s' \<Longrightarrow> rg_last_code s = Some n \<Longrightarrow> unat n + uploads es < 2 ^ 64 \<Longrightarrow>
    (\<exists>n'. rg_last_code s' = Some n' \<and> unat n' = unat n + uploads es)
    \<and> (\<forall>k i. k \<le> n \<longrightarrow> rg_codes s k = Some i \<longrightarrow>
        (\<exists>i'. rg_codes s' k = Some i' \<and> ci_creator i' = ci_creator i \<and> (ci_hash i \<noteq> [] \<longrightarrow> i' = i)))"
proof (induction rule: registry_run.induct)
  case (one s es s' e s'')
  have u: "uploads (es @ [e]) = uploads es + (if is_upload e then 1 else 0)" by (simp add: uploads_def)
  with one.prems(2) have "unat n + uploads es < 2 ^ 64" by (simp split: if_splits)
  note ih = one.IH [OF one.prems(1) this]
  then obtain n' where n': "rg_last_code s' = Some n'" "unat n' = unat n + uploads es" by blast
  have b: "\<not> is_upload e \<or> unat n' + 1 < 2 ^ 64" using u one.prems(2) n'(2) by auto
  note step = registry_step_code [OF one.hyps(2) n'(1) b]
  have "k \<le> n'" if "k \<le> n" for k using that n'(2) by (simp add: word_le_nat_alt)
  then show ?case using ih step u n'(2) by (metis (no_types, lifting) add.assoc)
qed (auto simp: uploads_def)


section \<open>Chains of messages\<close>

text \<open>
  The states a chain goes through: a message that succeeds, with any nesting, context and meter, and
  anything that other modules do in between; a message that fails leaves no trace in the stores.
\<close>

inductive chain_reach ::
  "('x \<Rightarrow> addr \<Rightarrow> bool) \<Rightarrow> ('x, 'm) wasm_env \<Rightarrow> wasm_store \<times> 'x \<Rightarrow> wasm_store \<times> 'x \<Rightarrow> bool"
  for acct E s where
  start: "chain_reach acct E s s"
| message: "chain_reach acct E s (w, x) \<Longrightarrow>
    route E c n msg \<lparr>ks_wasm = w, ks_host = \<lparr>h_rest = x, h_gas = m, h_events = []\<rparr>\<rparr> = (Ret d, st') \<Longrightarrow>
    chain_reach acct E s (ks_wasm st', h_rest (ks_host st'))"
| other: "chain_reach acct E s (w, x) \<Longrightarrow> (\<And>a. acct x a \<Longrightarrow> acct x' a) \<Longrightarrow> chain_reach acct E s (w, x')"

lemma chain_implements:
  assumes L: "wasm_laws acct E" and ac: "accounted acct (fst s) (snd s)" and r: "chain_reach acct E s t"
  shows "implements acct (fst s) (snd s) (fst t) (snd t)"
  using r
proof induction
  case start
  show ?case using ac by simp
next
  case (message w x c n msg m d st')
  have i: "implements acct (fst s) (snd s) w x" using message.IH by simp
  have "ok_result acct n \<lparr>ks_wasm = w, ks_host = \<lparr>h_rest = x, h_gas = m, h_events = []\<rparr>\<rparr> (Ret d) st'"
    by (rule soundD [OF calls_sound(1) [OF L] message.hyps(2)]) (simp add: implements_accounted [OF i])
  then have "implements acct w x (ks_wasm st') (h_rest (ks_host st'))" by (simp add: ok_result_def)
  with i show ?case by (simp add: implements_trans)
next
  case (other w x x')
  have i: "implements acct (fst s) (snd s) w x" using other.IH by simp
  have "implements acct w x w x'"
    by (rule implements_rest) (use other.hyps implements_accounted [OF i] in auto)
  with i show ?case by (simp add: implements_trans)
qed

text \<open>
  C4: The module implements the registry: whatever messages a chain runs, whatever the contracts do
  when they are called, dispatch and reply, and however their calls nest, the codes and contracts
  change only by the steps of the registry - upload of a new code, one filling-in of an empty code,
  creation at a free address, migration and change of admin by the admin.
\<close>

theorem wasm_refines_registry:
  assumes "wasm_laws acct E" "accounted acct w x" "chain_reach acct E (w, x) (w', x')"
  shows "(\<exists>es. registry_run (registry_of w) es (registry_of w')) \<and> accounted acct w' x' \<and> ws_params w' = ws_params w"
  using chain_implements [OF assms(1) _ assms(3)] assms(2) by (simp add: implements_def)

text \<open>
  C11: A contract without admin can never be changed again: after any chain of messages its entry is
  the same, and so is the code it runs, unless code numbers wrapped around.
\<close>

theorem frozen_contract:
  assumes "wasm_laws acct E" "accounted acct w x" "chain_reach acct E (w, x) (w', x')"
    and "map_of (ws_contracts w) a = Some i" "co_admin i = ''''"
  shows "map_of (ws_contracts w') a = Some i
    \<and> (\<exists>es. registry_run (registry_of w) es (registry_of w')
        \<and> (\<forall>n ci. ws_last_code w = Some n \<longrightarrow> unat n + uploads es < 2 ^ 64 \<longrightarrow> co_code_id i \<le> n \<longrightarrow>
            map_of (ws_codes w) (co_code_id i) = Some ci \<longrightarrow> ci_hash ci \<noteq> [] \<longrightarrow>
            map_of (ws_codes w') (co_code_id i) = Some ci))"
proof -
  from chain_implements [OF assms(1) _ assms(3)] assms(2)
  obtain es where run: "registry_run (registry_of w) es (registry_of w')" by (auto simp: implements_def)
  have "map_of (ws_contracts w') a = Some i"
    using contract_view.run_kept [OF run] assms(4,5) by (auto simp: registry_of_def contracts_kept_def)
  moreover have "map_of (ws_codes w') (co_code_id i) = Some ci"
    if "ws_last_code w = Some n" "unat n + uploads es < 2 ^ 64" "co_code_id i \<le> n"
      "map_of (ws_codes w) (co_code_id i) = Some ci" "ci_hash ci \<noteq> []" for n ci
    using registry_run_code [OF run, of n] that by (fastforce simp: registry_of_def)
  ultimately show ?thesis using run by blast
qed

text \<open>
  C19: No contract is ever left without its code: if the code of every contract is registered in a
  state, it is in every state a chain of messages reaches from there, and its creator, address and
  first message are never rewritten.
\<close>

theorem contracts_have_code:
  assumes "wasm_laws acct E" "accounted acct w x" "chain_reach acct E (w, x) (w', x')"
    and "\<forall>a i. map_of (ws_contracts w) a = Some i \<longrightarrow> map_of (ws_codes w) (co_code_id i) \<noteq> None"
    and "map_of (ws_contracts w) a = Some i"
  shows "(\<forall>b j. map_of (ws_contracts w') b = Some j \<longrightarrow> map_of (ws_codes w') (co_code_id j) \<noteq> None)
    \<and> (\<exists>i'. map_of (ws_contracts w') a = Some i' \<and> co_address i' = co_address i \<and> co_creator i' = co_creator i
        \<and> co_init_msg i' = co_init_msg i)"
proof -
  from chain_implements [OF assms(1) _ assms(3)] assms(2)
  obtain es where run: "registry_run (registry_of w) es (registry_of w')" by (auto simp: implements_def)
  have "codes_present (registry_of w)" using assms(4) by (simp add: codes_present_def registry_of_def)
  then have "codes_present (registry_of w')" using code_view.run_kept [OF run] by blast
  with contract_view.run_kept [OF run] assms(5) show ?thesis
    by (simp add: codes_present_def contracts_kept_def registry_of_def) metis
qed


section \<open>Who may change a contract\<close>

fun administered :: "wasm_msg \<Rightarrow> string option" where
  "administered (WMigrate m) = Some (mm_contract m)"
| "administered (WUpdateAdmin m) = Some (mu_contract m)"
| "administered (WClearAdmin m) = Some (mc_contract m)"
| "administered _ = None"

lemma with_sub_meter_Ret:
  assumes "with_sub_meter E body evs st = (Ret a, st')"
  shows "\<exists>s sub. ks_wasm s = ks_wasm st \<and> body s = (Ret a, sub)"
proof -
  from assms obtain g s1 where r: "readW E (ParamKey ''MaxContractGas'') (\<lambda>w. Ok (MaxContractGas (ws_params w))) st = (Ret g, s1)"
    and o: "on_sub_meter E body evs (contract_gas_limit g (st_gas s1)) s1 = (Ret a, st')"
    unfolding with_sub_meter_def by (auto simp: thenDo_Ret)
  let ?s = "with_gas (new_gas_meter E (contract_gas_limit g (st_gas s1))) (with_events [] s1)"
  from o obtain sub where "body ?s = (Ret a, sub)"
    unfolding on_sub_meter_def by (auto simp: thenDo_Ret give_def split: prod.splits)
  moreover have "ks_wasm ?s = ks_wasm st" using readW_RetD(2) [OF r] by simp
  ultimately show ?thesis by blast
qed

lemma quiet_check: "quiet (check_msg_size E msg)"
  unfolding check_msg_size_def by (rule quiet_readW)

lemma MigrateContract_admin:
  assumes "MigrateContract E disp c a sender k msg st = (Ret d, st')"
  shows "\<exists>i. GetContractInfo a (ks_wasm st) = Ok i \<and> co_admin i \<noteq> '''' \<and> co_admin i = acc_bech32 (we_sdk E) sender"
proof -
  from assms obtain y s1 z s2 i where s1: "onGas (charge E (InstantiateContractCosts E (length msg))) st = (Ret y, s1)"
    and s2: "check_msg_size E msg s1 = (Ret z, s2)" and i: "GetContractInfo a (ks_wasm s2) = Ok i"
    and ad: "co_admin i \<noteq> ''''" "co_admin i = acc_bech32 (we_sdk E) sender"
    unfolding MigrateContract_def
    by (auto simp: thenDo_Ret readW_Ret lift_Ret split: if_splits)
  have "registry_of (ks_wasm s2) = registry_of (ks_wasm st)"
    using quietD [OF quiet_onGas s1] quietD [OF quiet_check s2] by simp
  with i ad show ?thesis by (auto simp: GetContractInfo_Ok)
qed

text \<open>
  C10: Only the admin of a contract migrates it, passes its administration on or gives it up: when such a
  message succeeds, the contract exists and its admin is the account that signed the message.
\<close>

theorem admin_only:
  assumes "addr_laws (we_sdk E)" "msg_server E disp c m st = (Ret resp, st')" "administered m = Some s"
  shows "\<exists>a i signer. acc_of_bech32 (we_sdk E) s = Ok a \<and> GetContractInfo a (ks_wasm st) = Ok i
    \<and> wasm_GetSigners E m = Ok [signer] \<and> acc_of_bech32 (we_sdk E) (co_admin i) = Ok signer"
proof (cases m)
  case (WMigrate x)
  with assms(2,3) obtain a signer d s2 where a: "acc_of_bech32 (we_sdk E) s = Ok a"
    "acc_of_bech32 (we_sdk E) (mm_admin x) = Ok signer"
    and r: "with_sub_meter E (MigrateContract E disp c a signer (mm_new_code x) (mm_msg x))
       (\<lambda>_. [event_of ''migrate_contract'' [(''code_id'', dec_text (unat (mm_new_code x))), (''contract_address'', mm_contract x)],
            event_of ''message'' [(''module'', ''wasm''), (''sender'', mm_admin x)]]) st = (Ret d, s2)"
    by (auto simp: msg_MigrateContract_def thenDo_Ret lift_Ret give_def)
  from with_sub_meter_Ret [OF r] obtain s' sub where s': "ks_wasm s' = ks_wasm st"
    "MigrateContract E disp c a signer (mm_new_code x) (mm_msg x) s' = (Ret d, sub)" by blast
  from MigrateContract_admin [OF s'(2)] s'(1) obtain i
    where i: "GetContractInfo a (ks_wasm st) = Ok i" "co_admin i = acc_bech32 (we_sdk E) signer" by auto
  have "acc_of_bech32 (we_sdk E) (acc_bech32 (we_sdk E) signer) = Ok signer"
    using assms(1) a(2) unfolding addr_laws_def by blast
  with a i WMigrate show ?thesis by (auto simp: wasm_GetSigners_def)
next
  case (WUpdateAdmin x)
  with assms(2,3) show ?thesis
    by (auto simp: msg_UpdateContractAdmin_def thenDo_Ret lift_Ret readW_Ret wasm_GetSigners_def split: if_splits)
next
  case (WClearAdmin x)
  with assms(2,3) show ?thesis
    by (auto simp: msg_ClearContractAdmin_def thenDo_Ret lift_Ret readW_Ret wasm_GetSigners_def split: if_splits)
qed (use assms(3) in auto)

section \<open>Nested calls end\<close>

definition ends :: "('s, 'a) action \<Rightarrow> bool" where
  "ends f \<longleftrightarrow> (\<forall>st. fst (f st) \<noteq> Unfinished)"

lemma ends_thenDo: "ends f \<Longrightarrow> (\<And>a. ends (g a)) \<Longrightarrow> ends (thenDo f g)"
  unfolding ends_def thenDo_def by (auto split: prod.splits call.splits) (metis fst_conv)+

lemma ends_basic [simp]:
  "ends (lift r)" "ends (give a)" "ends (emitEvents es)"
  "ends f \<Longrightarrow> ends g \<Longrightarrow> ends (if b then f else g)"
  by (auto simp: ends_def give_def emitEvents_def lift_cases split: outcome.splits)

lemma ends_onGas: "meter_ok f \<Longrightarrow> ends (onGas f)"
  by (auto simp: ends_def onGas_def meter_ok_def split: prod.splits)

lemma ends_charge: "gas_laws E \<Longrightarrow> ends (onGas (charge E cost))"
  by (intro ends_onGas meter_ok_charge)

lemma ends_readW: "gas_laws E \<Longrightarrow> ends (readW E k f)"
  using ends_onGas [OF meter_ok_readK] unfolding ends_def readW_def by blast

lemma ends_writeW: "gas_laws E \<Longrightarrow> ends (writeW E ks f)"
proof -
  assume g: "gas_laws E"
  have "ends (thenDo (onGas (write_all E ks w)) (\<lambda>_ s. (Ret (), s\<lparr>ks_wasm := f (ks_wasm s)\<rparr>)))" for w
    by (intro ends_thenDo ends_onGas meter_ok_write_all g) (simp add: ends_def)
  then show ?thesis unfolding ends_def writeW_def by blast
qed

lemma ends_wrap:
  assumes "fst (f st) \<noteq> Unfinished" "\<And>a. ends (g a)" shows "fst (thenDo f g st) \<noteq> Unfinished"
  using assms unfolding ends_def thenDo_def by (cases "f st") (auto split: call.splits)

lemma ends_on_sub_meter:
  assumes L: "gas_laws E" and b: "sound acct (Suc k) body"
    and ac: "accounted acct (ks_wasm st) (h_rest (ks_host st))" and l: "unat l < 40000 * Suc k"
  shows "fst (on_sub_meter E body evs l st) \<noteq> Unfinished"
proof -
  let ?in = "with_gas (new_gas_meter E l) (with_events [] st)"
  obtain r sub where rs: "body ?in = (r, sub)" by fastforce
  have "ok_result acct (Suc k) ?in r sub" by (rule soundD [OF b rs]) (simp add: ac)
  moreover have "fits (Suc k) (st_gas ?in)" using l by (simp add: fits_def new_gas_meterD [OF L])
  ultimately have r: "r \<noteq> Unfinished" by (auto simp: ok_result_def)
  have e: "ends (thenDo (onGas (consume_gas E z)) (\<lambda>_. thenDo (emitEvents es) (\<lambda>_. give a)))" for z es a
    by (intro ends_thenDo ends_onGas meter_ok_consume L ends_basic)
  show ?thesis
    unfolding on_sub_meter_def rs prod.case by (rule ends_wrap) (use r e in simp_all)
qed

lemma ends_with_sub_meter:
  assumes L: "gas_laws E" and b: "sound acct (Suc k) body"
    and ac: "accounted acct (ks_wasm st) (h_rest (ks_host st))"
    and m: "unat (MaxContractGas (ws_params (ks_wasm st))) < 40000 * Suc k"
  shows "fst (with_sub_meter E body evs st) \<noteq> Unfinished"
proof -
  let ?read = "readW E (ParamKey ''MaxContractGas'') (\<lambda>w. Ok (MaxContractGas (ws_params w)))"
  let ?run = "\<lambda>g s. on_sub_meter E body evs (contract_gas_limit g (st_gas s)) s"
  obtain r st' where e: "with_sub_meter E body evs st = (r, st')" by fastforce
  then have "thenDo ?read ?run st = (r, st')" by (simp add: with_sub_meter_def)
  then have "r \<noteq> Unfinished"
  proof (cases rule: thenDo_cases)
    case (ret g s1)
    note d = readW_RetD [OF ret(1)]
    have "unat (contract_gas_limit g (st_gas s1)) < 40000 * Suc k"
      using contract_gas_limit_le(2) [of g "st_gas s1"] d(1) m by (simp add: word_le_nat_alt)
    from ends_on_sub_meter [OF L b _ this, of s1 evs] d(2,3) ac ret(2) show ?thesis by simp
  next
    case unfinished
    with ends_readW [OF L] show ?thesis unfolding ends_def by (metis fst_conv)
  qed auto
  with e show ?thesis by simp
qed

lemma msg_server_ends:
  assumes L: "wasm_laws acct E" and d: "\<And>a ms. sound acct k (disp a ms)"
    and ac: "accounted acct (ks_wasm st) (h_rest (ks_host st))"
    and m: "unat (MaxContractGas (ws_params (ks_wasm st))) < 40000 * Suc k"
  shows "fst (msg_server E disp c msg st) \<noteq> Unfinished"
proof -
  note g = wasm_lawsD(1) [OF L]
  have cc: "ends (CompileCode E code)" for code unfolding CompileCode_def by (intro ends_thenDo ends_charge ends_readW g ends_basic)
  have sub: "fst (thenDo (lift p) (\<lambda>x. thenDo (lift (q x)) (\<lambda>y. thenDo (with_sub_meter E (body x y) evs) (\<lambda>z. give (f z)))) st) \<noteq> Unfinished"
    if "\<And>x y. sound acct (Suc k) (body x y)" for p q body evs f
  proof -
    have w: "fst (thenDo (with_sub_meter E (body x y) evs) (\<lambda>z. give (f z)) st) \<noteq> Unfinished" for x y
      by (rule ends_wrap, rule ends_with_sub_meter [OF g that ac m], simp)
    then show ?thesis
      by (auto simp: thenDo_def [of "lift _"] lift_cases split: outcome.splits)
  qed
  show ?thesis
  proof (cases msg)
    case (WStoreCode x)
    have "ends (msg_StoreCode E x)"
      unfolding msg_StoreCode_def StoreCode_def Let_def by (intro ends_thenDo cc ends_basic ends_readW ends_writeW g)
    with WStoreCode show ?thesis by (simp add: ends_def)
  next
    case (WMigrateCode x)
    have "ends (msg_MigrateCode E x)"
      unfolding msg_MigrateCode_def MigrateCode_def by (intro ends_thenDo cc ends_basic ends_readW ends_writeW g)
    with WMigrateCode show ?thesis by (simp add: ends_def)
  next
    case (WInstantiate x)
    show ?thesis unfolding WInstantiate msg_server.simps msg_InstantiateContract_def case_prod_beta by (rule sub, rule InstantiateContract_sound [OF L d])
  next
    case (WExecute x)
    show ?thesis unfolding WExecute msg_server.simps msg_ExecuteContract_def by (rule sub, rule ExecuteContract_sound [OF L d])
  next
    case (WMigrate x)
    show ?thesis unfolding WMigrate msg_server.simps msg_MigrateContract_def by (rule sub, rule MigrateContract_sound [OF L d])
  next
    case (WUpdateAdmin x)
    have "ends (msg_UpdateContractAdmin E x)" unfolding msg_UpdateContractAdmin_def by (intro ends_thenDo ends_basic ends_readW ends_writeW g)
    with WUpdateAdmin show ?thesis by (simp add: ends_def)
  next
    case (WClearAdmin x)
    have "ends (msg_ClearContractAdmin E x)" unfolding msg_ClearContractAdmin_def by (intro ends_thenDo ends_basic ends_readW ends_writeW g)
    with WClearAdmin show ?thesis by (simp add: ends_def)
  qed
qed

lemma run_program_ends:
  assumes ms: "\<And>m. sound acct n (ms m)"
    and e: "\<And>m st. accounted acct (ks_wasm st) (h_rest (ks_host st)) \<Longrightarrow> ws_params (ks_wasm st) = ps \<Longrightarrow> fst (ms m st) \<noteq> Unfinished"
  shows "program_ok acct p h0 \<Longrightarrow> accounted acct w (h_rest h0) \<Longrightarrow> ws_params w = ps \<Longrightarrow> fst (run_program p ms w) \<noteq> Unfinished"
proof (induction p arbitrary: h0 w)
  case (Route m h k)
  let ?s1 = "\<lparr>ks_wasm = w, ks_host = h\<rparr>"
  from Route.prems have k: "\<And>q h'. host_le acct h h' \<Longrightarrow> program_ok acct (k q h') h'"
    and ac: "accounted acct w (h_rest h)" by (auto simp: host_le_def accounted_def)
  obtain q s2 where q: "ms m ?s1 = (q, s2)" by fastforce
  have ok: "ok_result acct n ?s1 q s2" by (rule soundD [OF ms q]) (simp add: ac)
  have hs: "host_le acct h (ks_host s2)" "accounted acct (ks_wasm s2) (h_rest (ks_host s2))" "ws_params (ks_wasm s2) = ps"
    using ok Route.prems(3) by (auto simp: ok_result_def host_le_def implements_def st_gas_def)
  have "q \<noteq> Unfinished" using e [of ?s1 m] ac Route.prems(3) q by simp
  with q Route.IH [OF _ _ k [OF hs(1)] hs(2,3)] show ?case by (cases q) auto
qed auto

text \<open>
  C9: The nesting of contract calls is bounded by gas: with the parameter \<open>MaxContractGas\<close> below 40,000
  times \<open>n\<close>, a message that runs contracts that dispatch messages and get replies, whatever they do,
  ends within \<open>n\<close> levels. For the largest value the parameter may have, 2,501 levels are enough.
\<close>

theorem nested_calls_bounded:
  assumes L: "wasm_laws acct E" and ac: "accounted acct (ks_wasm st) (h_rest (ks_host st))"
    and n: "unat (MaxContractGas (ws_params (ks_wasm st))) < 40000 * n"
  shows "fst (route E c n msg st) \<noteq> Unfinished"
proof (cases n)
  case 0
  with n show ?thesis by simp
next
  case (Suc k)
  let ?disp = "\<lambda>a ms. dispatchMessages E (route E c k) (snd (calls E c k)) a ms None"
  let ?ms = "\<lambda>m. routed E (msg_server E ?disp c m)"
  have d: "sound acct k (?disp a ms)" for a ms
    by (intro dispatchMessages_sound calls_sound L wasm_lawsD [OF L])
  have ms: "sound acct (Suc k) (?ms m)" for m by (intro routed_sound msg_server_sound L d)
  have e: "fst (?ms m s) \<noteq> Unfinished"
    if "accounted acct (ks_wasm s) (h_rest (ks_host s))" "ws_params (ks_wasm s) = ws_params (ks_wasm st)" for m s
  proof -
    have "fst (msg_server E ?disp c m (with_events [] s)) \<noteq> Unfinished"
      by (rule msg_server_ends [OF L d]) (use that n Suc in simp_all)
    then show ?thesis
      by (cases "msg_server E ?disp c m (with_events [] s)") (auto simp: routed_def thenDo_def give_def split: call.splits)
  qed
  have other: "fst (case module_handler E c msg of None \<Rightarrow> lift (Err ErrUnknownRequest) st
        | Some p \<Rightarrow> (case run_program (p (ks_host (with_events [] st))) ?ms (ks_wasm st) of
              (r, st') \<Rightarrow> (r, with_events (st_events st) st'))) \<noteq> Unfinished"
  proof (cases "module_handler E c msg")
    case (Some p)
    have "fst (run_program (p (ks_host (with_events [] st))) ?ms (ks_wasm st)) \<noteq> Unfinished"
      by (rule run_program_ends [where ms = ?ms, OF ms e host_lawsD(7) [OF wasm_lawsD(3) [OF L] Some]]) (use ac in simp_all)
    with Some show ?thesis by (auto split: prod.splits)
  qed simp
  have "route E c n msg st = (case msg of WasmMsg m \<Rightarrow> ?ms m st
      | _ \<Rightarrow> (case module_handler E c msg of None \<Rightarrow> lift (Err ErrUnknownRequest) st
        | Some p \<Rightarrow> (case run_program (p (ks_host (with_events [] st))) ?ms (ks_wasm st) of
              (r, st') \<Rightarrow> (r, with_events (st_events st) st'))))"
    unfolding Suc by (cases msg; cases "module_handler E c msg") (simp_all add: calls.simps Let_def route_msg_def)
  with e [OF ac] other show ?thesis by (cases msg) simp_all
qed


section \<open>Submessages\<close>

lemma limited_dispatch_gas:
  assumes L: "wasm_laws acct E" and h: "\<And>m. sound acct n (h m)"
    and ac: "accounted acct (ks_wasm st) (h_rest (ks_host st))"
    and l: "l < gm_limit (st_gas st) - gm_consumed (st_gas st)" "gm_consumed (st_gas st) \<le> gm_limit (st_gas st)"
    and e: "limited_dispatch E h a msg l st = (r, st')"
  shows "returns r \<Longrightarrow> unat (gm_consumed (st_gas st')) \<le> unat (gm_consumed (st_gas st)) + unat l"
    "r = OutOfGas \<Longrightarrow> st_gas st' = st_gas st"
proof -
  note g = wasm_lawsD(1) [OF L]
  let ?in = "with_gas (new_gas_meter E l) st"
  obtain q s1 where q: "dispatchMessage E h a msg ?in = (q, s1)" by fastforce
  let ?b = "with_gas (st_gas st) s1" and ?spent = "gm_consumed (st_gas s1)"
  have ok: "ok_result acct n ?in q s1"
    by (rule soundD [OF dispatchMessage_sound [where h = h, OF h wasm_lawsD(3) [OF L]] q]) (simp add: ac)
  have spent: "?spent \<le> l" if "returns q"
  proof -
    have "within (st_gas s1)" "meter_le (new_gas_meter E l) (st_gas s1)"
      using ok that by (simp_all add: ok_result_def within_def new_gas_meterD [OF g])
    then show ?thesis by (auto simp: within_def meter_le_def new_gas_meterD [OF g])
  qed
  have no: "consume_gas E ?spent (st_gas st) \<noteq> (OutOfGas, m)" if "returns q" for m
  proof
    assume "consume_gas E ?spent (st_gas st) = (OutOfGas, m)"
    then have b: "\<not> 2 ^ 64 \<le> unat (gm_consumed (st_gas st)) + unat ?spent" "gm_limit (st_gas st) < gm_consumed (st_gas st) + ?spent"
      using g unfolding gas_laws_def by (metis (no_types, lifting) Pair_inject call.distinct)+
    from b(1) have "unat (gm_consumed (st_gas st) + ?spent) = unat (gm_consumed (st_gas st)) + unat ?spent"
      by (simp add: unat_word_ariths)
    moreover have "unat ?spent \<le> unat l" using spent [OF that] by (simp add: word_le_nat_alt)
    moreover have "unat l < unat (gm_limit (st_gas st)) - unat (gm_consumed (st_gas st))"
      using l by (simp add: word_less_nat_alt unat_sub)
    ultimately show False using b(2) by (simp add: word_less_nat_alt)
  qed
  show "unat (gm_consumed (st_gas st')) \<le> unat (gm_consumed (st_gas st)) + unat l" if "returns r"
  proof (cases "returns q")
    case True
    have e': "thenDo (onGas (consume_gas E ?spent)) (\<lambda>_ s. (q, s)) ?b = (r, st')"
      using e q True by (cases q) (simp_all add: limited_dispatch_def Let_def)
    obtain y m where y: "consume_gas E ?spent (st_gas st) = (y, m)" by fastforce
    note d = consume_gasD [OF g y]
    have "y = Ret ()" using d(2) e' y that by (auto simp: onGas_def thenDo_def)
    then have "st_gas st' = m" using e' y by (auto simp: onGas_def thenDo_def)
    with d(4) \<open>y = Ret ()\<close> spent [OF True] show ?thesis by (simp add: word_le_nat_alt)
  next
    case False
    with e q that show ?thesis by (cases q) (auto simp: limited_dispatch_def Let_def)
  qed
  show "st_gas st' = st_gas st" if "r = OutOfGas"
  proof (cases "returns q")
    case True
    have e': "thenDo (onGas (consume_gas E ?spent)) (\<lambda>_ s. (q, s)) ?b = (r, st')"
      using e q True by (cases q) (simp_all add: limited_dispatch_def Let_def)
    obtain y m where y: "consume_gas E ?spent (st_gas st) = (y, m)" by fastforce
    with consume_gasD(2) [OF g y] no [OF True] e' that True show ?thesis
      by (auto simp: onGas_def thenDo_def)
  next
    case False
    with e q that show ?thesis by (cases q) (auto simp: limited_dispatch_def Let_def)
  qed
qed

text \<open>
  C18: A submessage with a gas limit below what remains costs its caller at most that limit, whether it
  succeeds, fails or runs out of gas; and a submessage that fails leaves no trace in the stores and in
  the events of the caller.
\<close>

theorem submessage_contained:
  assumes L: "wasm_laws acct E" and ac: "accounted acct (ks_wasm st) (h_rest (ks_host st))"
    and l: "sm_gas_limit msg = Some l" "l < gm_limit (st_gas st) - gm_consumed (st_gas st)"
      "gm_consumed (st_gas st) \<le> gm_limit (st_gas st)"
    and e: "dispatch_sub E (route E c n) a msg st = (Ret res, st')"
  shows "unat (gm_consumed (st_gas st')) \<le> unat (gm_consumed (st_gas st)) + unat l
    \<and> (\<forall>err. res = Err err \<longrightarrow> st' = with_gas (st_gas st') st)"
proof -
  let ?sub = "with_events [] st"
  obtain r s1 where r: "limited_dispatch E (route E c n) a (sm_msg msg) l ?sub = (r, s1)" by fastforce
  obtain q s2 where q: "dispatchMessageWithGasLimit E (route E c n) a (sm_msg msg) l ?sub = (q, s2)" by fastforce
  note gas = limited_dispatch_gas [OF L calls_sound(1) [OF L], of ?sub l, OF _ _ _ r]
  have "returns q \<and> unat (gm_consumed (st_gas s2)) \<le> unat (gm_consumed (st_gas st)) + unat l
      \<and> st_gas st' = st_gas s2 \<and> (\<forall>err. res = Err err \<longrightarrow> st' = with_gas (st_gas s2) st)"
  proof -
    have fin: "returns q \<and> st_gas st' = st_gas s2 \<and> (\<forall>err. res = Err err \<longrightarrow> st' = with_gas (st_gas s2) st)"
      using e q l(1,2) by (cases q) (auto simp: dispatch_sub_def Let_def split: prod.splits)
    moreover have "unat (gm_consumed (st_gas s2)) \<le> unat (gm_consumed (st_gas st)) + unat l"
    proof (cases "r = OutOfGas")
      case True
      then have t: "thenDo (onGas (consume_gas E l)) (\<lambda>_. lift (Err ErrOutOfGas)) s1 = (q, s2)"
        using q r by (simp add: dispatchMessageWithGasLimit_def)
      have s1: "st_gas s1 = st_gas st" using gas(2) ac l True by simp
      obtain y m where y: "consume_gas E l (st_gas s1) = (y, m)" by fastforce
      note d = consume_gasD [OF wasm_lawsD(1) [OF L] y]
      have "y = Ret ()" using d(2) t y fin by (auto simp: onGas_def thenDo_def)
      with d(4) t y s1 show ?thesis by (auto simp: onGas_def thenDo_def)
    next
      case False
      then have "q = r" "s2 = s1" using q r by (cases r; simp add: dispatchMessageWithGasLimit_def)+
      with gas(1) fin ac l show ?thesis by simp
    qed
    ultimately show ?thesis by simp
  qed
  then show ?thesis by simp
qed

section \<open>Who signs what a contract sends\<close>

lemma signer_lawsD:
  assumes "signer_laws E"
  shows "module_signers E (BankSend a t cs) = Ok [a]" "module_signers E (StakingDelegate a v c) = Ok [a]"
    "module_signers E (StakingRedelegate a v d c) = Ok [a]" "module_signers E (StakingUndelegate a v c) = Ok [a]"
    "module_signers E (DistrSetWithdraw a r) = Ok [a]" "module_signers E (DistrWithdraw a v) = Ok [a]"
    "module_signers E (GovVote p a vo) = Ok [a]"
  using assms by (simp_all add: signer_laws_def)

lemma checked_Ok: "checked E m = Ok p \<longleftrightarrow>
    p = Some m \<and> (case m of WasmMsg w \<Rightarrow> wasm_ValidateBasic E w | _ \<Rightarrow> module_validate E m) = Ok ()"
  by (auto simp: checked_def)

lemma self_address: "addr_laws S \<Longrightarrow> length a = 20 \<Longrightarrow> acc_of_bech32 S (acc_bech32 S a) = Ok a"
  unfolding addr_laws_def by blast

text \<open>The basic checks of a message.\<close>

fun basic_valid :: "('x, 'm) wasm_env \<Rightarrow> 'm sdk_msg \<Rightarrow> bool" where
  "basic_valid E (WasmMsg m) \<longleftrightarrow> wasm_ValidateBasic E m = Ok ()"
| "basic_valid E (MarketMsg (MsgSwap m)) \<longleftrightarrow> MsgSwap_ValidateBasic (we_sdk E) m = Ok ()"
| "basic_valid E (MarketMsg (MsgSwapSend m)) \<longleftrightarrow> MsgSwapSend_ValidateBasic (we_sdk E) m = Ok ()"
| "basic_valid E m \<longleftrightarrow> module_validate E m = Ok ()"

lemma bank_parser_signs:
  "signer_laws E \<Longrightarrow> bank_Parse E a msg = Ok (Some m) \<Longrightarrow> GetSigners E m = Ok [a] \<and> basic_valid E m"
  by (auto simp: bank_Parse_def checked_Ok signer_lawsD split: option.splits)

lemma staking_parser_signs:
  "signer_laws E \<Longrightarrow> staking_Parse E a msg = Ok (Some m) \<Longrightarrow> GetSigners E m = Ok [a] \<and> basic_valid E m"
  by (auto simp: staking_Parse_def checked_Ok signer_lawsD split: option.splits)

lemma distribution_parser_signs:
  "signer_laws E \<Longrightarrow> distribution_Parse E a msg = Ok (Some m) \<Longrightarrow> GetSigners E m = Ok [a] \<and> basic_valid E m"
  by (auto simp: distribution_Parse_def checked_Ok signer_lawsD split: option.splits)

lemma gov_parser_signs:
  "signer_laws E \<Longrightarrow> gov_Parse E a msg = Ok (Some m) \<Longrightarrow> GetSigners E m = Ok [a] \<and> basic_valid E m"
  by (auto simp: gov_Parse_def checked_Ok signer_lawsD split: option.splits)

lemma wasm_parser_signs:
  assumes "addr_laws (we_sdk E)" "length a = 20" "wasm_Parse E a msg = Ok (Some m)"
  shows "GetSigners E m = Ok [a] \<and> basic_valid E m"
  using assms(3) self_address [OF assms(1,2)]
  by (auto simp: wasm_Parse_def wasm_parse_execute_def wasm_parse_instantiate_def checked_Ok Let_def wasm_GetSigners_def
      split: option.splits)

lemma market_parser_signs:
  assumes "addr_laws (we_sdk E)" "length a = 20" "market_Parse_custom E a data = Ok (Some m)"
  shows "GetSigners E m = Ok [a] \<and> basic_valid E m"
  using assms(3) self_address [OF assms(1,2)]
  by (auto simp: market_Parse_custom_def market_ParseCustom_def Let_def split: option.splits)

lemma app_parse_routes [simp]:
  "parse_route (app_parsers E) ''bank'' a msg = bank_Parse E a msg"
  "parse_route (app_parsers E) ''staking'' a msg = staking_Parse E a msg"
  "parse_route (app_parsers E) ''distribution'' a msg = distribution_Parse E a msg"
  "parse_route (app_parsers E) ''gov'' a msg = gov_Parse E a msg"
  "parse_route (app_parsers E) ''wasm'' a msg = wasm_Parse E a msg"
  by (simp_all add: parse_route_def app_parsers_def)

lemma app_custom_parsers:
  "map_of (app_parsers E) r = Some q \<Longrightarrow> pa_custom q = no_custom \<or> pa_custom q = market_Parse_custom E"
  by (auto simp: app_parsers_def split: if_splits)

lemma custom_parser_signs:
  assumes "addr_laws (we_sdk E)" "length a = 20" "map_of (app_parsers E) r = Some q" "pa_custom q a d = Ok (Some m)"
  shows "GetSigners E m = Ok [a] \<and> basic_valid E m"
  using app_custom_parsers [OF assms(3)] assms(4) market_parser_signs [OF assms(1,2)] by (auto simp: no_custom_def)

lemma MsgParser_Parse_cases:
  assumes "MsgParser_Parse E (app_parsers E) a msg = Ok (Some m)" "cw_stargate msg = None"
  obtains "bank_Parse E a msg = Ok (Some m)" | "staking_Parse E a msg = Ok (Some m)"
    | "distribution_Parse E a msg = Ok (Some m)" | "gov_Parse E a msg = Ok (Some m)" | "wasm_Parse E a msg = Ok (Some m)"
    | r q d where "map_of (app_parsers E) r = Some q" "pa_custom q a d = Ok (Some m)"
proof (cases "cw_bank msg")
  case None
  show ?thesis
  proof (cases "cw_custom msg")
    case (Some raw)
    with assms None obtain r d where "(case map_of (app_parsers E) r of Some p \<Rightarrow> pa_custom p a d
        | None \<Rightarrow> Err ErrNoRegisteredParser) = Ok (Some m)"
      unfolding MsgParser_Parse_def by (cases "json_custom E raw") auto
    then show ?thesis using that(6) by (cases "map_of (app_parsers E) r") auto
  next
    case c: None
    with assms None that show ?thesis unfolding MsgParser_Parse_def by (auto split: if_splits)
  qed
next
  case (Some b)
  with assms that(1) show ?thesis unfolding MsgParser_Parse_def by (auto split: if_splits)
qed

lemma Parse_signs:
  assumes "signer_laws E" "addr_laws (we_sdk E)" "length a = 20" "cw_stargate msg = None"
    and p: "MsgParser_Parse E (app_parsers E) a msg = Ok (Some m)"
  shows "GetSigners E m = Ok [a] \<and> basic_valid E m"
  using p assms(4)
proof (cases rule: MsgParser_Parse_cases)
  case (6 r q d)
  then show ?thesis by (rule custom_parser_signs [OF assms(2,3)])
qed (erule bank_parser_signs [OF assms(1)] staking_parser_signs [OF assms(1)] distribution_parser_signs [OF assms(1)]
    gov_parser_signs [OF assms(1)] wasm_parser_signs [OF assms(2,3)])+

text \<open>
  C17: A contract acts in nobody's name but its own. Whatever it puts into a bank, staking,
  distribution, governance, market or contract message, the parsed message passes the basic checks and
  is signed by the contract alone. An encoded message is handed on as it was decoded, without its basic
  checks; but a message that is dispatched successfully, an encoded one included, needs no other
  signature than the contract's.
\<close>

theorem contract_signs:
  assumes "signer_laws E" "addr_laws (we_sdk E)" "length a = 20"
    and "MsgParser_Parse E (app_parsers E) a msg = Ok (Some m)"
  shows "(cw_stargate msg = None \<longrightarrow> GetSigners E m = Ok [a] \<and> basic_valid E m)
    \<and> (\<forall>st r st'. dispatchMessage E h a msg st = (Ret r, st') \<longrightarrow> (\<exists>s. GetSigners E m = Ok s \<and> set s \<subseteq> {a}))"
proof -
  have "\<exists>s. GetSigners E m = Ok s \<and> set s \<subseteq> {a}" if "handleSdkMessage E h a m st = (Ret r, st')" for st r st'
    using that by (auto simp: handleSdkMessage_def thenDo_Ret lift_Ret list_ex_iff split: if_splits)
  then have "\<exists>s. GetSigners E m = Ok s \<and> set s \<subseteq> {a}" if "dispatchMessage E h a msg st = (Ret r, st')" for st r st'
    using that assms(4) by (auto simp: dispatchMessage_def thenDo_Ret lift_Ret)
  with Parse_signs [OF assms(1-3) _ assms(4)] show ?thesis by blast
qed

section \<open>Errors\<close>

fun runs_contract :: "wasm_msg \<Rightarrow> bool" where
  "runs_contract (WInstantiate m) = True"
| "runs_contract (WExecute m) = True"
| "runs_contract (WMigrate m) = True"
| "runs_contract _ = False"

lemma consume_not_Fail: "gas_laws E \<Longrightarrow> consume_gas E g m \<noteq> (Fail e, m')"
  unfolding gas_laws_def by (metis call.distinct Pair_inject)

lemma readW_Fail:
  assumes "gas_laws E" "readW E k f st = (Fail e, st')"
  shows "\<exists>m. read_gas E k (ks_wasm st) (st_gas st) = (Ret (), m) \<and> f (ks_wasm st) = Err e"
  using assms(2) access_okD(3) [OF assms(1)]
  by (auto simp: readW_def onGas_def readK_def thenDo_Fail lift_Fail split: prod.splits)

lemma on_sub_meter_Fail:
  assumes "gas_laws E" "on_sub_meter E body evs l st = (Fail e, st')"
  shows "st_gas st' = st_gas st"
  using assms(2) consume_not_Fail [OF assms(1)]
  by (auto simp: on_sub_meter_def thenDo_Fail onGas_def emitEvents_def give_def split: prod.splits)

lemma with_sub_meter_Fail:
  assumes g: "gas_laws E" and "with_sub_meter E body evs st = (Fail e, st')"
  shows "read_gas E (ParamKey ''MaxContractGas'') (ks_wasm st) (st_gas st) = (Ret (), st_gas st')"
  using assms(2) on_sub_meter_Fail [OF g] readW_Fail [OF g]
  unfolding with_sub_meter_def by (fastforce simp: thenDo_Fail readW_Ret)

text \<open>
  C38: A message that calls a contract and fails costs the sender nothing of what the contract used:
  whatever gas the call burnt, the meter of the transaction is as before, but for the price of
  reading one parameter.
\<close>

theorem failed_call_free:
  assumes "gas_laws E" "runs_contract msg" "msg_server E disp c msg st = (Fail e, st')"
  shows "st_gas st' = st_gas st
    \<or> read_gas E (ParamKey ''MaxContractGas'') (ks_wasm st) (st_gas st) = (Ret (), st_gas st')"
  using assms(2,3)
  by (cases msg) (auto simp: msg_InstantiateContract_def msg_ExecuteContract_def msg_MigrateContract_def
      thenDo_Fail lift_Fail lift_Ret give_def split: prod.splits dest!: with_sub_meter_Fail [OF assms(1)])

text \<open>C39: A contract that returns an event without attributes makes the node panic, and nothing else in the events does.\<close>

theorem empty_event_panics:
  "ParseEvents E a attrs evs = Panic \<longleftrightarrow> list_ex (\<lambda>e. ev_attrs e = []) evs"
proof -
  let ?step = "\<lambda>e sdkEvents. case buildEvent E (EventTypeWasmPrefix @ ''-'' @ ev_type e) a (ev_attrs e) of
      None \<Rightarrow> Panic | Some sdkEvent \<Rightarrow> Ok (sdkEvents @ [sdkEvent])"
  have "forEach ?step evs acc = Panic \<longleftrightarrow> list_ex (\<lambda>e. ev_attrs e = []) evs" for acc
    by (induction evs arbitrary: acc) (auto simp: buildEvent_def)
  then show ?thesis by (auto simp: ParseEvents_def buildEvent_def)
qed

text \<open>
  C40: An exported genesis of a chain on which a code was ever uploaded cannot be imported: the codes
  are left out, so that its validation fails.
\<close>

theorem export_not_importable:
  assumes "ws_last_code w = Some n" "ws_last_instance w = Some i" "n \<noteq> 0"
  shows "\<exists>g. wasm_ExportGenesis w = Ok g \<and> wasm_ValidateGenesis g = Err ErrInvalidGenesis"
  using assms by (simp add: wasm_ExportGenesis_def GetLastCodeID_def GetLastInstanceID_def wasm_ValidateGenesis_def)


section \<open>Contract addresses\<close>

lemma contract_id_unat: "unat (contract_id c i) = (unat c * 2 ^ 32 + unat i) mod 2 ^ 64"
  by (simp add: contract_id_def push_bit_eq_mult unat_word_ariths mod_simps mult.commute)

lemma put_uvarint_prefix_free: "put_uvarint m @ xs = put_uvarint n @ ys \<Longrightarrow> m = n"
proof (induction m arbitrary: n rule: less_induct)
  case (less m)
  have b: "(word_of_nat k :: 8 word) = word_of_nat l \<longleftrightarrow> k = l" if "k < 256" "l < 256" for k l
    using that by (simp add: word_of_nat_eq_iff take_bit_nat_eq_self)
  show ?case
  proof (cases "m < 128 \<or> n < 128")
    case True
    then show ?thesis using less.prems
      by (auto simp: put_uvarint.simps [of m] put_uvarint.simps [of n] b simp del: of_nat_add split: if_splits)
  next
    case False
    then have "m mod 128 = n mod 128" "put_uvarint (m div 128) @ xs = put_uvarint (n div 128) @ ys"
      using less.prems by (simp_all add: put_uvarint.simps [of m] put_uvarint.simps [of n] b del: of_nat_add)
    moreover from this(2) False less.IH [of "m div 128"] have "m div 128 = n div 128" by simp
    ultimately show ?thesis by (metis div_mult_mod_eq)
  qed
qed

lemma put_uvarint_length: "n < 128 ^ Suc k \<Longrightarrow> length (put_uvarint n) \<le> Suc k"
proof (induction k arbitrary: n)
  case (Suc k)
  then show ?case using Suc.IH [of "n div 128"] by (auto simp: put_uvarint.simps [of n] less_mult_imp_div_less)
qed (simp add: put_uvarint.simps)

lemma addr_preimage_inj: "addr_preimage m = addr_preimage n \<Longrightarrow> m = n"
proof -
  assume e: "addr_preimage m = addr_preimage n"
  have "length (put_uvarint (unat x)) \<le> 10" for x :: u64
  proof -
    have "unat x < 2 ^ 64" using unsigned_less [of x] by simp
    then show ?thesis using put_uvarint_length [of "unat x" 9] by simp
  qed
  then have p: "addr_preimage x = 67 # put_uvarint (unat x) @ replicate (19 - length (put_uvarint (unat x))) 0" for x
    using order_trans [of "length (put_uvarint (unat x))" 10 19] by (simp add: addr_preimage_def min_def)
  from e have "put_uvarint (unat m) @ replicate (19 - length (put_uvarint (unat m))) 0
      = put_uvarint (unat n) @ replicate (19 - length (put_uvarint (unat n))) 0"
    unfolding p [of m] p [of n] list.inject by (rule conjunct2)
  then have "unat m = unat n" by (rule put_uvarint_prefix_free)
  then show "m = n" by (simp only: unsigned_word_eqI word_unat_eq_iff)
qed

text \<open>
  C29: The address of an instance is the hash of bytes that determine it. The hashed bytes of two
  instances agree exactly when their code numbers times 2^32 plus their instance numbers agree modulo
  2^64; so they are different for different instances with numbers below 2^32. Above, they are not:
  instance 2^32 of a code has the address of instance 0 of the next.
\<close>

theorem contract_address_unique:
  "GenerateContractAddress E c i = address_hash E (addr_preimage (contract_id c i))
    \<and> (addr_preimage (contract_id c i) = addr_preimage (contract_id c' i') \<longleftrightarrow>
        (unat c * 2 ^ 32 + unat i) mod 2 ^ 64 = (unat c' * 2 ^ 32 + unat i') mod 2 ^ 64)
    \<and> (unat c < 2 ^ 32 \<and> unat i < 2 ^ 32 \<and> unat c' < 2 ^ 32 \<and> unat i' < 2 ^ 32 \<and> (c, i) \<noteq> (c', i') \<longrightarrow>
        addr_preimage (contract_id c i) \<noteq> addr_preimage (contract_id c' i'))
    \<and> GenerateContractAddress E c (2 ^ 32) = GenerateContractAddress E (c + 1) 0"
proof -
  have iff: "addr_preimage (contract_id c i) = addr_preimage (contract_id c' i') \<longleftrightarrow>
        (unat c * 2 ^ 32 + unat i) mod 2 ^ 64 = (unat c' * 2 ^ 32 + unat i') mod 2 ^ 64"
    using addr_preimage_inj contract_id_unat word_unat_eq_iff by metis
  moreover have "c = c' \<and> i = i'" if b: "unat c < 2 ^ 32" "unat i < 2 ^ 32" "unat c' < 2 ^ 32" "unat i' < 2 ^ 32"
    and e: "addr_preimage (contract_id c i) = addr_preimage (contract_id c' i')"
  proof -
    have "unat c * 2 ^ 32 + unat i = unat c' * 2 ^ 32 + unat i'" using iff e b by simp
    then have "(unat c * 2 ^ 32 + unat i) div 2 ^ 32 = (unat c' * 2 ^ 32 + unat i') div 2 ^ 32"
      "(unat c * 2 ^ 32 + unat i) mod 2 ^ 32 = (unat c' * 2 ^ 32 + unat i') mod 2 ^ 32" by simp_all
    with b have "unat c = unat c'" "unat i = unat i'" by simp_all
    then show ?thesis by (simp add: word_unat_eq_iff)
  qed
  moreover have "contract_id c (2 ^ 32) = contract_id (c + 1) 0"
    by (simp add: contract_id_def push_bit_eq_mult algebra_simps)
  ultimately show ?thesis unfolding GenerateContractAddress_def addrFromUint64_def by auto
qed

section \<open>The properties on a small chain\<close>

lemma pass_on_routed:
  "\<exists>d st'. route wasm_ref chain_ctx (Suc 0) (WasmMsg pass_on) (chain_state ''terra1dddddddddddddddddddd'') = (Ret d, st')
     \<and> ks_wasm st' = chain_store ''terra1eeeeeeeeeeeeeeeeeeee'' \<and> h_rest (ks_host st') = chain_accounts"
proof -
  have "with_events [] (chain_state a) = chain_state a" for a by (simp add: chain_state_def with_events_def)
  then show ?thesis
    using pass_on_server [of "\<lambda>a msgs. dispatchMessages wasm_ref (route wasm_ref chain_ctx 0) (snd (calls wasm_ref chain_ctx 0)) a msgs None"]
    by (auto simp: calls.simps Let_def route_msg_def routed_def thenDo_def give_def)
qed

lemma pass_on_reach:
  "chain_reach has_account wasm_ref (chain_store ''terra1dddddddddddddddddddd'', chain_accounts)
     (chain_store ''terra1eeeeeeeeeeeeeeeeeeee'', chain_accounts)"
  using pass_on_routed chain_reach.message [OF chain_reach.start] by (metis chain_state_def)

theorem wasm_refines_registry_witness:
  "\<exists>es. registry_run (registry_of (chain_store ''terra1dddddddddddddddddddd'')) es
          (registry_of (chain_store ''terra1eeeeeeeeeeeeeeeeeeee''))"
  using wasm_refines_registry [OF wasm_ref_laws chain_accounted pass_on_reach] by blast

theorem frozen_contract_witness:
  "map_of (ws_contracts (chain_store ''terra1eeeeeeeeeeeeeeeeeeee'')) ''aaaaaaaaaaaaaaaaaaaa'' = Some frozen_info"
  using frozen_contract [OF wasm_ref_laws chain_accounted pass_on_reach, of "''aaaaaaaaaaaaaaaaaaaa''" frozen_info]
  by (simp add: chain_store_def frozen_info_def)

theorem contracts_have_code_witness:
  "\<exists>i. map_of (ws_contracts (chain_store ''terra1eeeeeeeeeeeeeeeeeeee'')) ''bbbbbbbbbbbbbbbbbbbb'' = Some i
     \<and> co_creator i = ''terra1cccccccccccccccccccc'' \<and> map_of (ws_codes (chain_store ''terra1eeeeeeeeeeeeeeeeeeee'')) (co_code_id i) \<noteq> None"
proof -
  have "\<forall>a i. map_of (ws_contracts (chain_store ''terra1dddddddddddddddddddd'')) a = Some i \<longrightarrow>
      map_of (ws_codes (chain_store ''terra1dddddddddddddddddddd'')) (co_code_id i) \<noteq> None"
    by (auto simp: chain_store_def managed_info_def frozen_info_def split: if_splits)
  moreover have "map_of (ws_contracts (chain_store ''terra1dddddddddddddddddddd'')) ''bbbbbbbbbbbbbbbbbbbb''
      = Some (managed_info ''terra1dddddddddddddddddddd'')" by (simp add: chain_store_def)
  ultimately show ?thesis
    using contracts_have_code [OF wasm_ref_laws chain_accounted pass_on_reach] by (fastforce simp: managed_info_def)
qed

theorem admin_only_witness:
  "\<exists>signer. wasm_GetSigners wasm_ref pass_on = Ok [signer]
     \<and> acc_of_bech32 sdk_ref ''terra1dddddddddddddddddddd'' = Ok signer"
proof -
  obtain st' where "msg_server wasm_ref (\<lambda>_ _. give None) chain_ctx pass_on (chain_state ''terra1dddddddddddddddddddd'')
      = (Ret UpdateAdminResponse, st')" using pass_on_server by blast
  from admin_only [OF _ this] sdk_ref_laws show ?thesis
    by (simp add: pass_on_def chain_state_def chain_store_def GetContractInfo_def managed_info_def)
qed

theorem nested_calls_bounded_witness:
  "fst (route wasm_ref chain_ctx 2501 (WasmMsg failing_call) (chain_state '''')) \<noteq> Unfinished"
  by (rule nested_calls_bounded [OF wasm_ref_laws])
    (simp add: chain_state_def chain_accounted, simp add: chain_state_def chain_store_def)

definition bad_sub :: sub_msg where
  "bad_sub = \<lparr>sm_id = 7, sm_msg = \<lparr>cw_bank = Some \<lparr>vb_send = Some (''terra1ffffffffffffffffffff'', []), vb_burn = None\<rparr>,
       cw_custom = None, cw_staking = None, cw_distribution = None, cw_gov = None, cw_wasm = None, cw_stargate = None, cw_ibc = False\<rparr>,
     sm_gas_limit = Some 500, sm_reply_on = ReplyError\<rparr>"

lemma bad_sub_parse:
  "MsgParser_Parse wasm_ref (app_parsers wasm_ref) ''aaaaaaaaaaaaaaaaaaaa'' (sm_msg bad_sub)
     = Ok (Some (BankSend ''aaaaaaaaaaaaaaaaaaaa'' ''ffffffffffffffffffff'' []))"
  by (simp add: bad_sub_def MsgParser_Parse_def bank_Parse_def ParseToCoins_def checked_def)

lemma route_bank: "route wasm_ref chain_ctx (Suc 0) (BankSend f t cs) st = (Fail ErrUnknownRequest, st)"
  by (simp add: calls.simps Let_def route_msg_def)

lemma no_tax: "FilterMsgAndComputeTax sdk_ref d r cap [MsgSend []] = Ok []"
  by (simp add: FilterMsgAndComputeTax_def computeTax_def coins_eval)

lemma bad_sub_fails:
  "\<exists>st'. dispatch_sub wasm_ref (route wasm_ref chain_ctx (Suc 0)) ''aaaaaaaaaaaaaaaaaaaa'' bad_sub (chain_state '''')
     = (Ret (Err ErrUnknownRequest), st')"
proof -
  have "dispatchMessage wasm_ref (route wasm_ref chain_ctx (Suc 0)) ''aaaaaaaaaaaaaaaaaaaa'' (sm_msg bad_sub) st
      = (Fail ErrUnknownRequest, st)" for st
    unfolding dispatchMessage_def bad_sub_parse
    by (simp add: thenDo_def no_tax deduct_tax_def handleSdkMessage_def route_bank)
  then show ?thesis
    by (simp add: dispatch_sub_def Let_def dispatchMessageWithGasLimit_def limited_dispatch_def bad_sub_def
        chain_state_def st_gas_def with_gas_def with_events_def thenDo_def onGas_def meter_consume_def)
qed

theorem submessage_contained_witness:
  "\<exists>st'. dispatch_sub wasm_ref (route wasm_ref chain_ctx (Suc 0)) ''aaaaaaaaaaaaaaaaaaaa'' bad_sub (chain_state '''')
       = (Ret (Err ErrUnknownRequest), st')
     \<and> unat (gm_consumed (st_gas st')) \<le> 510 \<and> ks_wasm st' = chain_store ''''"
proof -
  obtain st' where d: "dispatch_sub wasm_ref (route wasm_ref chain_ctx (Suc 0)) ''aaaaaaaaaaaaaaaaaaaa'' bad_sub (chain_state '''')
     = (Ret (Err ErrUnknownRequest), st')" using bad_sub_fails by blast
  have "unat (gm_consumed (st_gas st')) \<le> unat (gm_consumed (st_gas (chain_state ''''))) + unat (500 :: u64)
    \<and> (\<forall>err. Err ErrUnknownRequest = (Err err :: (event list \<times> bytes) outcome) \<longrightarrow> st' = with_gas (st_gas st') (chain_state ''''))"
    by (rule submessage_contained [OF wasm_ref_laws _ _ _ _ d])
      (simp_all add: chain_state_def chain_accounted bad_sub_def st_gas_def)
  then have g: "unat (gm_consumed (st_gas st')) \<le> 510" and s: "st' = with_gas (st_gas st') (chain_state '''')"
    by (simp_all add: chain_state_def st_gas_def)
  have "ks_wasm st' = ks_wasm (with_gas (st_gas st') (chain_state ''''))" by (rule arg_cong [OF s])
  then have "ks_wasm st' = chain_store ''''" by (simp add: with_gas_def chain_state_def)
  with d g show ?thesis by blast
qed

theorem contract_signs_witness:
  "GetSigners wasm_ref (BankSend ''aaaaaaaaaaaaaaaaaaaa'' ''ffffffffffffffffffff'' []) = Ok [''aaaaaaaaaaaaaaaaaaaa'']"
  using contract_signs [OF wasm_ref_signers _ _ bad_sub_parse, where h = "\<lambda>m. lift Panic"] sdk_ref_laws by (simp add: bad_sub_def)

lemma failing_call_costs: "InstantiateContractCosts wasm_ref (Suc 0) = Ok (instantiateCost + contractMessageDataCostPerByte)"
  by (simp add: InstantiateContractCosts_def instantiateCost_def contractMessageDataCostPerByte_def)

lemma failing_run:
  assumes "gm_limit (st_gas st) = 999989" "gm_consumed (st_gas st) = 40004" "gm_infinite (st_gas st) = False"
  shows "\<exists>st'. run_contract wasm_ref c a (ref_run [1]) ErrExecuteFailed st = (Fail ErrExecuteFailed, st')"
  using assms
  by (simp add: run_contract_def thenDo_def getWasmVMGasRemaining_def ToWasmVMGas_def GasMultiplier_def ref_run_def
      onGas_def consumeWasmVMGas_def FromWasmVMGas_def meter_consume_def Let_def)

lemma failing_execute:
  "\<exists>st'. ExecuteContract wasm_ref (\<lambda>_ _. give None) chain_ctx ''bbbbbbbbbbbbbbbbbbbb'' ''dddddddddddddddddddd'' [1] []
     (with_gas \<lparr>gm_limit = 999989, gm_consumed = 0, gm_infinite = False\<rparr> (chain_state '''')) = (Fail ErrExecuteFailed, st')"
proof -
  let ?s = "\<lambda>g. with_gas \<lparr>gm_limit = 999989, gm_consumed = g, gm_infinite = False\<rparr> (chain_state '''')"
  have "onGas (charge wasm_ref (InstantiateContractCosts wasm_ref (Suc 0))) (?s 0) = (Ret (), ?s 40001)"
    by (simp add: failing_call_costs charge_def thenDo_def onGas_def meter_consume_def st_gas_def with_gas_def
        instantiateCost_def contractMessageDataCostPerByte_def)
  moreover have "check_msg_size wasm_ref [1] (?s 40001) = (Ret (), ?s 40002)"
    by (simp add: check_msg_size_def readW_def readK_def onGas_def thenDo_def meter_consume_def st_gas_def with_gas_def
        chain_state_def chain_store_def)
  moreover have "onGas (getContractDetails wasm_ref ''bbbbbbbbbbbbbbbbbbbb'' (ks_wasm (?s 40002))) (?s 40002) =
      (Ret (\<lparr>ci_code_id = 1, ci_hash = [1], ci_creator = ''terra1cccccccccccccccccccc''\<rparr>, contract_store ''bbbbbbbbbbbbbbbbbbbb'' (chain_store '''')), ?s 40004)"
    by (simp add: readK_def getContractDetails_def GetContractInfo_def GetCodeInfo_def with_gas_def chain_state_def
        chain_store_def managed_info_def onGas_def thenDo_def meter_consume_def st_gas_def give_def)
  moreover obtain st' where "run_contract wasm_ref chain_ctx ''bbbbbbbbbbbbbbbbbbbb'' (ref_run [1]) ErrExecuteFailed (?s 40004) = (Fail ErrExecuteFailed, st')"
    using failing_run [of "?s 40004"] by (auto simp: st_gas_def with_gas_def)
  ultimately show ?thesis by (simp add: ExecuteContract_def thenDo_def give_def)
qed

lemma failing_call_fails:
  "\<exists>st'. msg_server wasm_ref (\<lambda>_ _. give None) chain_ctx failing_call (chain_state '''') = (Fail ErrExecuteFailed, st')"
proof -
  let ?m = "\<lambda>l g. \<lparr>gm_limit = l, gm_consumed = g, gm_infinite = False\<rparr>"
  let ?s = "with_gas (?m 1000000 11) (chain_state '''')"
  have "readW wasm_ref (ParamKey ''MaxContractGas'') (\<lambda>w. Ok (MaxContractGas (ws_params w))) (chain_state '''')
      = (Ret 100000000, ?s)"
    by (simp add: readW_def readK_def onGas_def thenDo_def meter_consume_def st_gas_def with_gas_def chain_state_def chain_store_def)
  moreover have "contract_gas_limit 100000000 (st_gas ?s) = 999989" by (simp add: contract_gas_limit_def st_gas_def with_gas_def)
  moreover have "with_gas (?m 999989 0) (with_events [] ?s) = with_gas (?m 999989 0) (chain_state '''')"
    by (simp add: with_gas_def with_events_def chain_state_def)
  ultimately show ?thesis
    using failing_execute by (auto simp: failing_call_def msg_ExecuteContract_def thenDo_def with_sub_meter_def on_sub_meter_def)
qed

theorem failed_call_free_witness:
  "\<exists>st'. msg_server wasm_ref (\<lambda>_ _. give None) chain_ctx failing_call (chain_state '''') = (Fail ErrExecuteFailed, st')
     \<and> unat (gm_consumed (st_gas st')) \<le> 11"
proof -
  obtain st' where f: "msg_server wasm_ref (\<lambda>_ _. give None) chain_ctx failing_call (chain_state '''')
    = (Fail ErrExecuteFailed, st')" using failing_call_fails by blast
  have "st_gas st' = st_gas (chain_state '''')
    \<or> read_gas wasm_ref (ParamKey ''MaxContractGas'') (ks_wasm (chain_state '''')) (st_gas (chain_state '''')) = (Ret (), st_gas st')"
    by (rule failed_call_free [OF wasm_lawsD(1) [OF wasm_ref_laws] _ f]) (simp add: failing_call_def)
  then have "unat (gm_consumed (st_gas st')) \<le> 11"
    by (auto simp: chain_state_def st_gas_def meter_consume_def dest: sym)
  with f show ?thesis by blast
qed

theorem export_not_importable_witness:
  "\<exists>g. wasm_ExportGenesis (chain_store '''') = Ok g \<and> wasm_ValidateGenesis g = Err ErrInvalidGenesis"
  by (rule export_not_importable [of _ 1 2]) (simp_all add: chain_store_def)

theorem contract_address_unique_witness:
  "GenerateContractAddress wasm_ref 1 1 = address_hash wasm_ref (addr_preimage (contract_id 1 1))
    \<and> addr_preimage (contract_id 1 1) \<noteq> addr_preimage (contract_id 1 2)"
  using contract_address_unique [of wasm_ref 1 1 1 2] by simp

end
