(* ===== verification/SigVerify.thy ===== *)
theory SigVerify
  imports Gas CoreTypes
begin

text \<open>
  The decorators of \<open>src/custom/auth/ante/sigverify.go\<close>: public keys of the signers, the count of
  signatures, the gas of their verification, the verification and the sequence numbers. Accounts, their
  keeper, the gas meter and the cryptography are parameters. Every decorator ends by calling the next,
  so that a chain of decorators is a sequence of actions.
\<close>

section \<open>Keys, signatures and transactions\<close>

text \<open>
  The public key types the code tells apart. A multisignature key of the SDK is \<open>LegacyAminoKey\<close>; the
  interface \<open>multisig.PubKey\<close> may have other implementations.
\<close>

datatype pub_key =
    Ed25519Key bytes
  | Secp256k1Key bytes
  | Secp256r1Key bytes
  | LegacyAminoKey nat "pub_key list"
  | MultisigKey "pub_key list"
  | OtherKey bytes

datatype sign_mode = SignModeUnspecified | SignModeDirect | SignModeTextual | SignModeLegacyAmino

datatype sig_data =
    SingleSignatureData sign_mode bytes
  | MultiSignatureData "bool list" "sig_data list"
  | NilSignatureData
  | OtherSignatureData

record signature_v2 =
  sg_data :: sig_data
  sg_sequence :: u64

record auth_params =
  TxSigLimit :: u64
  SigVerifyCostED25519 :: u64
  SigVerifyCostSecp256k1 :: u64
  SigVerifyCostSecp256r1 :: u64

record signer_data =
  sd_chain :: string
  sd_number :: u64
  sd_sequence :: u64

text \<open>What the methods of a transaction return.\<close>

record sig_tx =
  tx_signers :: "addr list"
  tx_pub_keys :: "pub_key option list outcome"
  tx_signatures :: "signature_v2 list outcome"

text \<open>
  The keeper of the accounts with the meter and the events, as actions on the state \<open>'s\<close>, and the
  accounts \<open>'a\<close>.
\<close>

record ('s, 'a) auth_env =
  consume :: "u64 \<Rightarrow> ('s, unit) action"
  emit :: "event list \<Rightarrow> ('s, unit) action"
  ak_get :: "addr \<Rightarrow> ('s, 'a option) action"
  ak_set :: "'a \<Rightarrow> ('s, unit) action"
  ak_params :: "('s, auth_params) action"
  acc_pub_key :: "'a \<Rightarrow> pub_key option"
  acc_set_pub_key :: "pub_key \<Rightarrow> 'a \<Rightarrow> 'a outcome"
  acc_sequence :: "'a \<Rightarrow> u64"
  acc_set_sequence :: "u64 \<Rightarrow> 'a \<Rightarrow> 'a outcome"
  acc_number :: "'a \<Rightarrow> u64"
  pk_address :: "pub_key \<Rightarrow> addr"
  verify_signature :: "pub_key option \<Rightarrow> signer_data \<Rightarrow> sig_data \<Rightarrow> sig_tx \<Rightarrow> unit outcome"
  marshal_multi :: "bytes list \<Rightarrow> bytes outcome"
  base64 :: "bytes \<Rightarrow> string"
  account_sequence_text :: "addr \<Rightarrow> u64 \<Rightarrow> string"

definition simSecp256k1Pubkey :: pub_key where
  "simSecp256k1Pubkey = Secp256k1Key
    [0x03, 0x5A, 0xD6, 0x81, 0x0A, 0x47, 0xF0, 0x73, 0x55, 0x3F, 0xF3, 0x0D, 0x2F, 0xCC, 0x7E, 0x0D, 0x3B,
     0x1C, 0x0B, 0x74, 0xB6, 0x1A, 0x1A, 0xAA, 0x25, 0x82, 0x34, 0x40, 0x37, 0x15, 0x1E, 0x14, 0x3A]"


section \<open>The gas of a signature\<close>

fun CountSubKeys :: "pub_key \<Rightarrow> nat" where
  "CountSubKeys (LegacyAminoKey t ks) = sum_list (map CountSubKeys ks)"
| "CountSubKeys k = 1"

fun OnlyLegacyAminoSigners :: "sig_data \<Rightarrow> bool" where
  "OnlyLegacyAminoSigners (SingleSignatureData mode s) \<longleftrightarrow> mode = SignModeLegacyAmino"
| "OnlyLegacyAminoSigners (MultiSignatureData bits sigs) \<longleftrightarrow> list_all OnlyLegacyAminoSigners sigs"
| "OnlyLegacyAminoSigners _ \<longleftrightarrow> False"

text \<open>
  The loop over the bits of a multisignature takes the key of each set bit and the next signature; an
  index out of range is a panic.
\<close>

function (sequential) DefaultSigVerificationGasConsumer ::
  "('s, 'a) auth_env \<Rightarrow> auth_params \<Rightarrow> pub_key option \<Rightarrow> sig_data \<Rightarrow> ('s, unit) action"
and ConsumeMultisignatureVerificationGas ::
  "('s, 'a) auth_env \<Rightarrow> auth_params \<Rightarrow> bool list \<Rightarrow> pub_key list \<Rightarrow> sig_data list \<Rightarrow> ('s, unit) action" where
  "DefaultSigVerificationGasConsumer E p None data = lift (Err ErrInvalidPubKey)"
| "DefaultSigVerificationGasConsumer E p (Some (Ed25519Key k)) data =
    thenDo (consume E (SigVerifyCostED25519 p)) (\<lambda>_. lift (Err ErrInvalidPubKey))"
| "DefaultSigVerificationGasConsumer E p (Some (Secp256k1Key k)) data = consume E (SigVerifyCostSecp256k1 p)"
| "DefaultSigVerificationGasConsumer E p (Some (Secp256r1Key k)) data = consume E (SigVerifyCostSecp256r1 p)"
| "DefaultSigVerificationGasConsumer E p (Some (OtherKey k)) data = lift (Err ErrInvalidPubKey)"
| "DefaultSigVerificationGasConsumer E p (Some (LegacyAminoKey t ks)) (MultiSignatureData bits sigs) =
    ConsumeMultisignatureVerificationGas E p bits ks sigs"
| "DefaultSigVerificationGasConsumer E p (Some (MultisigKey ks)) (MultiSignatureData bits sigs) =
    ConsumeMultisignatureVerificationGas E p bits ks sigs"
| "DefaultSigVerificationGasConsumer E p (Some k) data = lift (Err (ErrMsg ''expected MultiSignatureData''))"
| "ConsumeMultisignatureVerificationGas E p [] ks sigs = give ()"
| "ConsumeMultisignatureVerificationGas E p (False # bits) ks sigs =
    ConsumeMultisignatureVerificationGas E p bits (tl ks) sigs"
| "ConsumeMultisignatureVerificationGas E p (True # bits) (k # ks) (s # sigs) =
    thenDo (DefaultSigVerificationGasConsumer E p (Some k) s) (\<lambda>_.
    ConsumeMultisignatureVerificationGas E p bits ks sigs)"
| "ConsumeMultisignatureVerificationGas E p (True # bits) ks sigs = lift Panic"
  by pat_completeness auto

termination
  by (relation "measures
      [\<lambda>x. case x of Inl (E, p, k, d) \<Rightarrow> 2 * size d | Inr (E, p, bits, ks, sigs) \<Rightarrow> 2 * size_list size sigs + 1,
       \<lambda>x. case x of Inl y \<Rightarrow> 0 | Inr (E, p, bits, ks, sigs) \<Rightarrow> length bits]") auto

text \<open>The raw signatures, for the events.\<close>

fun signatureDataToBz :: "('s, 'a) auth_env \<Rightarrow> sig_data \<Rightarrow> bytes list outcome"
and signatures_to_bz :: "('s, 'a) auth_env \<Rightarrow> sig_data list \<Rightarrow> bytes list outcome" where
  "signatureDataToBz E NilSignatureData = Err (ErrMsg ''got empty SignatureData'')"
| "signatureDataToBz E (SingleSignatureData mode s) = Ok [s]"
| "signatureDataToBz E (MultiSignatureData bits sigs) =
    andThen (signatures_to_bz E sigs) (\<lambda>bzs.
    andThen (marshal_multi E bzs) (\<lambda>aggregated. Ok (bzs @ [aggregated])))"
| "signatureDataToBz E OtherSignatureData = Err ErrInvalidType"
| "signatures_to_bz E [] = Ok []"
| "signatures_to_bz E (d # ds) =
    andThen (signatureDataToBz E d) (\<lambda>bzs. andThen (signatures_to_bz E ds) (\<lambda>rest. Ok (bzs @ rest)))"


section \<open>The decorators\<close>

definition GetSignerAcc :: "('s, 'a) auth_env \<Rightarrow> addr \<Rightarrow> ('s, 'a) action" where
  "GetSignerAcc E a =
    thenDo (ak_get E a) (\<lambda>acc. case acc of Some x \<Rightarrow> give x | None \<Rightarrow> lift (Err ErrUnknownAddress))"

text \<open>\<open>signers[i]\<close>, with the signers from index \<open>i\<close> on.\<close>

fun signer_at :: "addr list \<Rightarrow> ('s, addr) action" where
  "signer_at [] = lift Panic"
| "signer_at (a # as) = give a"

definition set_pub_key :: "('s, 'a) auth_env \<Rightarrow> bool \<Rightarrow> pub_key \<Rightarrow> addr \<Rightarrow> ('s, unit) action" where
  "set_pub_key E simulate pk signer =
    (if \<not> simulate \<and> pk_address E pk \<noteq> signer then lift (Err ErrInvalidPubKey)
     else
     thenDo (GetSignerAcc E signer) (\<lambda>acc.
     if acc_pub_key E acc \<noteq> None then give ()
     else
     thenDo (lift (wrapErr ErrInvalidPubKey (acc_set_pub_key E pk acc))) (ak_set E)))"

fun set_pub_keys :: "('s, 'a) auth_env \<Rightarrow> bool \<Rightarrow> pub_key option list \<Rightarrow> addr list \<Rightarrow> ('s, unit) action" where
  "set_pub_keys E simulate [] signers = give ()"
| "set_pub_keys E simulate (pk # pks) signers =
    thenDo
      (case pk of
         Some k \<Rightarrow> thenDo (signer_at signers) (set_pub_key E simulate k)
       | None \<Rightarrow> if \<not> simulate then give () else thenDo (signer_at signers) (set_pub_key E simulate simSecp256k1Pubkey))
      (\<lambda>_. set_pub_keys E simulate pks (tl signers))"

fun signature_events ::
  "('s, 'a) auth_env \<Rightarrow> signature_v2 list \<Rightarrow> addr list \<Rightarrow> event list \<Rightarrow> ('s, event list) action" where
  "signature_events E [] signers events = give events"
| "signature_events E (sig # sigs) signers events =
    thenDo (signer_at signers) (\<lambda>signer.
    thenDo (lift (signatureDataToBz E (sg_data sig))) (\<lambda>bzs.
    signature_events E sigs (tl signers)
      (events @ \<lparr>ev_type = ''tx'', ev_attrs = [(''acc_seq'', account_sequence_text E signer (sg_sequence sig))]\<rparr>
        # map (\<lambda>bz. \<lparr>ev_type = ''tx'', ev_attrs = [(''signature'', base64 E bz)]\<rparr>) bzs)))"

text \<open>A transaction that carries no signatures is \<open>None\<close>.\<close>

definition SetPubKey_AnteHandle :: "('s, 'a) auth_env \<Rightarrow> bool \<Rightarrow> sig_tx option \<Rightarrow> ('s, unit) action" where
  "SetPubKey_AnteHandle E simulate tx =
    (case tx of None \<Rightarrow> lift (Err ErrTxDecode) | Some sigTx \<Rightarrow>
     thenDo (lift (tx_pub_keys sigTx)) (\<lambda>pubkeys.
     thenDo (set_pub_keys E simulate pubkeys (tx_signers sigTx)) (\<lambda>_.
     thenDo (lift (tx_signatures sigTx)) (\<lambda>sigs.
     thenDo (signature_events E sigs (tx_signers sigTx) []) (emit E)))))"

fun consume_sig_gas ::
  "('s, 'a) auth_env \<Rightarrow> (auth_params \<Rightarrow> pub_key option \<Rightarrow> sig_data \<Rightarrow> ('s, unit) action) \<Rightarrow> bool \<Rightarrow> auth_params \<Rightarrow>
    signature_v2 list \<Rightarrow> addr list \<Rightarrow> ('s, unit) action" where
  "consume_sig_gas E sigGasConsumer simulate params [] signers = give ()"
| "consume_sig_gas E sigGasConsumer simulate params (sig # sigs) signers =
    thenDo (signer_at signers) (\<lambda>signer.
    thenDo (GetSignerAcc E signer) (\<lambda>acc.
    let pubKey = (if simulate \<and> acc_pub_key E acc = None then Some simSecp256k1Pubkey else acc_pub_key E acc) in
    thenDo (sigGasConsumer params pubKey (sg_data sig)) (\<lambda>_.
    consume_sig_gas E sigGasConsumer simulate params sigs (tl signers))))"

definition SigGasConsume_AnteHandle ::
  "('s, 'a) auth_env \<Rightarrow> (auth_params \<Rightarrow> pub_key option \<Rightarrow> sig_data \<Rightarrow> ('s, unit) action) \<Rightarrow> bool \<Rightarrow>
    sig_tx option \<Rightarrow> ('s, unit) action" where
  "SigGasConsume_AnteHandle E sigGasConsumer simulate tx =
    (case tx of None \<Rightarrow> lift (Err ErrTxDecode) | Some sigTx \<Rightarrow>
     thenDo (ak_params E) (\<lambda>params.
     thenDo (lift (tx_signatures sigTx)) (\<lambda>sigs.
     consume_sig_gas E sigGasConsumer simulate params sigs (tx_signers sigTx))))"

text \<open>At height zero the account number signed is zero. The texts of the errors are not modelled.\<close>

definition verify_signer ::
  "('s, 'a) auth_env \<Rightarrow> ctx \<Rightarrow> bool \<Rightarrow> bool \<Rightarrow> sig_tx \<Rightarrow> signature_v2 \<Rightarrow> addr \<Rightarrow> ('s, unit) action" where
  "verify_signer E c simulate recheck tx sig signer =
    thenDo (GetSignerAcc E signer) (\<lambda>acc.
    if \<not> simulate \<and> acc_pub_key E acc = None then lift (Err ErrInvalidPubKey)
    else if sg_sequence sig \<noteq> acc_sequence E acc then lift (Err ErrWrongSequence)
    else
    let accNum = (if ctx_height c \<noteq> 0 then acc_number E acc else 0);
        signerData = \<lparr>sd_chain = ctx_chain c, sd_number = accNum, sd_sequence = acc_sequence E acc\<rparr> in
    if \<not> simulate \<and> \<not> recheck
    then lift (wrapErr ErrUnauthorized (verify_signature E (acc_pub_key E acc) signerData (sg_data sig) tx))
    else give ())"

fun verify_signers ::
  "('s, 'a) auth_env \<Rightarrow> ctx \<Rightarrow> bool \<Rightarrow> bool \<Rightarrow> sig_tx \<Rightarrow> (signature_v2 \<times> addr) list \<Rightarrow> ('s, unit) action" where
  "verify_signers E c simulate recheck tx [] = give ()"
| "verify_signers E c simulate recheck tx ((sig, signer) # rest) =
    thenDo (verify_signer E c simulate recheck tx sig signer) (\<lambda>_. verify_signers E c simulate recheck tx rest)"

definition SigVerification_AnteHandle ::
  "('s, 'a) auth_env \<Rightarrow> ctx \<Rightarrow> bool \<Rightarrow> bool \<Rightarrow> sig_tx option \<Rightarrow> ('s, unit) action" where
  "SigVerification_AnteHandle E c simulate recheck tx =
    (case tx of None \<Rightarrow> lift (Err ErrTxDecode) | Some sigTx \<Rightarrow>
     thenDo (lift (tx_signatures sigTx)) (\<lambda>sigs.
     if length sigs \<noteq> length (tx_signers sigTx) then lift (Err ErrUnauthorized)
     else verify_signers E c simulate recheck sigTx (zip sigs (tx_signers sigTx))))"

text \<open>A missing account is a nil pointer, a refused sequence a panic.\<close>

fun increment_sequences :: "('s, 'a) auth_env \<Rightarrow> addr list \<Rightarrow> ('s, unit) action" where
  "increment_sequences E [] = give ()"
| "increment_sequences E (a # as) =
    thenDo (ak_get E a) (\<lambda>acc. case acc of None \<Rightarrow> lift Panic | Some x \<Rightarrow>
    thenDo (lift (mustOk (acc_set_sequence E (acc_sequence E x + 1) x))) (\<lambda>x'.
    thenDo (ak_set E x') (\<lambda>_. increment_sequences E as)))"

definition IncrementSequence_AnteHandle :: "('s, 'a) auth_env \<Rightarrow> sig_tx option \<Rightarrow> ('s, unit) action" where
  "IncrementSequence_AnteHandle E tx =
    (case tx of None \<Rightarrow> lift (Err ErrTxDecode) | Some sigTx \<Rightarrow> increment_sequences E (tx_signers sigTx))"

text \<open>A nil key counts as one.\<close>

fun count_keys :: "auth_params \<Rightarrow> pub_key option list \<Rightarrow> nat \<Rightarrow> unit outcome" where
  "count_keys params [] sigCount = Ok ()"
| "count_keys params (pk # pks) sigCount =
    (let n = sigCount + (case pk of Some k \<Rightarrow> CountSubKeys k | None \<Rightarrow> 1) in
     if TxSigLimit params < word_of_nat n then Err ErrTooManySignatures else count_keys params pks n)"

definition ValidateSigCount_AnteHandle :: "('s, 'a) auth_env \<Rightarrow> sig_tx option \<Rightarrow> ('s, unit) action" where
  "ValidateSigCount_AnteHandle E tx =
    (case tx of None \<Rightarrow> lift (Err ErrTxDecode) | Some sigTx \<Rightarrow>
     thenDo (ak_params E) (\<lambda>params.
     thenDo (lift (tx_pub_keys sigTx)) (\<lambda>pubKeys.
     lift (count_keys params pubKeys 0))))"

section \<open>Laws of accounts and their keeper\<close>

text \<open>
  Reading an account charges gas and changes no account; writing one stores it at its address; setting
  the sequence of an account changes nothing else of it. \<open>accounts\<close> are the accounts of a state and
  \<open>ad\<close> the address an account carries.
\<close>

definition auth_laws :: "('s \<Rightarrow> addr \<rightharpoonup> 'a) \<Rightarrow> ('a \<Rightarrow> addr) \<Rightarrow> ('s, 'a) auth_env \<Rightarrow> bool" where
  "auth_laws accounts ad E \<longleftrightarrow>
    (\<forall>a s r s'. ak_get E a s = (r, s') \<longrightarrow>
       accounts s' = accounts s \<and> (\<forall>x. r = Ret x \<longrightarrow> x = accounts s a) \<and> (\<forall>e. r \<noteq> Fail e))
    \<and> (\<forall>x s s'. ak_set E x s = (Ret (), s') \<longrightarrow> accounts s' = (accounts s)(ad x \<mapsto> x))
    \<and> (\<forall>n x x'. acc_set_sequence E n x = Ok x' \<longrightarrow>
         acc_sequence E x' = n \<and> ad x' = ad x \<and> acc_pub_key E x' = acc_pub_key E x \<and> acc_number E x' = acc_number E x)
    \<and> (\<forall>s a x. accounts s a = Some x \<longrightarrow> ad x = a)"

lemma auth_lawsD:
  assumes "auth_laws accounts ad E"
  shows "ak_get E a s = (r, s') \<Longrightarrow> accounts s' = accounts s" "ak_get E a s = (Ret x, s') \<Longrightarrow> x = accounts s a"
    "ak_get E a s \<noteq> (Fail e, s')" "ak_set E y s = (Ret (), s') \<Longrightarrow> accounts s' = (accounts s)(ad y \<mapsto> y)"
    "acc_set_sequence E n y = Ok y' \<Longrightarrow> acc_sequence E y' = n \<and> ad y' = ad y \<and> acc_pub_key E y' = acc_pub_key E y"
    "accounts s a = Some y \<Longrightarrow> ad y = a"
  using assms unfolding auth_laws_def by blast+

lemma GetSignerAcc_Ret:
  assumes "auth_laws accounts ad E" "GetSignerAcc E a s = (Ret x, s')"
  shows "accounts s a = Some x" "accounts s' = accounts s"
  using assms(2) auth_lawsD(1,2) [OF assms(1)]
  by (auto simp: GetSignerAcc_def thenDo_Ret give_def lift_Ret split: option.splits)

section \<open>Verified signatures\<close>

definition signed_by ::
  "('s, 'a) auth_env \<Rightarrow> ctx \<Rightarrow> bool \<Rightarrow> bool \<Rightarrow> sig_tx \<Rightarrow> signature_v2 \<Rightarrow> 'a \<Rightarrow> bool" where
  "signed_by E c simulate recheck tx sig x \<longleftrightarrow>
    (\<not> simulate \<longrightarrow> acc_pub_key E x \<noteq> None) \<and> sg_sequence sig = acc_sequence E x
    \<and> (\<not> simulate \<longrightarrow> \<not> recheck \<longrightarrow>
        verify_signature E (acc_pub_key E x)
          \<lparr>sd_chain = ctx_chain c, sd_number = (if ctx_height c = 0 then 0 else acc_number E x),
           sd_sequence = sg_sequence sig\<rparr> (sg_data sig) tx = Ok ())"

lemma verify_signer_Ret:
  assumes L: "auth_laws accounts ad E" and v: "verify_signer E c simulate recheck tx sig a s = (Ret (), s')"
  shows "\<exists>x. accounts s a = Some x \<and> signed_by E c simulate recheck tx sig x" "accounts s' = accounts s"
proof -
  from v obtain x s1 where g: "GetSignerAcc E a s = (Ret x, s1)"
    and r: "(if \<not> simulate \<and> acc_pub_key E x = None then lift (Err ErrInvalidPubKey)
      else if sg_sequence sig \<noteq> acc_sequence E x then lift (Err ErrWrongSequence)
      else let accNum = (if ctx_height c \<noteq> 0 then acc_number E x else 0);
        signerData = \<lparr>sd_chain = ctx_chain c, sd_number = accNum, sd_sequence = acc_sequence E x\<rparr> in
        if \<not> simulate \<and> \<not> recheck
        then lift (wrapErr ErrUnauthorized (verify_signature E (acc_pub_key E x) signerData (sg_data sig) tx))
        else give ()) s1 = (Ret (), s')"
    unfolding verify_signer_def by (auto simp: thenDo_Ret)
  note x = GetSignerAcc_Ret [OF L g]
  have "signed_by E c simulate recheck tx sig x" "s' = s1"
    using r by (auto simp: signed_by_def Let_def lift_Ret give_def split: if_splits)
  with x show "\<exists>x. accounts s a = Some x \<and> signed_by E c simulate recheck tx sig x" "accounts s' = accounts s" by auto
qed

lemma verify_signers_Ret:
  assumes L: "auth_laws accounts ad E"
  shows "verify_signers E c simulate recheck tx ps s = (Ret (), s') \<Longrightarrow>
    accounts s' = accounts s \<and> (\<forall>(sig, a) \<in> set ps. \<exists>x. accounts s a = Some x \<and> signed_by E c simulate recheck tx sig x)"
proof (induction ps arbitrary: s)
  case (Cons p ps)
  obtain sig a where p: "p = (sig, a)" by (cases p)
  from Cons.prems p obtain s1 where 1: "verify_signer E c simulate recheck tx sig a s = (Ret (), s1)"
    and 2: "verify_signers E c simulate recheck tx ps s1 = (Ret (), s')" by (auto simp: thenDo_Ret)
  from verify_signer_Ret [OF L 1] Cons.IH [OF 2] p show ?case by auto
qed (auto simp: give_def)

lemma SigVerification_Ret:
  assumes L: "auth_laws accounts ad E"
    and v: "SigVerification_AnteHandle E c simulate recheck (Some tx) s = (Ret (), s')"
  shows "\<exists>sigs. tx_signatures tx = Ok sigs \<and> length sigs = length (tx_signers tx) \<and> accounts s' = accounts s
    \<and> (\<forall>i < length sigs. \<exists>x. accounts s (tx_signers tx ! i) = Some x \<and> signed_by E c simulate recheck tx (sigs ! i) x)"
proof -
  from v obtain sigs where s: "tx_signatures tx = Ok sigs" "length sigs = length (tx_signers tx)"
    "verify_signers E c simulate recheck tx (zip sigs (tx_signers tx)) s = (Ret (), s')"
    by (auto simp: SigVerification_AnteHandle_def thenDo_Ret lift_Ret split: if_splits)
  have "(sigs ! i, tx_signers tx ! i) \<in> set (zip sigs (tx_signers tx))" if "i < length sigs" for i
    using that s(2) by (auto simp: in_set_zip)
  with verify_signers_Ret [OF L s(3)] s(1,2) show ?thesis by fastforce
qed

text \<open>
  C16: A transaction that passes the signature check carries one signature per signer, and each
  signer's account exists, has a public key, has the sequence number the signature states, and the
  signature verifies against that key for this chain, that account number and that sequence number.
\<close>

theorem signatures_verified:
  assumes "auth_laws accounts ad E" "SigVerification_AnteHandle E c False False (Some tx) s = (Ret (), s')"
  shows "\<exists>sigs. tx_signatures tx = Ok sigs \<and> length sigs = length (tx_signers tx)
    \<and> (\<forall>i < length sigs. \<exists>x k. accounts s (tx_signers tx ! i) = Some x \<and> acc_pub_key E x = Some k
        \<and> sg_sequence (sigs ! i) = acc_sequence E x
        \<and> verify_signature E (Some k)
            \<lparr>sd_chain = ctx_chain c, sd_number = (if ctx_height c = 0 then 0 else acc_number E x),
             sd_sequence = acc_sequence E x\<rparr> (sg_data (sigs ! i)) tx = Ok ())"
proof -
  have k: "\<exists>k. acc_pub_key E x = Some k \<and> sg_sequence sig = acc_sequence E x
      \<and> verify_signature E (Some k) \<lparr>sd_chain = ctx_chain c, sd_number = (if ctx_height c = 0 then 0 else acc_number E x),
             sd_sequence = acc_sequence E x\<rparr> (sg_data sig) tx = Ok ()"
    if "signed_by E c False False tx sig x" for sig x
    using that unfolding signed_by_def by auto
  from SigVerification_Ret [OF assms] k show ?thesis by meson
qed

section \<open>Sequence numbers\<close>

lemma increment_sequences_Ret:
  assumes L: "auth_laws accounts ad E"
  shows "increment_sequences E as s = (Ret (), s') \<Longrightarrow> accounts s a = Some x \<Longrightarrow>
    \<exists>x'. accounts s' a = Some x' \<and> acc_sequence E x' = acc_sequence E x + word_of_nat (count_list as a)
      \<and> acc_pub_key E x' = acc_pub_key E x"
proof (induction as arbitrary: s x)
  case (Cons b as)
  from Cons.prems(1) obtain acc s1 where 1: "ak_get E b s = (Ret acc, s1)"
    and acc: "(case acc of None \<Rightarrow> lift Panic | Some x \<Rightarrow>
      thenDo (lift (mustOk (acc_set_sequence E (acc_sequence E x + 1) x))) (\<lambda>x'.
      thenDo (ak_set E x') (\<lambda>_. increment_sequences E as))) s1 = (Ret (), s')"
    by (auto simp: thenDo_Ret)
  from acc obtain y y' s2 where y: "acc = Some y" "acc_set_sequence E (acc_sequence E y + 1) y = Ok y'"
    and 2: "ak_set E y' s1 = (Ret (), s2)" and 3: "increment_sequences E as s2 = (Ret (), s')"
    by (cases acc) (auto simp: thenDo_Ret lift_Ret)
  note a1 = auth_lawsD(1,2) [OF L 1] and y' = auth_lawsD(5) [OF L y(2)] and a2 = auth_lawsD(4) [OF L 2]
  have ady: "ad y = b" using a1(2) y(1) auth_lawsD(6) [OF L] by metis
  show ?case
  proof (cases "b = a")
    case True
    then have "y = x" using a1(2) y(1) Cons.prems(2) by simp
    with Cons.IH [OF 3, of y'] a2 y' ady True show ?thesis by (auto simp: algebra_simps)
  next
    case False
    with Cons.IH [OF 3, of x] a2 y' ady a1(1) Cons.prems(2) show ?thesis by auto
  qed
qed (auto simp: give_def)

lemma verify_signer_stale:
  assumes L: "auth_laws accounts ad E" and x: "accounts s a = Some x" "acc_pub_key E x \<noteq> None"
    and q: "sg_sequence sig \<noteq> acc_sequence E x" and v: "verify_signer E c simulate recheck tx sig a s = (r, s')"
  shows "r = Fail ErrWrongSequence
    \<or> (\<exists>q. ak_get E a s = (q, s') \<and> (\<forall>acc. q \<noteq> Ret acc) \<and> r \<noteq> Ret () \<and> (\<forall>e. r \<noteq> Fail e))"
proof (cases "ak_get E a s")
  case (Pair g s1)
  show ?thesis
  proof (cases g)
    case (Ret acc)
    then have "acc = Some x" using auth_lawsD(2) [OF L] Pair x(1) by metis
    then have "GetSignerAcc E a s = (Ret x, s1)" using Pair Ret by (simp add: GetSignerAcc_def thenDo_eq give_def)
    with v x(2) q show ?thesis by (simp add: verify_signer_def thenDo_eq)
  next
    case (Fail e)
    then show ?thesis using auth_lawsD(3) [OF L] Pair by metis
  qed (use v Pair in \<open>auto simp: verify_signer_def GetSignerAcc_def thenDo_eq\<close>)
qed

lemma count_nonzero:
  assumes "length as < 2 ^ 64" "a \<in> set as"
  shows "(word_of_nat (count_list as a) :: u64) \<noteq> 0"
proof -
  have "0 < count_list as a" using assms(2) by (simp add: count_list_0_iff neq0_conv [symmetric] del: neq0_conv)
  moreover have "count_list as a < 2 ^ 64" using count_le_length [of as a] assms(1) by simp
  ultimately show ?thesis by (simp add: word_of_nat_eq_0_iff nat_dvd_not_less)
qed

text \<open>
  C8: No replay: after a transaction passed the signature check and the sequence numbers of its
  signers were incremented, the same transaction is refused for its sequence number, in any mode and at
  any height, unless reading the first signer's account does not return.
\<close>

theorem no_replay:
  assumes L: "auth_laws accounts ad E"
    and v: "SigVerification_AnteHandle E c False recheck (Some tx) s = (Ret (), s1)"
    and i: "IncrementSequence_AnteHandle E (Some tx) s1 = (Ret (), s2)"
    and n: "tx_signers tx = a # as" "length (tx_signers tx) < 2 ^ 64"
    and again: "SigVerification_AnteHandle E c' simulate recheck' (Some tx) s2 = (r, s3)"
  shows "r = Fail ErrWrongSequence
    \<or> (\<exists>q. ak_get E a s2 = (q, s3) \<and> (\<forall>acc. q \<noteq> Ret acc) \<and> r \<noteq> Ret () \<and> (\<forall>e. r \<noteq> Fail e))"
proof -
  from SigVerification_Ret [OF L v] n obtain sig sigs x where sigs: "tx_signatures tx = Ok (sig # sigs)"
    "length sigs = length as" and s1: "accounts s1 = accounts s"
    and x: "accounts s a = Some x" "signed_by E c False recheck tx sig x"
    by (auto simp: length_Suc_conv)
  from i s1 x(1) n obtain x' where x': "accounts s2 a = Some x'" "acc_pub_key E x' = acc_pub_key E x"
    "acc_sequence E x' = acc_sequence E x + word_of_nat (count_list (a # as) a)"
    using increment_sequences_Ret [OF L, of "a # as" s1 s2 a x] by (auto simp: IncrementSequence_AnteHandle_def)
  have ne: "sg_sequence sig \<noteq> acc_sequence E x'" "acc_pub_key E x' \<noteq> None"
    using x(2) x' count_nonzero [of "a # as" a] n by (auto simp: signed_by_def)
  obtain r1 s4 where v1: "verify_signer E c' simulate recheck' tx sig a s2 = (r1, s4)" by fastforce
  have "thenDo (verify_signer E c' simulate recheck' tx sig a)
      (\<lambda>_. verify_signers E c' simulate recheck' tx (zip sigs as)) s2 = (r, s3)"
    using again sigs n by (simp add: SigVerification_AnteHandle_def thenDo_eq)
  with v1 verify_signer_stale [OF L x'(1) ne(2,1) v1] show ?thesis
    by (cases r1) (auto simp: thenDo_eq)
qed

section \<open>The keys that sign and the gas they cost\<close>

text \<open>The keys at the bits that are set, and the single keys that sign, through nested multisignatures.\<close>

definition set_keys :: "bool list \<Rightarrow> pub_key list \<Rightarrow> pub_key list" where
  "set_keys bits ks = map snd (filter fst (zip bits ks))"

lemma set_keys_simps [simp]:
  "set_keys [] ks = []" "set_keys bits [] = []" "set_keys (False # bits) ks = set_keys bits (tl ks)"
  "set_keys (True # bits) (k # ks) = k # set_keys bits ks"
  unfolding set_keys_def by (auto simp: zip_Cons1 split: list.splits)

fun sub_keys :: "pub_key \<Rightarrow> pub_key list option" where
  "sub_keys (LegacyAminoKey t ks) = Some ks"
| "sub_keys (MultisigKey ks) = Some ks"
| "sub_keys _ = None"

function (sequential) signing_keys :: "sig_data \<Rightarrow> pub_key \<Rightarrow> pub_key list" where
  "signing_keys (MultiSignatureData bits sigs) k =
    (case sub_keys k of
       Some ks \<Rightarrow> concat (map (\<lambda>(d, k'). signing_keys d k') (zip sigs (set_keys bits ks)))
     | None \<Rightarrow> [k])"
| "signing_keys d k = [k]"
  by pat_completeness auto

termination
  by (relation "measure (\<lambda>(d, k). size d)") (auto dest!: set_zip_leftD intro: size_list_estimation' simp: less_Suc_eq_le trans_le_add2)

text \<open>What verifying with a single key costs; only the two curves below are accepted.\<close>

fun key_cost :: "auth_params \<Rightarrow> pub_key \<Rightarrow> u64 option" where
  "key_cost p (Secp256k1Key k) = Some (SigVerifyCostSecp256k1 p)"
| "key_cost p (Secp256r1Key k) = Some (SigVerifyCostSecp256r1 p)"
| "key_cost p k = None"

definition metered :: "('s \<Rightarrow> nat) \<Rightarrow> ('s, 'a) auth_env \<Rightarrow> bool" where
  "metered used E \<longleftrightarrow> (\<forall>n s s'. consume E n s = (Ret (), s') \<longrightarrow> used s' = used s + unat n)"

definition costs :: "auth_params \<Rightarrow> pub_key list \<Rightarrow> nat" where
  "costs p ks = (\<Sum>k \<leftarrow> ks. case key_cost p k of Some n \<Rightarrow> unat n | None \<Rightarrow> 0)"

lemma costs_simps [simp]:
  "costs p [] = 0" "costs p (k # ks) = (case key_cost p k of Some n \<Rightarrow> unat n | None \<Rightarrow> 0) + costs p ks"
  "costs p (ks @ ks') = costs p ks + costs p ks'"
  unfolding costs_def by simp_all

lemma meteredD: "consume E n s = (Ret (), s') \<Longrightarrow> metered used E \<Longrightarrow> used s' = used s + unat n"
  unfolding metered_def by blast

lemma consumer_charges:
  shows "DefaultSigVerificationGasConsumer E p k d s = (Ret (), s') \<Longrightarrow> metered used E \<Longrightarrow>
      \<exists>pk. k = Some pk \<and> (\<forall>x \<in> set (signing_keys d pk). key_cost p x \<noteq> None)
        \<and> used s' = used s + costs p (signing_keys d pk)"
    and "ConsumeMultisignatureVerificationGas E p bits ks sigs s = (Ret (), s') \<Longrightarrow> metered used E \<Longrightarrow>
      (\<forall>x \<in> set (concat (map2 signing_keys sigs (set_keys bits ks))). key_cost p x \<noteq> None)
        \<and> used s' = used s + costs p (concat (map2 signing_keys sigs (set_keys bits ks)))"
proof (induction E p k d and E p bits ks sigs arbitrary: s s' and s s'
    rule: DefaultSigVerificationGasConsumer_ConsumeMultisignatureVerificationGas.induct)
  case (3 E p k data)
  then show ?case by (cases data) (auto dest: meteredD)
next
  case (4 E p k data)
  then show ?case by (cases data) (auto dest: meteredD)
next
  case (11 E p bits k ks d sigs)
  from 11(3) obtain s1 where 1: "DefaultSigVerificationGasConsumer E p (Some k) d s = (Ret (), s1)"
    and 2: "ConsumeMultisignatureVerificationGas E p bits ks sigs s1 = (Ret (), s')" by (auto simp: thenDo_Ret)
  from 11(1) [OF 1 11(4)] 11(2) [OF 2 11(4)] show ?case by (auto simp: algebra_simps)
qed (auto simp: thenDo_Ret lift_Ret give_def)

text \<open>
  C28: The gas of a signature: where the gas consumer accepts a signature, every single key that signs,
  through nested multisignatures, is on one of the two secp256 curves, and the gas consumed is the sum
  of the costs of exactly those keys.
\<close>

theorem signature_gas_exact:
  assumes "metered used E" "DefaultSigVerificationGasConsumer E p k d s = (Ret (), s')"
  shows "\<exists>pk. k = Some pk \<and> (\<forall>x \<in> set (signing_keys d pk). key_cost p x \<noteq> None)
    \<and> used s' = used s + costs p (signing_keys d pk)"
  using consumer_charges(1) [OF assms(2,1)] .

section \<open>A concrete keeper\<close>

text \<open>
  Accounts in a map with the gas used, a signature scheme that accepts one signature; it meets the laws
  above.
\<close>

record ref_acc =
  ra_address :: addr
  ra_key :: "pub_key option"
  ra_sequence :: u64
  ra_number :: u64

type_synonym ref_state = "(addr \<rightharpoonup> ref_acc) \<times> nat"

definition ref_accounts :: "ref_state \<Rightarrow> addr \<rightharpoonup> ref_acc" where
  "ref_accounts s a = map_option (\<lambda>x. x\<lparr>ra_address := a\<rparr>) (fst s a)"

definition auth_ref :: "(ref_state, ref_acc) auth_env" where
  "auth_ref =
    \<lparr>consume = (\<lambda>n s. (Ret (), (fst s, snd s + unat n))), emit = (\<lambda>es. give ()),
     ak_get = (\<lambda>a s. (Ret (ref_accounts s a), s)),
     ak_set = (\<lambda>x s. (Ret (), ((fst s)(ra_address x \<mapsto> x), snd s))),
     ak_params = give \<lparr>TxSigLimit = 7, SigVerifyCostED25519 = 590, SigVerifyCostSecp256k1 = 1000, SigVerifyCostSecp256r1 = 500\<rparr>,
     acc_pub_key = ra_key, acc_set_pub_key = (\<lambda>k x. Ok (x\<lparr>ra_key := Some k\<rparr>)), acc_sequence = ra_sequence,
     acc_set_sequence = (\<lambda>n x. Ok (x\<lparr>ra_sequence := n\<rparr>)), acc_number = ra_number,
     pk_address = (\<lambda>k. ''alice''),
     verify_signature = (\<lambda>k sd d tx. if d = SingleSignatureData SignModeDirect [1] then Ok () else Err ErrUnauthorized),
     marshal_multi = (\<lambda>bs. Ok (concat bs)), base64 = (\<lambda>b. []), account_sequence_text = (\<lambda>a n. a)\<rparr>"

lemma auth_ref_laws: "auth_laws ref_accounts ra_address auth_ref" "metered snd auth_ref"
  unfolding auth_laws_def metered_def auth_ref_def by (auto simp: ref_accounts_def fun_eq_iff)

definition example_tx :: sig_tx where
  "example_tx = \<lparr>tx_signers = [''alice''], tx_pub_keys = Ok [Some (Secp256k1Key [2])],
    tx_signatures = Ok [\<lparr>sg_data = SingleSignatureData SignModeDirect [1], sg_sequence = 4\<rparr>]\<rparr>"

definition example_accounts :: "u64 \<Rightarrow> ref_state" where
  "example_accounts n =
    ([''alice'' \<mapsto> \<lparr>ra_address = ''alice'', ra_key = Some (Secp256k1Key [2]), ra_sequence = n, ra_number = 9\<rparr>], 0)"

lemmas auth_example = SigVerification_AnteHandle_def verify_signer_def GetSignerAcc_def IncrementSequence_AnteHandle_def
  thenDo_eq give_def ref_accounts_def auth_ref_def example_tx_def example_accounts_def Let_def

lemma example_verified: "SigVerification_AnteHandle auth_ref c False False (Some example_tx) (example_accounts 4) =
    (Ret (), example_accounts 4)"
  by (simp add: auth_example)

lemma example_incremented: "IncrementSequence_AnteHandle auth_ref (Some example_tx) (example_accounts 4) =
    (Ret (), example_accounts 5)"
  by (simp add: auth_example)

definition example_ctx :: ctx where
  "example_ctx = \<lparr>ctx_height = 5, ctx_chain = ''columbus-5''\<rparr>"

theorem signatures_verified_witness:
  "\<exists>x k. ref_accounts (example_accounts 4) ''alice'' = Some x \<and> acc_pub_key auth_ref x = Some k
    \<and> acc_sequence auth_ref x = 4"
proof -
  have t: "tx_signers example_tx = [''alice'']"
    "tx_signatures example_tx = Ok [\<lparr>sg_data = SingleSignatureData SignModeDirect [1], sg_sequence = 4\<rparr>]"
    by (simp_all add: example_tx_def)
  show ?thesis
    using signatures_verified [OF auth_ref_laws(1) example_verified [of example_ctx]] t by auto
qed

theorem no_replay_witness:
  "fst (SigVerification_AnteHandle auth_ref example_ctx False False (Some example_tx) (example_accounts 5)) =
    Fail ErrWrongSequence"
proof -
  have t: "tx_signers example_tx = ''alice'' # []" "length (tx_signers example_tx) < 2 ^ 64"
    by (simp_all add: example_tx_def)
  have g: "fst (ak_get auth_ref ''alice'' (example_accounts 5)) = Ret (ref_accounts (example_accounts 5) ''alice'')"
    by (simp add: auth_ref_def)
  obtain r s3 where r: "SigVerification_AnteHandle auth_ref example_ctx False False (Some example_tx) (example_accounts 5) = (r, s3)"
    by (rule prod.exhaust)
  from no_replay [OF auth_ref_laws(1) example_verified example_incremented t r] g r show ?thesis by auto
qed

lemma example_multisig_gas:
  "DefaultSigVerificationGasConsumer auth_ref \<lparr>TxSigLimit = 7, SigVerifyCostED25519 = 590, SigVerifyCostSecp256k1 = 1000, SigVerifyCostSecp256r1 = 500\<rparr>
      (Some (LegacyAminoKey 2 [Secp256k1Key [2], Ed25519Key [3], Secp256r1Key [4]]))
      (MultiSignatureData [True, False, True] [SingleSignatureData SignModeDirect [1], SingleSignatureData SignModeDirect [1]]) (Map.empty, 0)
    = (Ret (), (Map.empty, 1500))"
  by (simp add: thenDo_eq give_def auth_ref_def)

theorem signature_gas_exact_witness:
  "metered snd auth_ref \<and> (1500 :: nat) = costs \<lparr>TxSigLimit = 7, SigVerifyCostED25519 = 590, SigVerifyCostSecp256k1 = 1000, SigVerifyCostSecp256r1 = 500\<rparr>
    (signing_keys (MultiSignatureData [True, False, True] [SingleSignatureData SignModeDirect [1], SingleSignatureData SignModeDirect [1]])
      (LegacyAminoKey 2 [Secp256k1Key [2], Ed25519Key [3], Secp256r1Key [4]]))"
  using signature_gas_exact [OF auth_ref_laws(2) example_multisig_gas] auth_ref_laws(2) by simp

section \<open>The limit on signatures\<close>

text \<open>The count of keys of a transaction that passes stays within the limit, without wrapping.\<close>

lemma count_keys_limit:
  assumes "count_keys params pks n = Ok ()" "n \<le> unat (TxSigLimit params)"
    and "n + (\<Sum>pk \<leftarrow> pks. case pk of Some k \<Rightarrow> CountSubKeys k | None \<Rightarrow> 1) < 2 ^ 64"
  shows "n + (\<Sum>pk \<leftarrow> pks. case pk of Some k \<Rightarrow> CountSubKeys k | None \<Rightarrow> 1) \<le> unat (TxSigLimit params)"
  using assms
proof (induction pks arbitrary: n)
  case (Cons pk pks)
  define m where "m = n + (case pk of Some k \<Rightarrow> CountSubKeys k | None \<Rightarrow> 1)"
  have m: "m < 2 ^ 64" using Cons.prems(3) by (simp add: m_def)
  from Cons.prems(1) have c: "\<not> TxSigLimit params < word_of_nat m" "count_keys params pks m = Ok ()"
    by (auto simp: Let_def m_def [symmetric] split: if_splits)
  have "m \<le> unat (TxSigLimit params)"
    using c(1) m by (simp add: not_less word_le_nat_alt unsigned_of_nat take_bit_nat_eq_self)
  from Cons.IH [OF c(2) this] Cons.prems(3) show ?case by (simp only: m_def list.map sum_list.Cons add.assoc)
qed simp

end
