(* ===== verification/Spec2Isabelle.thy ===== *)
theory Spec2Isabelle
  imports Vesting Snapshot OracleEndBlock Wasm SigVerify
begin

text \<open>
  Verification of the Terra core node and its genesis exporter.
\<close>

end
